(* ===== verification/Prelude.thy ===== *)
theory Prelude
  imports Main "HOL-Library.Word" "HOL-Library.Multiset"
begin

text \<open>
  Shared vocabulary of the development: Rust's \<open>u64\<close> as a 64-bit word, the decimal
  \<open>Display\<close> and \<open>FromStr\<close> of \<open>u64\<close>, \<open>str::split\<close> on a character, and the
  \<open>entry(k).or_insert_with(Vec::new).push(v)\<close> idiom on a \<open>HashMap\<close> (kept as an
  association list in order of first insertion), with the lemmas the components share.
\<close>

named_theorems key_simps \<open>how a cache key splits into its parts\<close>
named_theorems wp_simps \<open>weakest preconditions of the operations on the cache\<close>

type_synonym u64 = "64 word"

section \<open>Splitting strings\<close>

text \<open>\<open>str::split(c)\<close>: the pieces between the separators; the empty string has one piece.\<close>

fun split_on :: "char \<Rightarrow> string \<Rightarrow> string list" where
  "split_on c [] = [[]]"
| "split_on c (x # xs) =
     (if x = c then [] # split_on c xs
      else (case split_on c xs of [] \<Rightarrow> [[x]] | p # ps \<Rightarrow> (x # p) # ps))"

lemma split_on_nonempty [simp]: "split_on c s \<noteq> []"
  by (induction s) (auto split: list.splits)

lemma split_on_length [simp]: "0 < length (split_on c s)"
  by simp

lemma split_on_no_sep: "c \<notin> set s \<Longrightarrow> split_on c s = [s]"
  by (induction s) auto

lemma split_on_app: "c \<notin> set s \<Longrightarrow> split_on c (s @ c # t) = s # split_on c t"
  by (induction s) auto

fun join_on :: "char \<Rightarrow> string list \<Rightarrow> string" where
  "join_on c [] = []"
| "join_on c [p] = p"
| "join_on c (p # q # ps) = p @ c # join_on c (q # ps)"

lemma join_on_Cons: "ps \<noteq> [] \<Longrightarrow> join_on c (p # ps) = p @ c # join_on c ps"
  by (cases ps) auto

lemma join_split [simp]: "join_on c (split_on c s) = s"
proof (induction s)
  case (Cons x xs)
  obtain p ps where "split_on c xs = p # ps"
    by (cases "split_on c xs") auto
  with Cons show ?case
    by (cases ps) auto
qed simp

lemma split_on_inj: "split_on c s = split_on c t \<Longrightarrow> s = t"
  by (metis join_split)

lemma split_on_pieces: "p \<in> set (split_on c s) \<Longrightarrow> c \<notin> set p"
  by (induction s arbitrary: p) (auto split: list.splits if_splits)

section \<open>Decimal numbers\<close>

text \<open>The decimal digits of a number, most significant first: Rust's \<open>Display\<close> of an integer.\<close>

fun show_nat :: "nat \<Rightarrow> string" where
  "show_nat n =
     (if n < 10 then [char_of (48 + n)] else show_nat (n div 10) @ [char_of (48 + n mod 10)])"

declare show_nat.simps [simp del]

definition show_u64 :: "u64 \<Rightarrow> string" where
  "show_u64 w = show_nat (unat w)"

definition is_digit :: "char \<Rightarrow> bool" where
  "is_digit c \<longleftrightarrow> 48 \<le> (of_char c :: nat) \<and> (of_char c :: nat) \<le> 57"

definition digit_val :: "char \<Rightarrow> nat" where
  "digit_val c = of_char c - 48"

fun dec_val :: "nat \<Rightarrow> string \<Rightarrow> nat" where
  "dec_val a [] = a"
| "dec_val a (c # cs) = dec_val (10 * a + digit_val c) cs"

text \<open>
  \<open>str::parse::<u64>\<close>: an optional \<open>+\<close>, then at least one digit and nothing else; a
  value of \<open>2^64\<close> or more is an error.
\<close>

definition parse_u64 :: "string \<Rightarrow> u64 option" where
  "parse_u64 s =
     (let ds = (case s of [] \<Rightarrow> [] | c # cs \<Rightarrow> if c = CHR ''+'' then cs else s) in
      if ds = [] \<or> \<not> list_all is_digit ds \<or> 2 ^ 64 \<le> dec_val 0 ds then None
      else Some (of_nat (dec_val 0 ds)))"

lemma of_char_digit: "n < 10 \<Longrightarrow> (of_char (char_of (48 + n) :: char) :: nat) = 48 + n"
  by (simp add: of_char_of)

lemma digit_char [simp]: "n < 10 \<Longrightarrow> is_digit (char_of (48 + n))"
  "n < 10 \<Longrightarrow> digit_val (char_of (48 + n)) = n"
  by (simp_all add: is_digit_def digit_val_def of_char_digit)

lemma show_nat_digits: "list_all is_digit (show_nat n)"
proof (induction n rule: show_nat.induct)
  case (1 n)
  then show ?case
    by (subst show_nat.simps) simp
qed

lemma show_nat_nonempty [simp]: "show_nat n \<noteq> []"
  by (subst show_nat.simps) simp

lemma dec_val_app: "dec_val a (xs @ ys) = dec_val (dec_val a xs) ys"
  by (induction xs arbitrary: a) auto

lemma dec_val_show_nat: "dec_val 0 (show_nat n) = n"
proof (induction n rule: show_nat.induct)
  case (1 n)
  then show ?case
    by (subst show_nat.simps) (simp add: dec_val_app)
qed

lemma show_nat_inj: "show_nat m = show_nat n \<Longrightarrow> m = n"
  by (metis dec_val_show_nat)

lemma show_u64_inj [simp]: "show_u64 a = show_u64 b \<longleftrightarrow> a = b"
  by (auto simp: show_u64_def dest!: show_nat_inj intro: word_unat_eq_iff [THEN iffD2])

lemma is_digit_not_colon: "is_digit c \<Longrightarrow> c \<noteq> CHR '':''" "is_digit c \<Longrightarrow> c \<noteq> CHR ''+''"
  by (auto simp: is_digit_def)

lemma show_u64_no_colon [simp]: "CHR '':'' \<notin> set (show_u64 a)"
  using show_nat_digits [of "unat a"] is_digit_not_colon
  by (auto simp: show_u64_def list_all_iff)

lemma show_u64_nonempty [simp]: "show_u64 a \<noteq> []"
  by (simp add: show_u64_def)

lemma unat_lt2p_64: "unat (a :: u64) < 2 ^ 64"
  using unsigned_less [of a] by simp

lemma parse_show_u64 [simp]: "parse_u64 (show_u64 a) = Some a"
proof -
  obtain c cs where s: "show_nat (unat a) = c # cs"
    by (cases "show_nat (unat a)") auto
  have d: "list_all is_digit (show_nat (unat a))"
    by (rule show_nat_digits)
  with s have "c \<noteq> CHR ''+''"
    by (auto dest: is_digit_not_colon)
  moreover have "unat a < 2 ^ 64"
    using unat_lt2p_64 .
  ultimately show ?thesis
    using s d dec_val_show_nat [of "unat a"]
    by (simp add: parse_u64_def show_u64_def)
qed

section \<open>A map of vectors, by insertion order\<close>

text \<open>\<open>map.entry(k).or_insert_with(Vec::new).push(v)\<close>.\<close>

fun push_entry :: "'k \<Rightarrow> 'v \<Rightarrow> ('k \<times> 'v list) list \<Rightarrow> ('k \<times> 'v list) list" where
  "push_entry k v [] = [(k, [v])]"
| "push_entry k v ((k', vs) # m) =
     (if k' = k then (k', vs @ [v]) # m else (k', vs) # push_entry k v m)"

definition entry_of :: "('k \<times> 'v list) list \<Rightarrow> 'k \<Rightarrow> 'v list" where
  "entry_of m k = (case map_of m k of None \<Rightarrow> [] | Some vs \<Rightarrow> vs)"

lemma entry_of_Nil [simp]: "entry_of [] k = []"
  by (simp add: entry_of_def)

lemma map_of_push_entry:
  "map_of (push_entry k v m) = (map_of m)(k \<mapsto> entry_of m k @ [v])"
  by (induction m) (auto simp: entry_of_def fun_eq_iff)

lemma entry_of_push [simp]:
  "entry_of (push_entry k v m) k' = (if k' = k then entry_of m k @ [v] else entry_of m k')"
  by (simp add: entry_of_def map_of_push_entry)

lemma keys_push_entry [simp]:
  "fst ` set (push_entry k v m) = insert k (fst ` set m)"
  by (induction k v m rule: push_entry.induct) (simp_all add: insert_commute)

lemma distinct_push_entry [simp]:
  "distinct (map fst (push_entry k v m)) \<longleftrightarrow> distinct (map fst m)"
proof (induction m)
  case (Cons p m)
  have "fst p \<in> fst ` set (push_entry k v m) \<longleftrightarrow> fst p = k \<or> fst p \<in> fst ` set m"
    by (simp only: keys_push_entry insert_iff)
  with Cons show ?case
    by (cases p) simp
qed simp

lemma push_entry_nonempty:
  "[] \<notin> snd ` set m \<Longrightarrow> [] \<notin> snd ` set (push_entry k v m)"
  by (induction k v m rule: push_entry.induct) simp_all

section \<open>Iteration orders\<close>

text \<open>
  The iteration order of a \<open>HashMap\<close> is unspecified: a function from the entries in
  insertion order to the order of one iteration, which visits each entry once.
\<close>

definition visits_once :: "('a list \<Rightarrow> 'a list) \<Rightarrow> bool" where
  "visits_once ho \<longleftrightarrow> (\<forall>xs. mset (ho xs) = mset xs)"

lemma visits_once_id: "visits_once (\<lambda>xs. xs)"
  by (simp add: visits_once_def)

lemma visits_once_rev: "visits_once rev"
  by (simp add: visits_once_def)

lemma visits_once_set: "visits_once ho \<Longrightarrow> set (ho xs) = set xs"
  by (metis visits_once_def set_mset_mset)

lemma visits_once_distinct_fst:
  assumes "visits_once ho"
  shows "distinct (map fst (ho xs)) \<longleftrightarrow> distinct (map fst xs)"
proof -
  have "mset (map fst (ho xs)) = mset (map fst xs)"
    using assms by (simp add: visits_once_def)
  then show ?thesis
    by (metis mset_eq_imp_distinct_iff)
qed

lemma visits_once_map_of:
  assumes "visits_once ho" "distinct (map fst xs)"
  shows "map_of (ho xs) = map_of xs"
proof -
  have "set (ho xs) = set xs" "distinct (map fst (ho xs))"
    using assms by (simp_all add: visits_once_set visits_once_distinct_fst)
  with assms(2) show ?thesis
    by (metis map_of_inject_set)
qed

lemma visits_once_entry:
  "visits_once ho \<Longrightarrow> distinct (map fst xs) \<Longrightarrow> entry_of (ho xs) x = entry_of xs x"
  by (simp add: entry_of_def visits_once_map_of)

end
