(* ===== verification/Keys.thy ===== *)
theory Keys
  imports Prelude
begin

text \<open>
  \<open>src/constants.rs\<close>: the Redis keys. Every key is a list of parts separated by colons,
  the first of which is its kind. The interface \<open>scoped_key\<close> states what the cache relies
  on (a key of two ids splits into its kind and the two decimal ids); the builders of the
  source interpret it.
\<close>

section \<open>Constants\<close>

definition EXCHANGE :: string where "EXCHANGE = ''gateway''"
definition QUEUE_RECV :: string where "QUEUE_RECV = ''gateway.recv''"
definition QUEUE_SEND :: string where "QUEUE_SEND = ''gateway.send''"

definition SESSIONS_KEY :: string where "SESSIONS_KEY = ''gateway_sessions''"
definition STATUSES_KEY :: string where "STATUSES_KEY = ''gateway_statuses''"
definition STARTED_KEY :: string where "STARTED_KEY = ''gateway_started''"
definition SHARDS_KEY :: string where "SHARDS_KEY = ''gateway_shards''"

definition BOT_USER_KEY :: string where "BOT_USER_KEY = ''bot_user''"
definition GUILD_KEY :: string where "GUILD_KEY = ''guild''"
definition CHANNEL_KEY :: string where "CHANNEL_KEY = ''channel''"
definition MESSAGE_KEY :: string where "MESSAGE_KEY = ''message''"
definition ROLE_KEY :: string where "ROLE_KEY = ''role''"
definition EMOJI_KEY :: string where "EMOJI_KEY = ''emoji''"
definition MEMBER_KEY :: string where "MEMBER_KEY = ''member''"
definition PRESENCE_KEY :: string where "PRESENCE_KEY = ''presence''"
definition VOICE_KEY :: string where "VOICE_KEY = ''voice''"

definition KEYS_SUFFIX :: string where "KEYS_SUFFIX = ''_keys''"
definition EXPIRY_KEYS :: string where "EXPIRY_KEYS = ''expiry_keys''"

lemmas kind_defs = GUILD_KEY_def CHANNEL_KEY_def MESSAGE_KEY_def ROLE_KEY_def EMOJI_KEY_def
  MEMBER_KEY_def PRESENCE_KEY_def VOICE_KEY_def

lemmas plain_defs = SESSIONS_KEY_def STATUSES_KEY_def STARTED_KEY_def SHARDS_KEY_def
  BOT_USER_KEY_def

text \<open>The kinds of cached object, the first part of an object's key.\<close>

definition kinds :: "string set" where
  "kinds = {GUILD_KEY, CHANNEL_KEY, MESSAGE_KEY, ROLE_KEY, EMOJI_KEY, MEMBER_KEY,
     PRESENCE_KEY, VOICE_KEY}"

definition parts_of :: "string \<Rightarrow> string list" where
  "parts_of k = split_on CHR '':'' k"

definition kind_of :: "string \<Rightarrow> string" where
  "kind_of k = parts_of k ! 0"

lemma parts_of_nonempty [simp]: "parts_of k \<noteq> []" "0 < length (parts_of k)"
  by (simp_all add: parts_of_def)

lemma parts_of_inj: "parts_of k = parts_of k' \<Longrightarrow> k = k'"
  unfolding parts_of_def by (rule split_on_inj)

lemma kind_no_colon: "k \<in> kinds \<Longrightarrow> CHR '':'' \<notin> set k"
  by (auto simp: kinds_def kind_defs)

section \<open>Key builders\<close>

definition guild_key :: "u64 \<Rightarrow> string" where
  "guild_key guild = GUILD_KEY @ '':'' @ show_u64 guild"

definition guild_channel_key :: "u64 \<Rightarrow> u64 \<Rightarrow> string" where
  "guild_channel_key guild channel =
     CHANNEL_KEY @ '':'' @ show_u64 guild @ '':'' @ show_u64 channel"

definition private_channel_key :: "u64 \<Rightarrow> string" where
  "private_channel_key channel = CHANNEL_KEY @ '':'' @ show_u64 channel"

definition channel_key :: "u64 option \<Rightarrow> u64 \<Rightarrow> string" where
  "channel_key guild channel =
     (case guild of Some g \<Rightarrow> guild_channel_key g channel
      | None \<Rightarrow> private_channel_key channel)"

definition message_key :: "u64 \<Rightarrow> u64 \<Rightarrow> string" where
  "message_key channel message =
     MESSAGE_KEY @ '':'' @ show_u64 channel @ '':'' @ show_u64 message"

definition role_key :: "u64 \<Rightarrow> u64 \<Rightarrow> string" where
  "role_key guild role = ROLE_KEY @ '':'' @ show_u64 guild @ '':'' @ show_u64 role"

definition emoji_key :: "u64 \<Rightarrow> u64 \<Rightarrow> string" where
  "emoji_key guild emoji = EMOJI_KEY @ '':'' @ show_u64 guild @ '':'' @ show_u64 emoji"

definition member_key :: "u64 \<Rightarrow> u64 \<Rightarrow> string" where
  "member_key guild member = MEMBER_KEY @ '':'' @ show_u64 guild @ '':'' @ show_u64 member"

definition presence_key :: "u64 \<Rightarrow> u64 \<Rightarrow> string" where
  "presence_key guild member =
     PRESENCE_KEY @ '':'' @ show_u64 guild @ '':'' @ show_u64 member"

definition voice_key :: "u64 \<Rightarrow> u64 \<Rightarrow> string" where
  "voice_key guild member = VOICE_KEY @ '':'' @ show_u64 guild @ '':'' @ show_u64 member"

lemma parts_two: "CHR '':'' \<notin> set k \<Longrightarrow> parts_of (k @ '':'' @ show_u64 a) = [k, show_u64 a]"
  by (simp add: parts_of_def split_on_app split_on_no_sep)

lemma parts_three:
  "CHR '':'' \<notin> set k \<Longrightarrow>
     parts_of (k @ '':'' @ show_u64 a @ '':'' @ show_u64 b) = [k, show_u64 a, show_u64 b]"
  by (simp add: parts_of_def split_on_app split_on_no_sep)

lemma parts_guild_key [key_simps]: "parts_of (guild_key g) = [GUILD_KEY, show_u64 g]"
  unfolding guild_key_def by (rule parts_two) (simp add: kind_defs)

lemma parts_private_channel_key [key_simps]:
  "parts_of (private_channel_key c) = [CHANNEL_KEY, show_u64 c]"
  unfolding private_channel_key_def by (rule parts_two) (simp add: kind_defs)

section \<open>The interface of the two-id keys\<close>

locale scoped_key =
  fixes key :: "u64 \<Rightarrow> u64 \<Rightarrow> string"
    and kind :: string
  assumes parts: "parts_of (key scope x) = [kind, show_u64 scope, show_u64 x]"
    and kind_in: "kind \<in> kinds"
begin

lemma key_eq_iff: "key g x = key g' x' \<longleftrightarrow> g = g' \<and> x = x'"
proof
  assume "key g x = key g' x'"
  then have "parts_of (key g x) = parts_of (key g' x')"
    by simp
  then show "g = g' \<and> x = x'"
    by (simp add: parts)
qed simp

lemma kind_of_key: "kind_of (key g x) = kind"
  by (simp add: kind_of_def parts)

lemma scope_id: "parse_u64 (parts_of (key g x) ! 1) = Some g"
  by (simp add: parts)

lemma object_id: "parse_u64 (parts_of (key g x) ! 2) = Some x"
  by (simp add: parts)

lemma key_of_parts: "parts_of k = [kind, show_u64 g, show_u64 x] \<Longrightarrow> k = key g x"
  by (rule parts_of_inj) (simp add: parts)

end

interpretation guild_channel_keys: scoped_key guild_channel_key CHANNEL_KEY
  by unfold_locales (unfold guild_channel_key_def, rule parts_three,
    simp_all add: kind_defs kinds_def)

interpretation message_keys: scoped_key message_key MESSAGE_KEY
  by unfold_locales (unfold message_key_def, rule parts_three, simp_all add: kind_defs kinds_def)

interpretation role_keys: scoped_key role_key ROLE_KEY
  by unfold_locales (unfold role_key_def, rule parts_three, simp_all add: kind_defs kinds_def)

interpretation emoji_keys: scoped_key emoji_key EMOJI_KEY
  by unfold_locales (unfold emoji_key_def, rule parts_three, simp_all add: kind_defs kinds_def)

interpretation member_keys: scoped_key member_key MEMBER_KEY
  by unfold_locales (unfold member_key_def, rule parts_three, simp_all add: kind_defs kinds_def)

interpretation presence_keys: scoped_key presence_key PRESENCE_KEY
  by unfold_locales (unfold presence_key_def, rule parts_three, simp_all add: kind_defs kinds_def)

interpretation voice_keys: scoped_key voice_key VOICE_KEY
  by unfold_locales (unfold voice_key_def, rule parts_three, simp_all add: kind_defs kinds_def)

lemmas scoped_parts [key_simps] = guild_channel_keys.parts message_keys.parts role_keys.parts
  emoji_keys.parts member_keys.parts presence_keys.parts voice_keys.parts

lemma parts_plain [key_simps]:
  "parts_of BOT_USER_KEY = [BOT_USER_KEY]" "parts_of SESSIONS_KEY = [SESSIONS_KEY]"
  "parts_of STATUSES_KEY = [STATUSES_KEY]" "parts_of STARTED_KEY = [STARTED_KEY]"
  "parts_of SHARDS_KEY = [SHARDS_KEY]"
  by (simp_all add: parts_of_def split_on_no_sep plain_defs)

text \<open>Different kinds never share a key.\<close>

lemma kinds_differ [simp]:
  "GUILD_KEY \<noteq> CHANNEL_KEY" "GUILD_KEY \<noteq> MESSAGE_KEY"
  "GUILD_KEY \<noteq> ROLE_KEY" "GUILD_KEY \<noteq> EMOJI_KEY" "GUILD_KEY \<noteq> MEMBER_KEY"
  "GUILD_KEY \<noteq> PRESENCE_KEY" "GUILD_KEY \<noteq> VOICE_KEY"
  "GUILD_KEY \<noteq> BOT_USER_KEY"
  "CHANNEL_KEY \<noteq> GUILD_KEY" "CHANNEL_KEY \<noteq> MESSAGE_KEY"
  "CHANNEL_KEY \<noteq> ROLE_KEY" "CHANNEL_KEY \<noteq> EMOJI_KEY"
  "CHANNEL_KEY \<noteq> MEMBER_KEY" "CHANNEL_KEY \<noteq> PRESENCE_KEY"
  "CHANNEL_KEY \<noteq> VOICE_KEY" "CHANNEL_KEY \<noteq> BOT_USER_KEY"
  "MESSAGE_KEY \<noteq> GUILD_KEY" "MESSAGE_KEY \<noteq> CHANNEL_KEY"
  "MESSAGE_KEY \<noteq> ROLE_KEY" "MESSAGE_KEY \<noteq> EMOJI_KEY"
  "MESSAGE_KEY \<noteq> MEMBER_KEY" "MESSAGE_KEY \<noteq> PRESENCE_KEY"
  "MESSAGE_KEY \<noteq> VOICE_KEY" "MESSAGE_KEY \<noteq> BOT_USER_KEY"
  "ROLE_KEY \<noteq> GUILD_KEY" "ROLE_KEY \<noteq> CHANNEL_KEY" "ROLE_KEY \<noteq> MESSAGE_KEY"
  "ROLE_KEY \<noteq> EMOJI_KEY" "ROLE_KEY \<noteq> MEMBER_KEY" "ROLE_KEY \<noteq> PRESENCE_KEY"
  "ROLE_KEY \<noteq> VOICE_KEY" "ROLE_KEY \<noteq> BOT_USER_KEY"
  "EMOJI_KEY \<noteq> GUILD_KEY" "EMOJI_KEY \<noteq> CHANNEL_KEY"
  "EMOJI_KEY \<noteq> MESSAGE_KEY" "EMOJI_KEY \<noteq> ROLE_KEY" "EMOJI_KEY \<noteq> MEMBER_KEY"
  "EMOJI_KEY \<noteq> PRESENCE_KEY" "EMOJI_KEY \<noteq> VOICE_KEY"
  "EMOJI_KEY \<noteq> BOT_USER_KEY"
  "MEMBER_KEY \<noteq> GUILD_KEY" "MEMBER_KEY \<noteq> CHANNEL_KEY"
  "MEMBER_KEY \<noteq> MESSAGE_KEY" "MEMBER_KEY \<noteq> ROLE_KEY"
  "MEMBER_KEY \<noteq> EMOJI_KEY" "MEMBER_KEY \<noteq> PRESENCE_KEY"
  "MEMBER_KEY \<noteq> VOICE_KEY" "MEMBER_KEY \<noteq> BOT_USER_KEY"
  "PRESENCE_KEY \<noteq> GUILD_KEY" "PRESENCE_KEY \<noteq> CHANNEL_KEY"
  "PRESENCE_KEY \<noteq> MESSAGE_KEY" "PRESENCE_KEY \<noteq> ROLE_KEY"
  "PRESENCE_KEY \<noteq> EMOJI_KEY" "PRESENCE_KEY \<noteq> MEMBER_KEY"
  "PRESENCE_KEY \<noteq> VOICE_KEY" "PRESENCE_KEY \<noteq> BOT_USER_KEY"
  "VOICE_KEY \<noteq> GUILD_KEY" "VOICE_KEY \<noteq> CHANNEL_KEY"
  "VOICE_KEY \<noteq> MESSAGE_KEY" "VOICE_KEY \<noteq> ROLE_KEY" "VOICE_KEY \<noteq> EMOJI_KEY"
  "VOICE_KEY \<noteq> MEMBER_KEY" "VOICE_KEY \<noteq> PRESENCE_KEY"
  "VOICE_KEY \<noteq> BOT_USER_KEY"
  "BOT_USER_KEY \<noteq> GUILD_KEY" "BOT_USER_KEY \<noteq> CHANNEL_KEY"
  "BOT_USER_KEY \<noteq> MESSAGE_KEY" "BOT_USER_KEY \<noteq> ROLE_KEY"
  "BOT_USER_KEY \<noteq> EMOJI_KEY" "BOT_USER_KEY \<noteq> MEMBER_KEY"
  "BOT_USER_KEY \<noteq> PRESENCE_KEY" "BOT_USER_KEY \<noteq> VOICE_KEY"
  by (simp_all add: kind_defs plain_defs)

lemma kind_in_kinds [simp]:
  "GUILD_KEY \<in> kinds" "CHANNEL_KEY \<in> kinds" "MESSAGE_KEY \<in> kinds" "ROLE_KEY \<in> kinds"
  "EMOJI_KEY \<in> kinds" "MEMBER_KEY \<in> kinds" "PRESENCE_KEY \<in> kinds" "VOICE_KEY \<in> kinds"
  by (simp_all add: kinds_def)

end
