(* ===== verification/Models.thy ===== *)
theory Models
  imports Prelude
begin

text \<open>
  The data of the service. The payloads come from \<open>twilight_model\<close>, which is not part of
  the repository: a record has the fields the code reads or writes, each opaque field (one the
  code only copies) is kept as its JSON document, and the rest of the object is one more
  document. \<open>api_error\<close>, \<open>guild_item\<close>, the session, status, payload and delivery
  records are those of \<open>src/models.rs\<close>; \<open>config\<close> is the struct of \<open>src/config.rs\<close>.
  The foreign functions the code calls on these data (serialisers, deserialisers, the range
  check of date arithmetic) are the fields of the record \<open>runtime\<close>, a parameter of every
  definition that uses them.
\<close>

section \<open>Values\<close>

text \<open>\<open>simd_json::owned::Value\<close>; a number is kept as its literal.\<close>

datatype json =
    JNull
  | JBool bool
  | JNum string
  | JString string
  | JArray "json list"
  | JObject "(string \<times> json) list"

text \<open>
  \<open>OffsetDateTime\<close>, the content of \<open>FormattedDateTime\<close>: nanoseconds since the epoch.
\<close>

type_synonym datetime = int

section \<open>Errors\<close>

text \<open>
  \<open>ApiError\<close>. The payload of each variant is an error of another crate, of which the code
  only ever prints the debug text.
\<close>

datatype api_error =
    Empty
  | SimdJson string
  | Redis string
  | Var string
  | ParseInt string
  | Lapin string
  | ClusterStart string
  | Hyper string
  | HyperHttp string
  | AddrParse string
  | Prometheus string
  | Io string
  | TwilightHttp string
  | DeserializeBody string

text \<open>The derived \<open>Debug\<close>, which \<open>Display\<close> uses too; the text of a source is its \<open>Debug\<close>.\<close>

fun debug_error :: "api_error \<Rightarrow> string" where
  "debug_error Empty = ''Empty(())''"
| "debug_error (SimdJson e) = ''SimdJson('' @ e @ '')''"
| "debug_error (Redis e) = ''Redis('' @ e @ '')''"
| "debug_error (Var e) = ''Var('' @ e @ '')''"
| "debug_error (ParseInt e) = ''ParseInt('' @ e @ '')''"
| "debug_error (Lapin e) = ''Lapin('' @ e @ '')''"
| "debug_error (ClusterStart e) = ''ClusterStart('' @ e @ '')''"
| "debug_error (Hyper e) = ''Hyper('' @ e @ '')''"
| "debug_error (HyperHttp e) = ''HyperHttp('' @ e @ '')''"
| "debug_error (AddrParse e) = ''AddrParse('' @ e @ '')''"
| "debug_error (Prometheus e) = ''Prometheus('' @ e @ '')''"
| "debug_error (Io e) = ''Io('' @ e @ '')''"
| "debug_error (TwilightHttp e) = ''TwilightHttp('' @ e @ '')''"
| "debug_error (DeserializeBody e) = ''DeserializeBody('' @ e @ '')''"

definition display_error :: "api_error \<Rightarrow> string" where
  "display_error err = debug_error err"

text \<open>
  The result of a computation: \<open>Ok\<close> and \<open>Err\<close> of \<open>ApiResult\<close>, or a panic.
\<close>

datatype 'a res = Ok 'a | Err api_error | Panic string

section \<open>Payloads\<close>

record user =
  us_id :: u64
  us_rest :: json

record channel =
  ch_id :: u64
  ch_guild_id :: "u64 option"
  ch_last_pin_timestamp :: "json option"
  ch_rest :: json

record role =
  ro_id :: u64
  ro_rest :: json

record emoji =
  em_id :: u64
  em_rest :: json

record voice_state =
  vs_guild_id :: "u64 option"
  vs_channel_id :: "u64 option"
  vs_user_id :: u64
  vs_rest :: json

record member =
  mb_guild_id :: u64
  mb_user :: user
  mb_joined_at :: json
  mb_nick :: "string option"
  mb_premium_since :: "json option"
  mb_roles :: "u64 list"
  mb_rest :: json

record presence =
  pr_guild_id :: u64
  pr_user_id :: u64
  pr_rest :: json

record message =
  ms_id :: u64
  ms_channel_id :: u64
  ms_attachments :: "json list"
  ms_content :: string
  ms_edited_timestamp :: "json option"
  ms_embeds :: "json list"
  ms_mention_everyone :: bool
  ms_mention_roles :: "u64 list"
  ms_mentions :: "json list"
  ms_pinned :: bool
  ms_timestamp :: json
  ms_tts :: bool
  ms_rest :: json

record message_update =
  mu_id :: u64
  mu_channel_id :: u64
  mu_attachments :: "json list option"
  mu_content :: "string option"
  mu_edited_timestamp :: "json option"
  mu_embeds :: "json list option"
  mu_mention_everyone :: "bool option"
  mu_mention_roles :: "u64 list option"
  mu_mentions :: "json list option"
  mu_pinned :: "bool option"
  mu_timestamp :: "json option"
  mu_tts :: "bool option"

record member_update =
  mbu_guild_id :: u64
  mbu_user :: user
  mbu_joined_at :: json
  mbu_nick :: "string option"
  mbu_premium_since :: "json option"
  mbu_roles :: "u64 list"

record guild =
  gd_id :: u64
  gd_name :: string
  gd_channels :: "channel list"
  gd_roles :: "role list"
  gd_emojis :: "emoji list"
  gd_voice_states :: "voice_state list"
  gd_members :: "member list"
  gd_presences :: "presence list"
  gd_rest :: json

record partial_guild =
  pg_id :: u64
  pg_rest :: json

record unavailable_guild =
  ug_id :: u64
  ug_unavailable :: bool

text \<open>\<open>GuildItem\<close>, serialised as the object inside (\<open>serde(untagged)\<close>).\<close>

datatype guild_item =
    GuildI guild
  | ChannelI channel
  | RoleI role
  | EmojiI emoji
  | VoiceI voice_state
  | MemberI member
  | PresenceI presence

text \<open>
  \<open>twilight_gateway::Event\<close>: the variants the code matches on, with the fields it reads;
  the others, which every match of the code sends to its wildcard, are \<open>OtherEvent\<close>.
\<close>

datatype event =
    ChannelCreate channel
  | ChannelDelete channel
  | ChannelPinsUpdate "u64 option" u64 "json option"
  | ChannelUpdate channel
  | GuildCreate guild
  | GuildDelete u64 bool
  | GuildEmojisUpdate u64 "emoji list"
  | GuildUpdate partial_guild
  | MemberAdd member
  | MemberRemove u64 user
  | MemberUpdate member_update
  | MemberChunk u64 "member list"
  | MessageCreate message
  | MessageDelete u64 u64
  | MessageDeleteBulk u64 "u64 list"
  | MessageUpdate message_update
  | PresenceUpdate presence
  | Ready user "unavailable_guild list" string
  | RoleCreate u64 role
  | RoleDelete u64 u64
  | RoleUpdate u64 role
  | UnavailableGuild unavailable_guild
  | UserUpdate user
  | VoiceStateUpdate voice_state
  | GatewayHello u64
  | GatewayInvalidateSession bool
  | Resumed
  | ShardConnected
  | ShardConnecting string
  | ShardDisconnected "nat option" "string option"
  | ShardIdentifying
  | ShardReconnecting
  | ShardResuming u64
  | ShardPayload string
  | OtherEvent string

section \<open>Records of \<open>models.rs\<close>\<close>

record session_info =
  si_session_id :: string
  si_sequence :: u64

record status_info =
  st_shard :: u64
  st_status :: string
  st_latency :: u64
  st_last_ack :: datetime

record payload_info =
  pi_op :: json
  pi_t :: "string option"
  pi_d :: json
  pi_old :: "json option"

datatype delivery_opcode = Send | Reconnect

record delivery_info =
  di_op :: delivery_opcode
  di_shard :: u64
  di_data :: "json option"

text \<open>
  What \<open>twilight_gateway\<close> tells of a shard: its stage, the most recent latencies and the time
  since the last heartbeat was acknowledged (milliseconds), its session. A snapshot of a
  cluster lists its shards in the iteration order of a \<open>HashMap\<close>.
\<close>

datatype stage = Connected | Disconnected | Handshaking | Identifying | Resuming

record shard_info =
  sh_stage :: stage
  sh_recent :: "nat list"
  sh_received :: "nat option"
  sh_session_id :: "string option"
  sh_seq :: u64

type_synonym snapshot = "(u64 \<times> shard_info) list"

section \<open>Configuration\<close>

record config =
  rust_log :: string
  bot_token :: string
  shards_start :: u64
  shards_end :: u64
  shards_total :: u64
  shards_concurrency :: u64
  shards_wait :: u64
  clusters :: u64
  default_queue :: bool
  resume :: bool
  intents :: u64
  large_threshold :: u64
  status :: string
  activity_type :: u64
  activity_name :: string
  log_channel :: u64
  log_guild_channel :: u64
  state_enabled :: bool
  state_member :: bool
  state_member_ttl :: u64
  state_message :: bool
  state_message_ttl :: u64
  state_presence :: bool
  state_emoji :: bool
  state_voice :: bool
  state_old :: bool
  rabbit_host :: string
  rabbit_port :: u64
  rabbit_username :: string
  rabbit_password :: string
  redis_host :: string
  redis_port :: u64
  prometheus_host :: string
  prometheus_port :: u64

section \<open>Foreign functions on the data\<close>

text \<open>
  \<open>ser_*\<close> is \<open>simd_json::to_string\<close> at the type's \<open>Serialize\<close> instance,
  \<open>de_*\<close> is \<open>simd_json::from_str\<close> at its \<open>Deserialize\<close> instance; an error is its
  debug text. \<open>dt_format\<close> and \<open>dt_parse\<close> are \<open>OffsetDateTime::format\<close> and
  \<open>parse\<close> with the formats of \<open>models.rs\<close>; \<open>dt_add t ms\<close> is \<open>t\<close> plus a
  duration, \<open>None\<close> where the library panics because the result is out of range.
  \<open>hash_order\<close> is the order in which one iteration visits the entries of the \<open>HashMap\<close>
  of index members; \<open>stage_name\<close> is the \<open>Display\<close> of \<open>Stage\<close>.
\<close>

type_synonym 'a ser = "'a \<Rightarrow> string + string"
type_synonym 'a de = "string \<Rightarrow> string + 'a"

record runtime =
  ser_channel :: "channel ser"
  de_channel :: "channel de"
  ser_role :: "role ser"
  ser_emoji :: "emoji ser"
  de_emoji :: "emoji de"
  ser_emojis :: "emoji list ser"
  ser_voice :: "voice_state ser"
  ser_member :: "member ser"
  de_member :: "member de"
  ser_presence :: "presence ser"
  ser_message :: "message ser"
  de_message :: "message de"
  ser_messages :: "message list ser"
  ser_guild :: "guild ser"
  ser_partial_guild :: "partial_guild ser"
  ser_unavailable :: "unavailable_guild ser"
  ser_user :: "user ser"
  de_value :: "json de"
  ser_statuses :: "status_info list ser"
  ser_sessions :: "(string \<times> session_info) list ser"
  de_sessions :: "(string \<times> session_info) list de"
  ser_u64 :: "u64 ser"
  de_u64 :: "u64 de"
  de_payload :: "payload_info de"
  ser_payload :: "payload_info ser"
  de_delivery :: "delivery_info de"
  ser_json :: "json ser"
  stage_name :: "stage \<Rightarrow> string"
  ser_string :: "string ser"
  de_string :: "string de"
  dt_format :: "datetime \<Rightarrow> string option"
  dt_parse :: "string \<Rightarrow> datetime option"
  dt_add :: "datetime \<Rightarrow> int \<Rightarrow> datetime option"
  hash_order :: "(string \<times> string list) list \<Rightarrow> (string \<times> string list) list"

text \<open>\<open>Serialize\<close> of \<open>GuildItem\<close>.\<close>

fun ser_item :: "runtime \<Rightarrow> guild_item ser" where
  "ser_item R (GuildI g) = ser_guild R g"
| "ser_item R (ChannelI c) = ser_channel R c"
| "ser_item R (RoleI r) = ser_role R r"
| "ser_item R (EmojiI e) = ser_emoji R e"
| "ser_item R (VoiceI v) = ser_voice R v"
| "ser_item R (MemberI m) = ser_member R m"
| "ser_item R (PresenceI p) = ser_presence R p"

text \<open>
  \<open>Serialize\<close> of \<open>FormattedDateTime\<close>: the formatted text (the \<open>unwrap\<close> panics where
  the date cannot be formatted), as a JSON string.
\<close>

definition ser_datetime :: "runtime \<Rightarrow> datetime \<Rightarrow> string res" where
  "ser_datetime R t =
     (case dt_format R t of
        None \<Rightarrow> Panic ''called Result::unwrap() on an Err value''
      | Some s \<Rightarrow> (case ser_string R s of Inl e \<Rightarrow> Err (SimdJson e) | Inr j \<Rightarrow> Ok j))"

text \<open>
  \<open>Deserialize\<close> of \<open>FormattedDateTime\<close>: the UTC offset is appended before parsing.
\<close>

definition de_datetime :: "runtime \<Rightarrow> datetime de" where
  "de_datetime R s =
     (case de_string R s of
        Inl e \<Rightarrow> Inl e
      | Inr str \<Rightarrow> (case dt_parse R (str @ ''+00'') of
                     Some dt \<Rightarrow> Inr dt
                   | None \<Rightarrow> Inl ''not a valid formatted timestamp''))"

text \<open>\<open>deserialize_in_place\<close>: an error leaves the place as it was.\<close>

definition de_datetime_in_place :: "runtime \<Rightarrow> string \<Rightarrow> datetime \<Rightarrow> (string + unit) \<times> datetime" where
  "de_datetime_in_place R s place =
     (case de_string R s of
        Inl e \<Rightarrow> (Inl e, place)
      | Inr str \<Rightarrow> (case dt_parse R (str @ ''+00'') of
                     Some dt \<Rightarrow> (Inr (), dt)
                   | None \<Rightarrow> (Inl ''not a valid formatted timestamp'', place)))"

lemma de_datetime_in_place:
  "de_datetime_in_place R s place =
     (case de_datetime R s of Inl e \<Rightarrow> (Inl e, place) | Inr dt \<Rightarrow> (Inr (), dt))"
  by (simp add: de_datetime_in_place_def de_datetime_def split: sum.split option.split)

text \<open>
  \<open>Add\<close> and \<open>Sub\<close> of \<open>FormattedDateTime\<close>. \<open>dt_add\<close> is the addition of a duration in
  milliseconds, which panics out of the range of the dates, as does the subtraction; the
  difference of two dates is a duration in nanoseconds.
\<close>

definition add_datetime :: "runtime \<Rightarrow> datetime \<Rightarrow> int \<Rightarrow> datetime res" where
  "add_datetime R t ms =
     (case dt_add R t ms of
        None \<Rightarrow> Panic ''resulting value is out of range''
      | Some dt \<Rightarrow> Ok dt)"

definition sub_duration :: "runtime \<Rightarrow> datetime \<Rightarrow> int \<Rightarrow> datetime res" where
  "sub_duration R t ms = add_datetime R t (- ms)"

definition sub_datetime :: "datetime \<Rightarrow> datetime \<Rightarrow> int" where [simp]:
  "sub_datetime t t' = t - t'"

text \<open>
  \<open>time::Duration::milliseconds(value as i64)\<close>: the cast reads the 64 bits as two's
  complement.
\<close>

definition ttl_millis :: "u64 \<Rightarrow> int" where
  "ttl_millis v = sint v"

text \<open>\<open>utils::to_value\<close>: serialise, then parse as a JSON value.\<close>

definition to_value :: "runtime \<Rightarrow> 'a ser \<Rightarrow> 'a \<Rightarrow> json res" where
  "to_value R ser x =
     (case ser x of
        Inl e \<Rightarrow> Err (SimdJson e)
      | Inr bytes \<Rightarrow> (case de_value R bytes of Inl e \<Rightarrow> Err (SimdJson e) | Inr v \<Rightarrow> Ok v))"

end
