(* ===== verification/RedisTasks.thy ===== *)
theory RedisTasks
  imports Prelude Models "HOL-Library.FSet" "HOL-Library.Finite_Map"
    "HOL-Library.Char_ord" "HOL-Library.List_Lexorder"
begin

text \<open>
  Redis is a service outside the repository. The asynchronous code is therefore modelled by
  the commands it awaits: a task is either done or one command with the rest of the task as a
  function of the reply, so that the order of the commands and every error branch of the code
  are kept. A \<open>server\<close> (any state, any replies) is a parameter of \<open>run\<close>; what the code
  relies on is the predicate \<open>redis_contract\<close>: the documented effect of each command on the
  keyspace. It leaves open whether a command whose reply is an error has been executed. With
  \<open>up\<close> the server also answers: then only a command on a key of the wrong type fails.

  The second half is a calculus: \<open>achieves\<close> is the weakest precondition for a task to end in
  \<open>Ok\<close> with a postcondition on the keyspace (total when \<open>up\<close>, else for the runs that
  end in \<open>Ok\<close>), sound for every server that keeps the contract (\<open>run_achieves\<close>).
\<close>

section \<open>Tasks\<close>

datatype redis_write =
    MSET "(string \<times> string) list"
  | SADD string "string list"
  | SREM string "string list"
  | DEL "string list"
  | HSET string "(string \<times> string) list"
  | HDEL string "string list"

text \<open>A reply is a value or the text of a \<open>RedisError\<close>; \<open>Now\<close> reads the clock.\<close>

datatype 'a task =
    Done "'a res"
  | ReadString string "string + string option \<Rightarrow> 'a task"
  | ReadStrings "string list" "string + string option list \<Rightarrow> 'a task"
  | ReadMembers string "string + string list \<Rightarrow> 'a task"
  | ReadCard string "string + u64 \<Rightarrow> 'a task"
  | ReadHash string "string + (string \<times> string) list \<Rightarrow> 'a task"
  | Write redis_write "string + unit \<Rightarrow> 'a task"
  | Now "datetime \<Rightarrow> 'a task"

text \<open>
  \<open>then_result\<close> goes on with whatever \<open>Result\<close> the first task ends in; \<open>and_then\<close> is
  the operator \<open>?\<close>: an error ends the task. A panic ends it in both.
\<close>

primrec then_result :: "'a task \<Rightarrow> (api_error + 'a \<Rightarrow> 'b task) \<Rightarrow> 'b task" where
  "then_result (Done r) f =
     (case r of Ok a \<Rightarrow> f (Inr a) | Err e \<Rightarrow> f (Inl e) | Panic m \<Rightarrow> Done (Panic m))"
| "then_result (ReadString k c) f = ReadString k (\<lambda>r. then_result (c r) f)"
| "then_result (ReadStrings ks c) f = ReadStrings ks (\<lambda>r. then_result (c r) f)"
| "then_result (ReadMembers k c) f = ReadMembers k (\<lambda>r. then_result (c r) f)"
| "then_result (ReadCard k c) f = ReadCard k (\<lambda>r. then_result (c r) f)"
| "then_result (ReadHash k c) f = ReadHash k (\<lambda>r. then_result (c r) f)"
| "then_result (Write w c) f = Write w (\<lambda>r. then_result (c r) f)"
| "then_result (Now c) f = Now (\<lambda>t. then_result (c t) f)"

definition and_then :: "'a task \<Rightarrow> ('a \<Rightarrow> 'b task) \<Rightarrow> 'b task" where
  "and_then t f =
     then_result t (\<lambda>r. case r of Inl e \<Rightarrow> Done (Err e) | Inr a \<Rightarrow> f a)"

abbreviation ok :: "'a \<Rightarrow> 'a task" where
  "ok a \<equiv> Done (Ok a)"

definition when_task :: "bool \<Rightarrow> unit task \<Rightarrow> unit task" where
  "when_task b t = (if b then t else ok ())"

text \<open>The awaited commands, with the conversion of the error to \<open>ApiError\<close> that \<open>?\<close> adds.\<close>

fun from_redis :: "string + 'a \<Rightarrow> 'a task" where
  "from_redis (Inl e) = Done (Err (Redis e))"
| "from_redis (Inr a) = ok a"

definition conn_get :: "string \<Rightarrow> string option task" where
  "conn_get k = ReadString k from_redis"

definition conn_mget :: "string list \<Rightarrow> string option list task" where
  "conn_mget ks = ReadStrings ks from_redis"

definition conn_smembers :: "string \<Rightarrow> string list task" where
  "conn_smembers k = ReadMembers k from_redis"

definition conn_scard :: "string \<Rightarrow> u64 task" where
  "conn_scard k = ReadCard k from_redis"

definition conn_hgetall :: "string \<Rightarrow> (string \<times> string) list task" where
  "conn_hgetall k = ReadHash k from_redis"

definition conn_write :: "redis_write \<Rightarrow> unit task" where
  "conn_write w = Write w from_redis"

definition now :: "datetime task" where
  "now = Now (\<lambda>t. ok t)"

lemma and_then_add [simp]:
  "and_then (Done (add_datetime R t ms)) f =
     (case dt_add R t ms of None \<Rightarrow> Done (Panic ''resulting value is out of range'') | Some dt \<Rightarrow> f dt)"
  by (simp add: and_then_def add_datetime_def split: option.split)

lemma and_then_sub [simp]: "and_then (Done (sub_duration R t ms)) f = and_then (Done (add_datetime R t (- ms))) f"
  by (simp add: sub_duration_def)

section \<open>Running a task against a server\<close>

record 'w server =
  sv_get :: "string \<Rightarrow> 'w \<Rightarrow> (string + string option) \<times> 'w"
  sv_mget :: "string list \<Rightarrow> 'w \<Rightarrow> (string + string option list) \<times> 'w"
  sv_smembers :: "string \<Rightarrow> 'w \<Rightarrow> (string + string list) \<times> 'w"
  sv_scard :: "string \<Rightarrow> 'w \<Rightarrow> (string + u64) \<times> 'w"
  sv_hgetall :: "string \<Rightarrow> 'w \<Rightarrow> (string + (string \<times> string) list) \<times> 'w"
  sv_write :: "redis_write \<Rightarrow> 'w \<Rightarrow> (string + unit) \<times> 'w"
  sv_now :: "'w \<Rightarrow> datetime \<times> 'w"

primrec run :: "'w server \<Rightarrow> 'a task \<Rightarrow> 'w \<Rightarrow> 'a res \<times> 'w" where
  "run S (Done r) = (\<lambda>w. (r, w))"
| "run S (ReadString k c) = (\<lambda>w. case sv_get S k w of (r, w') \<Rightarrow> run S (c r) w')"
| "run S (ReadStrings ks c) = (\<lambda>w. case sv_mget S ks w of (r, w') \<Rightarrow> run S (c r) w')"
| "run S (ReadMembers k c) = (\<lambda>w. case sv_smembers S k w of (r, w') \<Rightarrow> run S (c r) w')"
| "run S (ReadCard k c) = (\<lambda>w. case sv_scard S k w of (r, w') \<Rightarrow> run S (c r) w')"
| "run S (ReadHash k c) = (\<lambda>w. case sv_hgetall S k w of (r, w') \<Rightarrow> run S (c r) w')"
| "run S (Write x c) = (\<lambda>w. case sv_write S x w of (r, w') \<Rightarrow> run S (c r) w')"
| "run S (Now c) = (\<lambda>w. case sv_now S w of (t, w') \<Rightarrow> run S (c t) w')"

lemma run_then_result:
  "run S (then_result t f) w =
     (case run S t w of
        (Ok a, w') \<Rightarrow> run S (f (Inr a)) w'
      | (Err e, w') \<Rightarrow> run S (f (Inl e)) w'
      | (Panic m, w') \<Rightarrow> (Panic m, w'))"
  by (induction t arbitrary: w) (auto split: prod.splits res.splits)

lemma run_and_then:
  "run S (and_then t f) w =
     (case run S t w of
        (Ok a, w') \<Rightarrow> run S (f a) w'
      | (Err e, w') \<Rightarrow> (Err e, w')
      | (Panic m, w') \<Rightarrow> (Panic m, w'))"
  by (simp add: and_then_def run_then_result split: prod.splits res.splits)

section \<open>The keyspace and the documented commands\<close>

datatype rval = is_RStr: RStr string | is_RSet: RSet "string fset" | is_RHash: RHash "(string, string) fmap"

type_synonym keyspace = "string \<Rightarrow> rval option"

text \<open>A missing key reads as the empty set or hash; an emptied set or hash is removed.\<close>

definition set_at :: "keyspace \<Rightarrow> string \<Rightarrow> string fset" where
  "set_at ks k = (case ks k of Some (RSet s) \<Rightarrow> s | _ \<Rightarrow> {||})"

definition hash_at :: "keyspace \<Rightarrow> string \<Rightarrow> (string, string) fmap" where
  "hash_at ks k = (case ks k of Some (RHash h) \<Rightarrow> h | _ \<Rightarrow> fmempty)"

definition string_at :: "keyspace \<Rightarrow> string \<Rightarrow> string option" where
  "string_at ks k = (case ks k of Some (RStr s) \<Rightarrow> Some s | _ \<Rightarrow> None)"

definition stringy :: "keyspace \<Rightarrow> string \<Rightarrow> bool" where
  "stringy ks k = (case ks k of None \<Rightarrow> True | Some (RStr _) \<Rightarrow> True | _ \<Rightarrow> False)"

definition setty :: "keyspace \<Rightarrow> string \<Rightarrow> bool" where
  "setty ks k = (case ks k of None \<Rightarrow> True | Some (RSet _) \<Rightarrow> True | _ \<Rightarrow> False)"

definition hashy :: "keyspace \<Rightarrow> string \<Rightarrow> bool" where
  "hashy ks k = (case ks k of None \<Rightarrow> True | Some (RHash _) \<Rightarrow> True | _ \<Rightarrow> False)"

definition put_set :: "string \<Rightarrow> string fset \<Rightarrow> keyspace \<Rightarrow> keyspace" where
  "put_set k s ks = ks(k := (if s = {||} then None else Some (RSet s)))"

definition put_hash :: "string \<Rightarrow> (string, string) fmap \<Rightarrow> keyspace \<Rightarrow> keyspace" where
  "put_hash k h ks = ks(k := (if h = fmempty then None else Some (RHash h)))"

fun write_valid :: "keyspace \<Rightarrow> redis_write \<Rightarrow> bool" where
  "write_valid ks (MSET kvs) \<longleftrightarrow> kvs \<noteq> []"
| "write_valid ks (SADD k ms) \<longleftrightarrow> setty ks k \<and> ms \<noteq> []"
| "write_valid ks (SREM k ms) \<longleftrightarrow> setty ks k \<and> ms \<noteq> []"
| "write_valid ks (DEL keys) \<longleftrightarrow> keys \<noteq> []"
| "write_valid ks (HSET k fvs) \<longleftrightarrow> hashy ks k \<and> fvs \<noteq> []"
| "write_valid ks (HDEL k fs) \<longleftrightarrow> hashy ks k \<and> fs \<noteq> []"

fun apply_write :: "redis_write \<Rightarrow> keyspace \<Rightarrow> keyspace" where
  "apply_write (MSET kvs) ks = fold (\<lambda>(k, v) ks. ks(k \<mapsto> RStr v)) kvs ks"
| "apply_write (SADD k ms) ks = put_set k (set_at ks k |\<union>| fset_of_list ms) ks"
| "apply_write (SREM k ms) ks = put_set k (set_at ks k |-| fset_of_list ms) ks"
| "apply_write (DEL keys) ks = (\<lambda>k. if k \<in> set keys then None else ks k)"
| "apply_write (HSET k fvs) ks = put_hash k (fold (\<lambda>(f, v) h. fmupd f v h) fvs (hash_at ks k)) ks"
| "apply_write (HDEL k fs) ks = put_hash k (fmdrop_set (set fs) (hash_at ks k)) ks"

text \<open>Which replies the contract allows; \<open>up\<close> excludes failures other than a wrong type.\<close>

definition fails_ok :: "bool \<Rightarrow> bool \<Rightarrow> bool" where
  "fails_ok up valid \<longleftrightarrow> \<not> (up \<and> valid)"

definition get_reply :: "bool \<Rightarrow> keyspace \<Rightarrow> string \<Rightarrow> string + string option \<Rightarrow> bool" where
  "get_reply up ks k r \<longleftrightarrow>
     (case r of Inl _ \<Rightarrow> fails_ok up (stringy ks k)
      | Inr v \<Rightarrow> stringy ks k \<and> v = string_at ks k)"

text \<open>
  \<open>flatten_options\<close> is \<open>into_iter().flatten()\<close>. The client sends \<open>GET\<close> for a slice of
  one key and \<open>MGET\<close> for more; what the contract says of the reply holds of both.
\<close>

fun flatten_options :: "'a option list \<Rightarrow> 'a list" where
  "flatten_options [] = []"
| "flatten_options (None # xs) = flatten_options xs"
| "flatten_options (Some x # xs) = x # flatten_options xs"

lemma flatten_options_set: "x \<in> set (flatten_options xs) \<longleftrightarrow> Some x \<in> set xs"
  by (induction xs rule: flatten_options.induct) auto

definition mget_reply :: "bool \<Rightarrow> keyspace \<Rightarrow> string list \<Rightarrow> string + string option list \<Rightarrow> bool" where
  "mget_reply up ks keys r \<longleftrightarrow>
     (case r of Inl _ \<Rightarrow> fails_ok up (keys \<noteq> [] \<and> (\<forall>k \<in> set keys. stringy ks k))
      | Inr vs \<Rightarrow> flatten_options vs = flatten_options (map (string_at ks) keys))"

definition smembers_reply :: "bool \<Rightarrow> keyspace \<Rightarrow> string \<Rightarrow> string + string list \<Rightarrow> bool" where
  "smembers_reply up ks k r \<longleftrightarrow>
     (case r of Inl _ \<Rightarrow> fails_ok up (setty ks k)
      | Inr ms \<Rightarrow> setty ks k \<and> fset_of_list ms = set_at ks k)"

definition scard_reply :: "bool \<Rightarrow> keyspace \<Rightarrow> string \<Rightarrow> string + u64 \<Rightarrow> bool" where
  "scard_reply up ks k r \<longleftrightarrow>
     (case r of Inl _ \<Rightarrow> fails_ok up (setty ks k)
      | Inr n \<Rightarrow> setty ks k \<and> n = of_nat (fcard (set_at ks k)))"

definition hgetall_reply ::
  "bool \<Rightarrow> keyspace \<Rightarrow> string \<Rightarrow> string + (string \<times> string) list \<Rightarrow> bool" where
  "hgetall_reply up ks k r \<longleftrightarrow>
     (case r of Inl _ \<Rightarrow> fails_ok up (hashy ks k)
      | Inr fvs \<Rightarrow> hashy ks k \<and> distinct (map fst fvs) \<and> fmap_of_list fvs = hash_at ks k)"

definition write_reply :: "bool \<Rightarrow> keyspace \<Rightarrow> redis_write \<Rightarrow> string + unit \<Rightarrow> keyspace \<Rightarrow> bool" where
  "write_reply up ks x r ks' \<longleftrightarrow>
     (case r of
        Inl _ \<Rightarrow> fails_ok up (write_valid ks x) \<and>
                 (ks' = ks \<or> write_valid ks x \<and> ks' = apply_write x ks)
      | Inr _ \<Rightarrow> write_valid ks x \<and> ks' = apply_write x ks)"

text \<open>The system clock is taken to be between the years 1970 and 9000 (nanoseconds).\<close>

definition sane_time :: "datetime \<Rightarrow> bool" where
  "sane_time t \<longleftrightarrow> 0 \<le> t \<and> t < 221845392000000000000"

text \<open>\<open>T\<close>: the times the clock may show.\<close>

definition contract_in ::
  "(datetime \<Rightarrow> bool) \<Rightarrow> bool \<Rightarrow> 'w server \<Rightarrow> ('w \<Rightarrow> keyspace) \<Rightarrow> bool" where
  "contract_in T up S view \<longleftrightarrow>
     (\<forall>w k. view (snd (sv_get S k w)) = view w \<and> get_reply up (view w) k (fst (sv_get S k w))) \<and>
     (\<forall>w ks. view (snd (sv_mget S ks w)) = view w \<and>
             mget_reply up (view w) ks (fst (sv_mget S ks w))) \<and>
     (\<forall>w k. view (snd (sv_smembers S k w)) = view w \<and>
            smembers_reply up (view w) k (fst (sv_smembers S k w))) \<and>
     (\<forall>w k. view (snd (sv_scard S k w)) = view w \<and>
            scard_reply up (view w) k (fst (sv_scard S k w))) \<and>
     (\<forall>w k. view (snd (sv_hgetall S k w)) = view w \<and>
            hgetall_reply up (view w) k (fst (sv_hgetall S k w))) \<and>
     (\<forall>w x. write_reply up (view w) x (fst (sv_write S x w)) (view (snd (sv_write S x w)))) \<and>
     (\<forall>w. view (snd (sv_now S w)) = view w \<and> T (fst (sv_now S w)))"

abbreviation redis_contract :: "bool \<Rightarrow> 'w server \<Rightarrow> ('w \<Rightarrow> keyspace) \<Rightarrow> bool" where
  "redis_contract \<equiv> contract_in sane_time"

section \<open>Weakest preconditions\<close>

primrec wp_in :: "(datetime \<Rightarrow> bool) \<Rightarrow> bool \<Rightarrow> 'a task \<Rightarrow> ('a res \<Rightarrow> keyspace \<Rightarrow> bool) \<Rightarrow> keyspace \<Rightarrow> bool" where
  "wp_in T up (Done r) Q = (\<lambda>ks. Q r ks)"
| "wp_in T up (ReadString k c) Q = (\<lambda>ks. \<forall>r. get_reply up ks k r \<longrightarrow> wp_in T up (c r) Q ks)"
| "wp_in T up (ReadStrings keys c) Q = (\<lambda>ks. \<forall>r. mget_reply up ks keys r \<longrightarrow> wp_in T up (c r) Q ks)"
| "wp_in T up (ReadMembers k c) Q = (\<lambda>ks. \<forall>r. smembers_reply up ks k r \<longrightarrow> wp_in T up (c r) Q ks)"
| "wp_in T up (ReadCard k c) Q = (\<lambda>ks. \<forall>r. scard_reply up ks k r \<longrightarrow> wp_in T up (c r) Q ks)"
| "wp_in T up (ReadHash k c) Q = (\<lambda>ks. \<forall>r. hgetall_reply up ks k r \<longrightarrow> wp_in T up (c r) Q ks)"
| "wp_in T up (Write x c) Q = (\<lambda>ks. \<forall>r ks'. write_reply up ks x r ks' \<longrightarrow> wp_in T up (c r) Q ks')"
| "wp_in T up (Now c) Q = (\<lambda>ks. \<forall>t. T t \<longrightarrow> wp_in T up (c t) Q ks)"

lemma run_wp:
  assumes "contract_in T up S view" "run S t w = (r, w')" "wp_in T up t Q (view w)"
  shows "Q r (view w')"
  using assms(2,3)
proof (induction t arbitrary: w)
  case (ReadString k c)
  with assms(1) show ?case
    by (auto simp: contract_in_def split: prod.splits) (metis fst_conv snd_conv rangeI)
next
  case (ReadStrings ks c)
  with assms(1) show ?case
    by (auto simp: contract_in_def split: prod.splits) (metis fst_conv snd_conv rangeI)
next
  case (ReadMembers k c)
  with assms(1) show ?case
    by (auto simp: contract_in_def split: prod.splits) (metis fst_conv snd_conv rangeI)
next
  case (ReadCard k c)
  with assms(1) show ?case
    by (auto simp: contract_in_def split: prod.splits) (metis fst_conv snd_conv rangeI)
next
  case (ReadHash k c)
  with assms(1) show ?case
    by (auto simp: contract_in_def split: prod.splits) (metis fst_conv snd_conv rangeI)
next
  case (Write x c)
  with assms(1) show ?case
    by (auto simp: contract_in_def split: prod.splits) (metis fst_conv snd_conv rangeI)
next
  case (Now c)
  with assms(1) show ?case
    by (auto simp: contract_in_def split: prod.splits) (metis fst_conv snd_conv rangeI)
qed simp

lemma wp_mono: "wp_in T up t Q ks \<Longrightarrow> (\<And>r ks. Q r ks \<Longrightarrow> Q' r ks) \<Longrightarrow> wp_in T up t Q' ks"
  by (induction t arbitrary: ks) auto

lemma wp_cong: "(\<And>r ks. Q r ks = Q' r ks) \<Longrightarrow> wp_in T up t Q ks = wp_in T up t Q' ks"
  by (metis wp_mono)

lemma wp_then_result:
  "wp_in T up (then_result t f) Q =
     wp_in T up t (\<lambda>r. case r of Ok a \<Rightarrow> wp_in T up (f (Inr a)) Q | Err e \<Rightarrow> wp_in T up (f (Inl e)) Q
                  | Panic m \<Rightarrow> Q (Panic m))"
  by (induction t) (auto split: res.splits simp: fun_eq_iff)

lemma wp_and_then:
  "wp_in T up (and_then t f) Q =
     wp_in T up t (\<lambda>r. case r of Ok a \<Rightarrow> wp_in T up (f a) Q | Err e \<Rightarrow> Q (Err e) | Panic m \<Rightarrow> Q (Panic m))"
  by (simp add: and_then_def wp_then_result cong: res.case_cong)

text \<open>\<open>achieves\<close>: the task ends in \<open>Ok a\<close> with \<open>P a\<close>; other ends are left to the server being down.\<close>

definition achieves_in :: "(datetime \<Rightarrow> bool) \<Rightarrow> bool \<Rightarrow> 'a task \<Rightarrow> ('a \<Rightarrow> keyspace \<Rightarrow> bool) \<Rightarrow> keyspace \<Rightarrow> bool" where
  "achieves_in T up t P ks =
     wp_in T up t (\<lambda>r ks'. case r of Ok a \<Rightarrow> P a ks' | Err _ \<Rightarrow> \<not> up | Panic _ \<Rightarrow> \<not> up) ks"

abbreviation wp :: "bool \<Rightarrow> 'a task \<Rightarrow> ('a res \<Rightarrow> keyspace \<Rightarrow> bool) \<Rightarrow> keyspace \<Rightarrow> bool" where
  "wp \<equiv> wp_in sane_time"

abbreviation achieves :: "bool \<Rightarrow> 'a task \<Rightarrow> ('a \<Rightarrow> keyspace \<Rightarrow> bool) \<Rightarrow> keyspace \<Rightarrow> bool" where
  "achieves \<equiv> achieves_in sane_time"

lemma achieves_narrow:
  assumes "achieves_in T up t P ks" "\<And>t. T' t \<Longrightarrow> T t"
  shows "achieves_in T' up t P ks"
proof -
  have "wp_in T up t Q ks \<Longrightarrow> wp_in T' up t Q ks" for Q
    using assms(2) by (induction t arbitrary: ks) auto
  with assms(1) show ?thesis
    by (simp add: achieves_in_def)
qed

lemma achieves_Ok [wp_simps]:
  "achieves_in T up (Done (Ok a)) P = P a"
  by (rule ext) (simp add: achieves_in_def)

lemma achieves_Err [wp_simps]:
  "achieves_in T up (Done (Err e)) P =
     (\<lambda>ks. \<not> up)"
  by (rule ext) (simp add: achieves_in_def)

lemma achieves_Panic [wp_simps]:
  "achieves_in T up (Done (Panic m)) P =
     (\<lambda>ks. \<not> up)"
  by (rule ext) (simp add: achieves_in_def)

lemma achieves_and_then [wp_simps]:
  "achieves_in T up (and_then t f) P = achieves_in T up t (\<lambda>a. achieves_in T up (f a) P)"
  unfolding achieves_in_def wp_and_then by (rule ext, rule wp_cong) (simp split: res.split)

lemma achieves_then_result [wp_simps]:
  "achieves_in T up (then_result t f) P =
     wp_in T up t (\<lambda>r ks'. case r of Ok a \<Rightarrow> achieves_in T up (f (Inr a)) P ks'
                     | Err e \<Rightarrow> achieves_in T up (f (Inl e)) P ks' | Panic m \<Rightarrow> \<not> up)"
  unfolding achieves_in_def wp_then_result by (rule ext, rule wp_cong) (simp split: res.split)

lemma achieves_mono:
  "achieves_in T up t P ks \<Longrightarrow> (\<And>a ks. P a ks \<Longrightarrow> P' a ks) \<Longrightarrow> achieves_in T up t P' ks"
  unfolding achieves_in_def by (erule wp_mono) (auto split: res.splits)

lemma achieves_conn_get [wp_simps]:
  "achieves_in T up (conn_get k) P =
     (\<lambda>ks. (if stringy ks k then P (string_at ks k) ks else \<not> up))"
  by (rule ext) (auto simp: achieves_in_def conn_get_def get_reply_def fails_ok_def split: sum.splits)

lemma achieves_conn_mget [wp_simps]:
  "achieves_in T up (conn_mget keys) P =
     (\<lambda>ks. (\<forall>vs. flatten_options vs = flatten_options (map (string_at ks) keys) \<longrightarrow> P vs ks) \<and>
     (up \<longrightarrow> keys \<noteq> [] \<and> (\<forall>k \<in> set keys. stringy ks k)))"
  by (rule ext) (auto simp: achieves_in_def conn_mget_def mget_reply_def fails_ok_def split: sum.splits)

lemma achieves_conn_smembers [wp_simps]:
  "achieves_in T up (conn_smembers k) P =
     (\<lambda>ks. (if setty ks k then \<forall>ms. fset_of_list ms = set_at ks k \<longrightarrow> P ms ks else \<not> up))"
  by (rule ext) (auto simp: achieves_in_def conn_smembers_def smembers_reply_def fails_ok_def split: sum.splits)

lemma achieves_conn_scard [wp_simps]:
  "achieves_in T up (conn_scard k) P =
     (\<lambda>ks. (if setty ks k then P (of_nat (fcard (set_at ks k))) ks else \<not> up))"
  by (rule ext) (auto simp: achieves_in_def conn_scard_def scard_reply_def fails_ok_def split: sum.splits)

lemma achieves_conn_hgetall [wp_simps]:
  "achieves_in T up (conn_hgetall k) P =
     (\<lambda>ks. (if hashy ks k
      then \<forall>fvs. distinct (map fst fvs) \<and> fmap_of_list fvs = hash_at ks k \<longrightarrow> P fvs ks
      else \<not> up))"
  by (rule ext) (auto simp: achieves_in_def conn_hgetall_def hgetall_reply_def fails_ok_def split: sum.splits)

lemma achieves_conn_write [wp_simps]:
  "achieves_in T up (conn_write x) P =
     (\<lambda>ks. (if write_valid ks x then P () (apply_write x ks) else \<not> up))"
  by (rule ext) (auto simp: achieves_in_def conn_write_def write_reply_def fails_ok_def split: sum.splits)

lemma achieves_now [wp_simps]:
  "achieves_in T up now P =
     (\<lambda>ks. (\<forall>t. T t \<longrightarrow> P t ks))"
  by (rule ext) (simp add: achieves_in_def now_def)

lemma achieves_when [wp_simps]:
  "achieves_in T up (when_task b t) P =
     (\<lambda>ks. (if b then achieves_in T up t P ks else P () ks))"
  by (rule ext) (simp add: when_task_def achieves_Ok)

lemma run_achieves:
  assumes "contract_in T up S view" "achieves_in T up t P (view w)"
  shows "case run S t w of (Ok a, w') \<Rightarrow> P a (view w') | (Err e, w') \<Rightarrow> \<not> up
         | (Panic m, w') \<Rightarrow> \<not> up"
  using run_wp [OF assms(1) _ assms(2) [unfolded achieves_in_def]]
  by (auto split: prod.splits res.splits)

text \<open>The two readings: a run that ends in \<open>Ok\<close>, and a run on a server that is up.\<close>

lemma run_ok:
  assumes "contract_in T False S view" "run S t w = (Ok a, w')" "achieves_in T False t P (view w)"
  shows "P a (view w')"
  using run_achieves [OF assms(1,3)] assms(2) by simp

lemma run_up:
  assumes "contract_in T True S view" "achieves_in T True t P (view w)"
  obtains a w' where "run S t w = (Ok a, w')" "P a (view w')"
  using run_achieves [OF assms] by (auto split: prod.splits res.splits)

lemma redis_contract_down: "contract_in T True S view \<Longrightarrow> contract_in T False S view"
  unfolding contract_in_def
  by (auto simp: get_reply_def mget_reply_def smembers_reply_def scard_reply_def
      hgetall_reply_def write_reply_def fails_ok_def split: sum.splits)

end
