(* ===== verification/Cache.thy ===== *)
theory Cache
  imports Keys RedisTasks
begin

text \<open>
  The operations of \<open>src/cache.rs\<close> on the Redis connection (\<open>get\<close> to
  \<open>del_hashmap\<close>), as tasks. \<open>set_all\<close> and \<open>del_all\<close> work in batches: one
  \<open>MSET\<close> or \<open>DEL\<close> for all keys, then one \<open>SADD\<close> or \<open>SREM\<close> for every index set,
  collected in a \<open>HashMap\<close>. Their specification is the item by item one (\<open>put_one\<close>,
  \<open>del_one\<close>): store or remove the object, and its key in each index of the key. The theorems
  \<open>achieves_set_all\<close> and \<open>achieves_del_all\<close> refine one to the other, for every iteration
  order of the map.
\<close>

section \<open>Reading\<close>

definition cache_get :: "'t de \<Rightarrow> string \<Rightarrow> 't option task" where
  "cache_get de key =
     and_then (conn_get key) (\<lambda>res.
       case res of
         None \<Rightarrow> ok None
       | Some value \<Rightarrow> (case de value of Inl e \<Rightarrow> Done (Err (SimdJson e)) | Inr x \<Rightarrow> ok (Some x)))"

fun decode_all :: "'t de \<Rightarrow> string option list \<Rightarrow> 't option list task" where
  "decode_all de [] = ok []"
| "decode_all de (None # rest) =
     and_then (decode_all de rest) (\<lambda>xs. ok (None # xs))"
| "decode_all de (Some value # rest) =
     (case de value of
        Inl e \<Rightarrow> Done (Err (SimdJson e))
      | Inr x \<Rightarrow> and_then (decode_all de rest) (\<lambda>xs. ok (Some x # xs)))"

definition cache_get_all :: "'t de \<Rightarrow> string list \<Rightarrow> 't option list task" where
  "cache_get_all de keys =
     (if keys = [] then ok [] else and_then (conn_mget keys) (decode_all de))"

definition get_members :: "string \<Rightarrow> string list task" where
  "get_members key = and_then (conn_smembers key) (\<lambda>res. ok res)"

definition get_members_len :: "string \<Rightarrow> u64 task" where
  "get_members_len key = and_then (conn_scard key) (\<lambda>res. ok res)"

definition get_hashmap :: "string \<Rightarrow> (string \<times> string) list task" where
  "get_hashmap key = and_then (conn_hgetall key) (\<lambda>res. ok res)"

section \<open>Storing\<close>

type_synonym members = "(string \<times> string list) list"

text \<open>
  \<open>new_key\<close>: a guild channel's key \<open>channel:guild:id\<close> is stored as \<open>channel:id\<close>.
\<close>

definition storage_key :: "string \<Rightarrow> string" where
  "storage_key key =
     (let parts = parts_of key in
      if length parts > 2 \<and> parts ! 0 = CHANNEL_KEY then parts ! 0 @ '':'' @ parts ! 2 else key)"

definition set_members :: "string list \<Rightarrow> string \<Rightarrow> members \<Rightarrow> members" where
  "set_members parts new_key members =
     (let members = (if length parts > 1
                     then push_entry (parts ! 0 @ KEYS_SUFFIX) new_key members else members)
      in if length parts > 2 \<and> parts ! 0 \<noteq> MESSAGE_KEY
         then push_entry (GUILD_KEY @ KEYS_SUFFIX @ '':'' @ parts ! 1) new_key members
         else if length parts > 2
         then push_entry (CHANNEL_KEY @ KEYS_SUFFIX @ '':'' @ parts ! 1) new_key members
         else members)"

text \<open>The closure of \<open>set_all\<close>, item by item until the first value that does not serialise.\<close>

fun set_items ::
  "'t ser \<Rightarrow> (string \<times> 't) list \<Rightarrow> members \<Rightarrow> api_error + (string \<times> string) list \<times> members" where
  "set_items ser [] members = Inr ([], members)"
| "set_items ser ((key, value) # rest) members =
     (let members = set_members (parts_of key) (storage_key key) members in
      case ser value of
        Inl e \<Rightarrow> Inl (SimdJson e)
      | Inr s \<Rightarrow>
          (case set_items ser rest members of
             Inl e \<Rightarrow> Inl e
           | Inr (keys, members') \<Rightarrow> Inr ((storage_key key, s) # keys, members')))"

fun sadd_each :: "members \<Rightarrow> unit task" where
  "sadd_each [] = ok ()"
| "sadd_each ((key, value) # rest) =
     and_then (conn_write (SADD key value)) (\<lambda>_. sadd_each rest)"

definition set_all :: "runtime \<Rightarrow> 't ser \<Rightarrow> (string \<times> 't) list \<Rightarrow> unit task" where
  "set_all R ser kvs =
     (case set_items ser kvs [] of
        Inl e \<Rightarrow> Done (Err e)
      | Inr (keys, members) \<Rightarrow>
          if keys = [] then ok ()
          else and_then (conn_write (MSET keys)) (\<lambda>_. sadd_each (hash_order R members)))"

definition cache_set :: "runtime \<Rightarrow> 't ser \<Rightarrow> string \<Rightarrow> 't \<Rightarrow> unit task" where
  "cache_set R ser key value = and_then (set_all R ser [(key, value)]) (\<lambda>_. ok ())"

section \<open>Expiry\<close>

fun expire_items :: "runtime \<Rightarrow> (string \<times> u64) list \<Rightarrow> (string \<times> string) list task" where
  "expire_items R [] = ok []"
| "expire_items R ((key, value) # rest) =
     and_then now (\<lambda>t.
       and_then (Done (add_datetime R t (ttl_millis value))) (\<lambda>timestamp.
         and_then (Done (ser_datetime R timestamp)) (\<lambda>s.
           and_then (expire_items R rest) (\<lambda>kvs. ok ((key, s) # kvs)))))"

definition expire_all :: "runtime \<Rightarrow> (string \<times> u64) list \<Rightarrow> unit task" where
  "expire_all R keys =
     and_then (expire_items R keys) (\<lambda>kvs.
       if kvs = [] then ok () else conn_write (HSET EXPIRY_KEYS kvs))"

definition expire :: "runtime \<Rightarrow> string \<Rightarrow> u64 \<Rightarrow> unit task" where
  "expire R key expiry = and_then (expire_all R [(key, expiry)]) (\<lambda>_. ok ())"

section \<open>Deleting\<close>

definition del_members :: "string list \<Rightarrow> string \<Rightarrow> members \<Rightarrow> members" where
  "del_members parts new_key members =
     (let members = (if length parts > 1
                     then push_entry (parts ! 0 @ KEYS_SUFFIX) new_key members else members)
      in if length parts > 2
         then (if parts ! 0 \<noteq> MESSAGE_KEY
               then push_entry (GUILD_KEY @ KEYS_SUFFIX @ '':'' @ parts ! 1) new_key members
               else push_entry (CHANNEL_KEY @ KEYS_SUFFIX @ '':'' @ parts ! 1) new_key members)
         else members)"

fun del_items :: "string list \<Rightarrow> members \<Rightarrow> string list \<times> members" where
  "del_items [] members = ([], members)"
| "del_items (key # rest) members =
     (case del_items rest (del_members (parts_of key) (storage_key key) members) of
        (keys, members') \<Rightarrow> (storage_key key # keys, members'))"

fun srem_each :: "members \<Rightarrow> unit task" where
  "srem_each [] = ok ()"
| "srem_each ((key, value) # rest) =
     and_then (conn_write (SREM key value)) (\<lambda>_. srem_each rest)"

definition del_all :: "runtime \<Rightarrow> string list \<Rightarrow> unit task" where
  "del_all R ks =
     (case del_items ks [] of
        (keys, members) \<Rightarrow>
          if keys = [] then ok ()
          else and_then (conn_write (DEL keys)) (\<lambda>_. srem_each (hash_order R members)))"

definition cache_del :: "runtime \<Rightarrow> string \<Rightarrow> unit task" where
  "cache_del R key = and_then (del_all R [key]) (\<lambda>_. ok ())"

definition del_hashmap :: "string \<Rightarrow> string list \<Rightarrow> unit task" where
  "del_hashmap key keys = (if keys = [] then ok () else conn_write (HDEL key keys))"

section \<open>Indexes\<close>

text \<open>The index sets that hold the storage key of an object.\<close>

definition kind_index :: "string \<Rightarrow> string" where
  "kind_index kd = kd @ KEYS_SUFFIX"

definition scope_index :: "string \<Rightarrow> string \<Rightarrow> string" where
  "scope_index kd scope = kd @ KEYS_SUFFIX @ '':'' @ scope"

definition index_keys :: "string \<Rightarrow> string list" where
  "index_keys key =
     (let parts = parts_of key in
      (if length parts > 1 then [kind_index (parts ! 0)] else []) @
      (if length parts > 2
       then [scope_index (if parts ! 0 = MESSAGE_KEY then CHANNEL_KEY else GUILD_KEY) (parts ! 1)]
       else []))"

text \<open>Names of index sets; no object is stored under one (\<open>object_key\<close>).\<close>

definition idx_key :: "string \<Rightarrow> bool" where
  "idx_key k \<longleftrightarrow> (\<exists>kd \<in> kinds. kind_of k = kd @ KEYS_SUFFIX)"

definition object_key :: "string \<Rightarrow> bool" where
  "object_key k \<longleftrightarrow> kind_of k \<in> kinds \<or> length (parts_of k) = 1 \<and> \<not> idx_key k \<and> k \<noteq> EXPIRY_KEYS"

lemma set_members_fold:
  "set_members (parts_of k) nk m = fold (\<lambda>i. push_entry i nk) (index_keys k) m"
  by (auto simp: set_members_def index_keys_def Let_def kind_index_def scope_index_def)

lemma del_members_fold:
  "del_members (parts_of k) nk m = fold (\<lambda>i. push_entry i nk) (index_keys k) m"
  by (auto simp: del_members_def index_keys_def Let_def kind_index_def scope_index_def)

lemma entry_of_fold_push:
  "distinct is \<Longrightarrow> entry_of (fold (\<lambda>i. push_entry i v) is m) j =
     entry_of m j @ (if j \<in> set is then [v] else [])"
  by (induction "is" arbitrary: m) auto

lemma keys_fold_push:
  "fst ` set (fold (\<lambda>i. push_entry i v) is m) = set is \<union> fst ` set m"
  by (induction "is" arbitrary: m) auto

lemma distinct_fold_push:
  "distinct (map fst (fold (\<lambda>i. push_entry i v) is m)) \<longleftrightarrow> distinct (map fst m)"
  by (induction "is" arbitrary: m) auto

lemma nonempty_fold_push:
  "[] \<notin> snd ` set m \<Longrightarrow> [] \<notin> snd ` set (fold (\<lambda>i. push_entry i v) is m)"
  by (induction "is" arbitrary: m) (auto dest: push_entry_nonempty)

lemma kind_of_no_colon [simp]: "CHR '':'' \<notin> set (kind_of k)"
  unfolding kind_of_def parts_of_def
  by (rule split_on_pieces) (rule nth_mem, simp)

lemma suffix_no_colon [simp]: "CHR '':'' \<notin> set KEYS_SUFFIX"
  by (simp add: KEYS_SUFFIX_def)

lemma kind_of_single: "CHR '':'' \<notin> set k \<Longrightarrow> kind_of k = k"
  by (simp add: kind_of_def parts_of_def split_on_no_sep)

lemma kind_of_app: "CHR '':'' \<notin> set k \<Longrightarrow> kind_of (k @ '':'' @ x) = k"
  by (simp add: kind_of_def parts_of_def split_on_app)

lemma parts_kind_index:
  "CHR '':'' \<notin> set kd \<Longrightarrow> parts_of (kind_index kd) = [kd @ KEYS_SUFFIX]"
  by (simp add: parts_of_def kind_index_def split_on_no_sep)

lemma parts_scope_index:
  "CHR '':'' \<notin> set kd \<Longrightarrow> parts_of (scope_index kd s) = (kd @ KEYS_SUFFIX) # parts_of s"
  using split_on_app [of "CHR '':''" "kd @ KEYS_SUFFIX" s]
  by (simp add: parts_of_def scope_index_def)

lemma scope_kind_no_colon [simp]: "CHR '':'' \<notin> set GUILD_KEY" "CHR '':'' \<notin> set CHANNEL_KEY"
  by (simp_all add: kind_defs)

lemma kind_index_not_scope [simp]:
  assumes "CHR '':'' \<notin> set kd"
  shows "kind_index kd \<noteq> scope_index kd' s" "scope_index kd' s \<noteq> kind_index kd"
proof -
  have "CHR '':'' \<notin> set (kind_index kd)" "CHR '':'' \<in> set (scope_index kd' s)"
    using assms by (simp_all add: kind_index_def scope_index_def)
  then show "kind_index kd \<noteq> scope_index kd' s" "scope_index kd' s \<noteq> kind_index kd"
    by metis+
qed

lemma kind_index_inj [simp]: "kind_index a = kind_index b \<longleftrightarrow> a = b"
  by (simp add: kind_index_def)

lemma scope_index_inj [simp]:
  assumes "CHR '':'' \<notin> set a" "CHR '':'' \<notin> set b"
  shows "scope_index a s = scope_index b t \<longleftrightarrow> a = b \<and> s = t"
proof
  assume "scope_index a s = scope_index b t"
  then have "parts_of (scope_index a s) = parts_of (scope_index b t)"
    by simp
  then show "a = b \<and> s = t"
    using assms by (auto simp: parts_scope_index dest: parts_of_inj)
qed simp

lemma distinct_index_keys [simp]: "distinct (index_keys k)"
  using kind_of_no_colon [of k] by (simp add: index_keys_def Let_def kind_of_def)

text \<open>Appending the suffix leaves the kinds: index sets and objects never share a name.\<close>

lemma suffix_not_kind: "kd \<in> kinds \<Longrightarrow> kd @ KEYS_SUFFIX \<notin> kinds"
  by (auto simp: kinds_def kind_defs KEYS_SUFFIX_def)

lemma idx_not_object: "idx_key k \<Longrightarrow> \<not> object_key k"
  by (auto simp: idx_key_def object_key_def suffix_not_kind)

lemma expiry_not_kind [simp]: "\<not> idx_key EXPIRY_KEYS" "kind_of EXPIRY_KEYS \<notin> kinds"
  by (auto simp: idx_key_def kinds_def kind_defs EXPIRY_KEYS_def KEYS_SUFFIX_def kind_of_def
      parts_of_def)

lemma object_not_expiry: "object_key k \<Longrightarrow> k \<noteq> EXPIRY_KEYS"
  by (auto simp: object_key_def)

lemma parts_storage_key:
  "parts_of (storage_key k) =
     (if length (parts_of k) > 2 \<and> parts_of k ! 0 = CHANNEL_KEY
      then [CHANNEL_KEY, parts_of k ! 2] else parts_of k)"
proof (cases "length (parts_of k) > 2 \<and> parts_of k ! 0 = CHANNEL_KEY")
  case True
  then have "CHR '':'' \<notin> set (parts_of k ! 2)"
    unfolding parts_of_def by (intro split_on_pieces [of _ _ k] nth_mem) simp
  moreover have "CHR '':'' \<notin> set CHANNEL_KEY"
    by (simp add: kind_defs)
  ultimately show ?thesis
    using True by (simp add: storage_key_def parts_of_def split_on_app split_on_no_sep)
qed (auto simp: storage_key_def Let_def)

lemma kind_storage_key [simp]: "kind_of (storage_key k) = kind_of k"
  by (simp add: kind_of_def parts_storage_key)

lemma storage_key_single: "length (parts_of k) = 1 \<Longrightarrow> storage_key k = k"
  by (simp add: storage_key_def Let_def)

lemma object_storage_key: "object_key k \<Longrightarrow> object_key (storage_key k)"
  by (auto simp: object_key_def storage_key_single)

lemma idx_kind_index [simp]: "kd \<in> kinds \<Longrightarrow> idx_key (kind_index kd)"
  unfolding idx_key_def by (intro bexI [of _ kd]) (simp_all add: kind_of_def parts_kind_index kind_no_colon)

lemma idx_scope_index [simp]: "kd \<in> kinds \<Longrightarrow> idx_key (scope_index kd s)"
  unfolding idx_key_def by (intro bexI [of _ kd]) (simp_all add: kind_of_def parts_scope_index kind_no_colon)

lemma index_keys_idx:
  assumes "object_key k" "i \<in> set (index_keys k)"
  shows "idx_key i"
proof -
  have "length (parts_of k) > 1"
    using assms(2) by (auto simp: index_keys_def Let_def split: if_splits)
  with assms(1) have "parts_of k ! 0 \<in> kinds"
    by (simp add: object_key_def kind_of_def)
  with assms(2) show ?thesis
    by (auto simp: index_keys_def Let_def split: if_splits)
qed

section \<open>The specification, item by item\<close>

definition put_one :: "string \<Rightarrow> string \<Rightarrow> keyspace \<Rightarrow> keyspace" where
  "put_one k s ks =
     (\<lambda>x. if x = storage_key k then Some (RStr s)
          else if x \<in> set (index_keys k) then Some (RSet (finsert (storage_key k) (set_at ks x)))
          else ks x)"

definition del_one :: "string \<Rightarrow> keyspace \<Rightarrow> keyspace" where
  "del_one k ks =
     (\<lambda>x. if x = storage_key k then None
          else if x \<in> set (index_keys k)
          then (let s = set_at ks x |-| {|storage_key k|} in
                if s = {||} then None else Some (RSet s))
          else ks x)"

fun put_all :: "(string \<times> string) list \<Rightarrow> keyspace \<Rightarrow> keyspace" where
  "put_all [] ks = ks"
| "put_all ((k, s) # kvs) ks = put_all kvs (put_one k s ks)"

fun remove_all :: "string list \<Rightarrow> keyspace \<Rightarrow> keyspace" where
  "remove_all [] ks = ks"
| "remove_all (k # keys) ks = remove_all keys (del_one k ks)"

text \<open>The type of every key is fixed by its name.\<close>

definition well_typed :: "keyspace \<Rightarrow> bool" where
  "well_typed ks \<longleftrightarrow>
     (\<forall>k v. ks k = Some v \<longrightarrow>
        (if idx_key k then is_RSet v else if k = EXPIRY_KEYS then is_RHash v else is_RStr v))"

lemma well_typedD: "well_typed ks \<Longrightarrow> ks k = Some v \<Longrightarrow>
    if idx_key k then is_RSet v else if k = EXPIRY_KEYS then is_RHash v else is_RStr v"
  by (simp add: well_typed_def)

lemma well_typed_setty:
  assumes "well_typed ks" "idx_key k"
  shows "setty ks k"
  using well_typedD [OF assms(1), of k] assms(2)
  by (auto simp: setty_def split: option.split rval.split)

lemma well_typed_stringy:
  assumes "well_typed ks" "object_key k"
  shows "stringy ks k"
  using well_typedD [OF assms(1), of k] assms(2) idx_not_object [of k] object_not_expiry [of k]
  by (auto simp: stringy_def split: option.split rval.split if_splits)

lemma well_typed_hashy:
  assumes "well_typed ks"
  shows "hashy ks EXPIRY_KEYS"
  using well_typedD [OF assms(1), of EXPIRY_KEYS]
  by (auto simp: hashy_def split: option.split rval.split)

section \<open>The batches refine the specification\<close>

text \<open>The members that a list of keys adds to the index \<open>x\<close>, in the code's order.\<close>

definition entries :: "string list \<Rightarrow> string \<Rightarrow> string list" where
  "entries keys x = map storage_key (filter (\<lambda>k. x \<in> set (index_keys k)) keys)"

lemma entries_simps [simp]:
  "entries [] x = []"
  "entries (k # keys) x = (if x \<in> set (index_keys k) then [storage_key k] else []) @ entries keys x"
  "entries (keys @ keys') x = entries keys x @ entries keys' x"
  by (simp_all add: entries_def)

definition serialised :: "'t ser \<Rightarrow> (string \<times> 't) list \<Rightarrow> (string \<times> string) list \<Rightarrow> bool" where
  "serialised ser = list_all2 (\<lambda>(k, v) (k', s). k' = k \<and> ser v = Inr s)"

lemma serialised_simps [simp]:
  "serialised ser [] skvs \<longleftrightarrow> skvs = []"
  "serialised ser ((k, v) # kvs) skvs \<longleftrightarrow>
     (\<exists>s skvs'. skvs = (k, s) # skvs' \<and> ser v = Inr s \<and> serialised ser kvs skvs')"
  by (auto simp: serialised_def list_all2_Cons1)

lemma serialised_keys: "serialised ser kvs skvs \<Longrightarrow> map fst skvs = map fst kvs"
  by (induction kvs arbitrary: skvs) auto

lemma serialised_mem:
  "serialised ser kvs skvs \<Longrightarrow> (k, s) \<in> set skvs \<Longrightarrow> \<exists>v. (k, v) \<in> set kvs \<and> ser v = Inr s"
  by (induction kvs arbitrary: skvs) (auto, blast+)

lemma set_items_cases:
  "case set_items ser kvs m of
     Inl e \<Rightarrow> \<exists>(k, v) \<in> set kvs. \<exists>s. ser v = Inl s \<and> e = SimdJson s
   | Inr (keys, m') \<Rightarrow>
       \<exists>skvs. serialised ser kvs skvs \<and> keys = map (\<lambda>(k, s). (storage_key k, s)) skvs \<and>
         m' = fold (\<lambda>k. fold (\<lambda>i. push_entry i (storage_key k)) (index_keys k)) (map fst kvs) m"
proof (induction kvs arbitrary: m)
  case (Cons p kvs)
  obtain k v where p: "p = (k, v)"
    by (cases p)
  show ?case
    using Cons [of "set_members (parts_of k) (storage_key k) m"]
    by (auto simp: p set_members_fold Let_def split: sum.splits)
qed simp

lemma del_items_eq:
  "del_items keys m =
     (map storage_key keys,
      fold (\<lambda>k. fold (\<lambda>i. push_entry i (storage_key k)) (index_keys k)) keys m)"
  by (induction keys arbitrary: m) (auto simp: del_members_fold split: prod.split)

text \<open>The \<open>HashMap\<close> of members that a list of keys collects.\<close>

definition collect_members :: "string list \<Rightarrow> members" where
  "collect_members keys =
     fold (\<lambda>k. fold (\<lambda>i. push_entry i (storage_key k)) (index_keys k)) keys []"

lemma collect_aux:
  fixes keys :: "string list" and m :: members
  defines "m' \<equiv> fold (\<lambda>k. fold (\<lambda>i. push_entry i (storage_key k)) (index_keys k)) keys m"
  shows "entry_of m' x = entry_of m x @ entries keys x"
    and "distinct (map fst m') \<longleftrightarrow> distinct (map fst m)"
    and "fst ` set m' = (\<Union>k \<in> set keys. set (index_keys k)) \<union> fst ` set m"
    and "[] \<notin> snd ` set m \<Longrightarrow> [] \<notin> snd ` set m'"
  unfolding m'_def
  by (induction keys arbitrary: m)
    (auto simp: entry_of_fold_push distinct_fold_push keys_fold_push nonempty_fold_push
      simp del: image_iff)

lemma entry_of_members: "entry_of (collect_members keys) x = entries keys x"
  and distinct_members: "distinct (map fst (collect_members keys))"
  and keys_members: "fst ` set (collect_members keys) = (\<Union>k \<in> set keys. set (index_keys k))"
  and members_nonempty: "[] \<notin> snd ` set (collect_members keys)"
  using collect_aux [where m = "[]" and keys = keys] by (simp_all add: collect_members_def)

text \<open>One \<open>SADD\<close> or \<open>SREM\<close> for each entry, in any order.\<close>

definition sadd_all :: "members \<Rightarrow> keyspace \<Rightarrow> keyspace" where
  "sadd_all m ks =
     (\<lambda>x. if entry_of m x = [] then ks x
          else Some (RSet (set_at ks x |\<union>| fset_of_list (entry_of m x))))"

definition srem_all :: "members \<Rightarrow> keyspace \<Rightarrow> keyspace" where
  "srem_all m ks =
     (\<lambda>x. if entry_of m x = [] then ks x
          else (let s = set_at ks x |-| fset_of_list (entry_of m x) in
                if s = {||} then None else Some (RSet s)))"

lemma fset_of_list_nonempty: "vs \<noteq> [] \<Longrightarrow> s |\<union>| fset_of_list vs \<noteq> {||}"
  by (cases vs) auto

lemma entry_of_Cons:
  "entry_of ((k, vs) # m) x = (if x = k then vs else entry_of m x)"
  by (simp add: entry_of_def)

lemma entry_of_absent: "k \<notin> fst ` set m \<Longrightarrow> entry_of m k = []"
  by (simp add: entry_of_def map_of_eq_None_iff [THEN iffD2])

lemma achieves_sadd_each:
  assumes "distinct (map fst m)" "\<forall>i \<in> fst ` set m. setty ks i" "[] \<notin> snd ` set m"
    and "P () (sadd_all m ks)"
  shows "achieves up (sadd_each m) P ks"
  using assms
proof (induction m arbitrary: ks)
  case Nil
  then show ?case
    by (simp add: sadd_all_def wp_simps)
next
  case (Cons p m)
  obtain k vs where p: "p = (k, vs)"
    by (cases p)
  let ?ks = "put_set k (set_at ks k |\<union>| fset_of_list vs) ks"
  have "\<forall>i \<in> fst ` set m. setty ?ks i"
    using Cons.prems p by (auto simp: setty_def put_set_def)
  moreover have "sadd_all m ?ks = sadd_all (p # m) ks"
    using Cons.prems p entry_of_absent [of k m] fset_of_list_nonempty [of vs]
    by (auto simp: sadd_all_def put_set_def entry_of_Cons set_at_def fun_eq_iff image_iff)
  ultimately have "achieves up (sadd_each m) P ?ks"
    using Cons.prems p by (intro Cons.IH) auto
  with Cons.prems show ?case
    by (auto simp: p wp_simps)
qed

lemma achieves_srem_each:
  assumes "distinct (map fst m)" "\<forall>i \<in> fst ` set m. setty ks i" "[] \<notin> snd ` set m"
    and "P () (srem_all m ks)"
  shows "achieves up (srem_each m) P ks"
  using assms
proof (induction m arbitrary: ks)
  case Nil
  then show ?case
    by (simp add: srem_all_def wp_simps)
next
  case (Cons p m)
  obtain k vs where p: "p = (k, vs)"
    by (cases p)
  let ?ks = "put_set k (set_at ks k |-| fset_of_list vs) ks"
  have "\<forall>i \<in> fst ` set m. setty ?ks i"
    using Cons.prems p by (auto simp: setty_def put_set_def)
  moreover have "srem_all m ?ks = srem_all (p # m) ks"
    using Cons.prems p entry_of_absent [of k m]
    by (auto simp: srem_all_def put_set_def entry_of_Cons set_at_def fun_eq_iff image_iff Let_def)
  ultimately have "achieves up (srem_each m) P ?ks"
    using Cons.prems p by (intro Cons.IH) auto
  with Cons.prems show ?case
    by (auto simp: p wp_simps)
qed

lemma put_one_at:
  "put_one k s ks x =
     (if x = storage_key k then Some (RStr s)
      else if x \<in> set (index_keys k) then Some (RSet (finsert (storage_key k) (set_at ks x)))
      else ks x)"
  by (simp add: put_one_def)

lemma del_one_at:
  "del_one k ks x =
     (if x = storage_key k then None
      else if x \<in> set (index_keys k)
      then (let s = set_at ks x |-| {|storage_key k|} in
            if s = {||} then None else Some (RSet s))
      else ks x)"
  by (simp add: del_one_def)

lemma set_at_val: "ks x = (if s = {||} then None else Some (RSet s)) \<Longrightarrow> set_at ks x = s"
  by (simp add: set_at_def split: if_splits)

lemma mset_lookup:
  "apply_write (MSET kvs) ks x =
     (case map_of (rev kvs) x of Some s \<Rightarrow> Some (RStr s) | None \<Rightarrow> ks x)"
  by (induction kvs arbitrary: ks) (auto simp: map_add_def split: option.split)

lemma entries_idx: "\<forall>k \<in> set keys. object_key k \<Longrightarrow> entries keys x \<noteq> [] \<Longrightarrow> idx_key x"
  by (auto simp: entries_def filter_empty_conv dest: index_keys_idx)

lemma entries_storage:
  "\<forall>k \<in> set keys. object_key k \<Longrightarrow> object_key k' \<Longrightarrow> entries keys (storage_key k') = []"
  using entries_idx [of keys "storage_key k'"] idx_not_object object_storage_key by blast

lemma index_not_storage [simp]:
  "object_key k \<Longrightarrow> object_key k' \<Longrightarrow> storage_key k \<notin> set (index_keys k')"
  using index_keys_idx idx_not_object object_storage_key by blast

abbreviation storage_items :: "(string \<times> string) list \<Rightarrow> (string \<times> string) list" where
  "storage_items kvs \<equiv> map (\<lambda>(k, s). (storage_key k, s)) kvs"

lemma map_of_storage_None:
  assumes "\<forall>k \<in> set (map fst kvs). object_key k" "idx_key x"
  shows "map_of (rev (storage_items kvs)) x = None"
  using assms idx_not_object object_storage_key
  by (force simp: map_of_eq_None_iff)

lemma put_all_lookup:
  assumes "\<forall>k \<in> set (map fst kvs). object_key k"
  shows "put_all kvs ks x =
     (case map_of (rev (storage_items kvs)) x of
        Some s \<Rightarrow> Some (RStr s)
      | None \<Rightarrow> if entries (map fst kvs) x = [] then ks x
                else Some (RSet (set_at ks x |\<union>| fset_of_list (entries (map fst kvs) x))))"
  using assms
proof (induction kvs arbitrary: ks)
  case (Cons p kvs)
  obtain k s where p: "p = (k, s)"
    by (cases p)
  have obj: "object_key k" "\<forall>k \<in> set (map fst kvs). object_key k"
    using Cons.prems by (auto simp: p)
  note IH = Cons.IH [OF obj(2), of "put_one k s ks"]
  show ?case
  proof (cases "x = storage_key k")
    case True
    then have "storage_key k = x"
      by simp
    with obj entries_storage [OF obj(2,1)] show ?thesis
      by (simp add: p IH put_one_at map_add_def split: option.split)
  next
    case False
    with obj show ?thesis
      by (auto simp: p IH put_one_at map_add_def set_at_def split: option.split)
  qed
qed simp

lemma remove_all_lookup:
  assumes "\<forall>k \<in> set keys. object_key k"
  shows "remove_all keys ks x =
     (if x \<in> storage_key ` set keys then None
      else if entries keys x = [] then ks x
      else (let s = set_at ks x |-| fset_of_list (entries keys x) in
            if s = {||} then None else Some (RSet s)))"
  using assms
proof (induction keys arbitrary: ks)
  case (Cons k keys)
  then have obj: "object_key k" "\<forall>k \<in> set keys. object_key k"
    by auto
  note IH = Cons.IH [OF obj(2), of "del_one k ks"]
  have fm: "s |-| fset_of_list (a # as) = (s |-| {|a|}) |-| fset_of_list as" for s a and as :: "string list"
    by auto
  show ?case
  proof (cases "x = storage_key k")
    case True
    then have "storage_key k = x"
      by simp
    with obj entries_storage [OF obj(2,1)] show ?thesis
      by (simp add: IH del_one_at)
  next
    case False
    show ?thesis
    proof (cases "x \<in> set (index_keys k)")
      case True
      with False have "set_at (del_one k ks) x = set_at ks x |-| {|storage_key k|}"
        by (intro set_at_val) (simp add: del_one_at Let_def)
      with True False show ?thesis
        by (simp add: IH fm del_one_at Let_def image_iff del: fset_of_list_simps(2))
    next
      case out: False
      with False have "set_at (del_one k ks) x = set_at ks x"
        by (simp add: set_at_def del_one_at)
      with out False show ?thesis
        by (simp add: IH del_one_at image_iff)
    qed
  qed
qed simp

text \<open>The batched writes end in the keyspace of the item by item specification.\<close>

lemma batch_put:
  assumes "\<forall>k \<in> set (map fst kvs). object_key k"
  shows "sadd_all (collect_members (map fst kvs)) (apply_write (MSET (storage_items kvs)) ks) =
    put_all kvs ks"
proof
  fix x
  show "sadd_all (collect_members (map fst kvs)) (apply_write (MSET (storage_items kvs)) ks) x =
    put_all kvs ks x"
  proof (cases "entries (map fst kvs) x = []")
    case True
    then show ?thesis
      by (simp add: put_all_lookup [OF assms] sadd_all_def entry_of_members mset_lookup
          del: apply_write.simps)
  next
    case False
    with assms have "map_of (rev (storage_items kvs)) x = None"
      by (intro map_of_storage_None entries_idx)
    with False show ?thesis
      by (simp add: put_all_lookup [OF assms] sadd_all_def entry_of_members mset_lookup set_at_def
          del: apply_write.simps)
  qed
qed

lemma batch_del:
  assumes "\<forall>k \<in> set keys. object_key k"
  shows "srem_all (collect_members keys) (apply_write (DEL (map storage_key keys)) ks) =
    remove_all keys ks"
proof
  fix x
  have "entries keys x \<noteq> [] \<Longrightarrow> x \<notin> storage_key ` set keys"
    using assms entries_storage by blast
  then show "srem_all (collect_members keys) (apply_write (DEL (map storage_key keys)) ks) x =
    remove_all keys ks x"
    by (auto simp: remove_all_lookup [OF assms] srem_all_def entry_of_members set_at_def)
qed

lemma achieves_set_all:
  assumes ho: "visits_once (hash_order R)"
    and obj: "\<forall>(k, v) \<in> set kvs. object_key k"
    and typed: "well_typed ks"
    and ser: "up \<Longrightarrow> \<forall>(k, v) \<in> set kvs. \<exists>s. ser v = Inr s"
    and post: "\<And>skvs. serialised ser kvs skvs \<Longrightarrow> P () (put_all skvs ks)"
  shows "achieves up (set_all R ser kvs) P ks"
proof (cases "set_items ser kvs []")
  case (Inl e)
  with set_items_cases [where ser = ser and kvs = kvs and m = "[]"] ser show ?thesis
    by (fastforce simp: set_all_def wp_simps)
next
  case (Inr q)
  then obtain skvs where skvs: "serialised ser kvs skvs"
    and q: "q = (storage_items skvs, collect_members (map fst skvs))"
    using set_items_cases [where ser = ser and kvs = kvs and m = "[]"] by (cases q) (auto simp: collect_members_def serialised_keys)
  have obj': "\<forall>k \<in> set (map fst skvs). object_key k"
    using obj by (auto simp: serialised_keys [OF skvs])
  let ?m = "hash_order R (collect_members (map fst skvs))"
  let ?ks = "apply_write (MSET (storage_items skvs)) ks"
  have eq: "sadd_all ?m ?ks = put_all skvs ks"
    using batch_put [OF obj'] ho
    by (simp add: sadd_all_def visits_once_entry distinct_members del: apply_write.simps cong: if_cong)
  have "setty ?ks i" if "i \<in> fst ` set ?m" for i
  proof -
    from that ho obj' have "idx_key i"
      by (auto simp: visits_once_set keys_members index_keys_idx)
    with obj' typed show ?thesis
      by (simp add: setty_def mset_lookup map_of_storage_None del: apply_write.simps)
        (simp flip: setty_def add: well_typed_setty)
  qed
  then have "achieves up (sadd_each ?m) P ?ks"
    using ho post [OF skvs] eq members_nonempty distinct_members
    by (intro achieves_sadd_each) (auto simp: visits_once_distinct_fst visits_once_set simp del: apply_write.simps)
  moreover have "skvs = [] \<longrightarrow> put_all skvs ks = ks"
    by auto
  ultimately show ?thesis
    using Inr q post [OF skvs] by (auto simp: set_all_def wp_simps simp del: apply_write.simps)
qed

lemma achieves_del_all:
  assumes ho: "visits_once (hash_order R)"
    and obj: "\<forall>k \<in> set keys. object_key k"
    and typed: "well_typed ks"
    and post: "P () (remove_all keys ks)"
  shows "achieves up (del_all R keys) P ks"
proof -
  let ?m = "hash_order R (collect_members keys)"
  let ?ks = "apply_write (DEL (map storage_key keys)) ks"
  have eq: "srem_all ?m ?ks = remove_all keys ks"
    using batch_del [OF obj] ho
    by (simp add: srem_all_def visits_once_entry distinct_members del: apply_write.simps cong: if_cong)
  have "setty ?ks i" if "i \<in> fst ` set ?m" for i
  proof -
    from that ho obj have "idx_key i"
      by (auto simp: visits_once_set keys_members index_keys_idx)
    with typed have "setty ks i"
      by (rule well_typed_setty)
    then show ?thesis
      by (simp add: setty_def)
  qed
  then have "achieves up (srem_each ?m) P ?ks"
    using ho post eq members_nonempty distinct_members
    by (intro achieves_srem_each) (auto simp: visits_once_distinct_fst visits_once_set simp del: apply_write.simps)
  with post show ?thesis
    by (auto simp: del_all_def del_items_eq collect_members_def wp_simps simp del: apply_write.simps)
qed

section \<open>The other operations\<close>

lemma achieves_cache_get [wp_simps]:
  "achieves up (cache_get de k) P =
     (\<lambda>ks. (if stringy ks k
      then (case string_at ks k of
              None \<Rightarrow> P None ks
            | Some s \<Rightarrow> (case de s of Inl _ \<Rightarrow> \<not> up | Inr x \<Rightarrow> P (Some x) ks))
      else \<not> up))"
  by (rule ext) (auto simp: cache_get_def wp_simps split: option.split sum.split)

lemma achieves_decode_all:
  assumes "up \<Longrightarrow> \<forall>s \<in> set (flatten_options vs). \<exists>x. de s = Inr x"
    and "\<And>xs. list_all2 (\<lambda>s x. de s = Inr x) (flatten_options vs) (flatten_options xs) \<Longrightarrow> P xs ks"
  shows "achieves up (decode_all de vs) P ks"
  using assms
proof (induction de vs arbitrary: P rule: decode_all.induct)
  case (2 de rest)
  then show ?case
    by (auto simp: wp_simps)
next
  case (3 de v rest)
  show ?case
  proof (cases "de v")
    case (Inl e)
    with 3 show ?thesis
      by (auto simp: wp_simps)
  next
    case (Inr x)
    with 3 show ?thesis
      by (auto simp: wp_simps)
  qed
qed (simp add: wp_simps)

lemma achieves_cache_get_all:
  assumes "\<forall>k \<in> set keys. stringy ks k"
    and "up \<Longrightarrow> \<forall>s \<in> set (flatten_options (map (string_at ks) keys)). \<exists>x. de s = Inr x"
    and "\<And>xs. list_all2 (\<lambda>s x. de s = Inr x) (flatten_options (map (string_at ks) keys))
           (flatten_options xs) \<Longrightarrow> P xs ks"
  shows "achieves up (cache_get_all de keys) P ks"
  using assms by (auto simp: cache_get_all_def wp_simps intro!: achieves_decode_all)

text \<open>Where the code matches on the \<open>Result\<close> of a read, errors included.\<close>

lemma wp_get_members:
  "wp up (get_members k) Q ks \<longleftrightarrow>
     (setty ks k \<longrightarrow> (\<forall>ms. fset_of_list ms = set_at ks k \<longrightarrow> Q (Ok ms) ks)) \<and>
     (\<not> (up \<and> setty ks k) \<longrightarrow> (\<forall>e. Q (Err (Redis e)) ks))"
  by (auto simp: get_members_def wp_and_then conn_smembers_def smembers_reply_def fails_ok_def
      split: sum.splits)

lemma wp_cache_get:
  "wp up (cache_get de k) Q ks \<longleftrightarrow>
     (stringy ks k \<longrightarrow>
        (case string_at ks k of
           None \<Rightarrow> Q (Ok None) ks
         | Some s \<Rightarrow> (case de s of Inl e \<Rightarrow> Q (Err (SimdJson e)) ks | Inr x \<Rightarrow> Q (Ok (Some x)) ks))) \<and>
     (\<not> (up \<and> stringy ks k) \<longrightarrow> (\<forall>e. Q (Err (Redis e)) ks))"
  by (auto simp: cache_get_def wp_and_then conn_get_def get_reply_def fails_ok_def
      split: sum.splits option.splits)

lemma achieves_get_members [wp_simps]:
  "achieves up (get_members k) P =
     (\<lambda>ks. (if setty ks k then \<forall>ms. fset_of_list ms = set_at ks k \<longrightarrow> P ms ks else \<not> up))"
  by (rule ext) (simp add: get_members_def wp_simps)

lemma achieves_get_members_len [wp_simps]:
  "achieves up (get_members_len k) P =
     (\<lambda>ks. (if setty ks k then P (of_nat (fcard (set_at ks k))) ks else \<not> up))"
  by (rule ext) (simp add: get_members_len_def wp_simps)

lemma achieves_get_hashmap [wp_simps]:
  "achieves up (get_hashmap k) P =
     (\<lambda>ks. (if hashy ks k
      then \<forall>fvs. distinct (map fst fvs) \<and> fmap_of_list fvs = hash_at ks k \<longrightarrow> P fvs ks
      else \<not> up))"
  by (rule ext) (simp add: get_hashmap_def wp_simps)

text \<open>
  \<open>expires\<close>: the expiry fields written for the keys, each the serialised time at which its
  object's time to live ends; \<open>put_expiry\<close>: their effect on the keyspace.
\<close>

definition expires :: "runtime \<Rightarrow> (string \<times> u64) list \<Rightarrow> (string \<times> string) list \<Rightarrow> bool" where
  "expires R = list_all2 (\<lambda>(k, ttl) (k', s). k' = k \<and>
     (\<exists>t e. sane_time t \<and> dt_add R t (ttl_millis ttl) = Some e \<and> ser_datetime R e = Ok s))"

definition put_expiry :: "(string \<times> string) list \<Rightarrow> keyspace \<Rightarrow> keyspace" where
  "put_expiry fvs ks =
     (if fvs = [] then ks
      else put_hash EXPIRY_KEYS (fold (\<lambda>(f, v) h. fmupd f v h) fvs (hash_at ks EXPIRY_KEYS)) ks)"

definition clock_total :: "runtime \<Rightarrow> u64 \<Rightarrow> bool" where
  "clock_total R ttl \<longleftrightarrow>
     (\<forall>t. sane_time t \<longrightarrow> (\<exists>e s. dt_add R t (ttl_millis ttl) = Some e \<and> ser_datetime R e = Ok s))"

lemma expires_Nil [simp]: "expires R [] fvs \<longleftrightarrow> fvs = []"
  by (simp add: expires_def)

lemma expires_keys: "expires R keys fvs \<Longrightarrow> map fst fvs = map fst keys"
  unfolding expires_def by (induction rule: list_all2_induct) auto

lemma achieves_expire_items:
  assumes "up \<Longrightarrow> \<forall>(k, ttl) \<in> set keys. clock_total R ttl"
    and "\<And>fvs. expires R keys fvs \<Longrightarrow> P fvs ks"
  shows "achieves up (expire_items R keys) P ks"
  using assms
proof (induction keys arbitrary: P)
  case Nil
  then show ?case
    by (simp add: wp_simps)
next
  case (Cons p keys)
  obtain k ttl where p: "p = (k, ttl)"
    by (cases p)
  have "achieves up (case dt_add R t (ttl_millis ttl) of
           None \<Rightarrow> Done (Panic ''resulting value is out of range'')
         | Some timestamp \<Rightarrow>
             and_then (Done (ser_datetime R timestamp)) (\<lambda>s.
               and_then (expire_items R keys) (\<lambda>kvs. ok ((k, s) # kvs)))) P ks"
    if t: "sane_time t" for t
  proof (cases "\<exists>e s. dt_add R t (ttl_millis ttl) = Some e \<and> ser_datetime R e = Ok s")
    case True
    then obtain e s where e: "dt_add R t (ttl_millis ttl) = Some e" "ser_datetime R e = Ok s"
      by auto
    have "achieves up (expire_items R keys) (\<lambda>fvs. P ((k, s) # fvs)) ks"
    proof (rule Cons.IH)
      show "P ((k, s) # fvs) ks" if "expires R keys fvs" for fvs
        using that t e by (intro Cons.prems(2)) (auto simp: p expires_def)
    qed (use Cons.prems(1) p in auto)
    with e show ?thesis
      by (simp add: wp_simps)
  next
    case False
    with t have "\<not> clock_total R ttl"
      unfolding clock_total_def by blast
    with Cons.prems(1) have "\<not> up"
      by (auto simp: p)
    with False show ?thesis
      by (auto simp: wp_simps split: option.split) (metis achieves_Err achieves_Panic res.exhaust)
  qed
  then show ?case
    by (simp add: p wp_simps)
qed

lemma achieves_expire_all:
  assumes "hashy ks EXPIRY_KEYS" "up \<Longrightarrow> \<forall>(k, ttl) \<in> set keys. clock_total R ttl"
    and "\<And>fvs. expires R keys fvs \<Longrightarrow> P () (put_expiry fvs ks)"
  shows "achieves up (expire_all R keys) P ks"
  unfolding expire_all_def achieves_and_then
proof (rule achieves_expire_items)
  show "achieves up (if fvs = [] then ok () else conn_write (HSET EXPIRY_KEYS fvs)) P ks"
    if "expires R keys fvs" for fvs
    using assms(1) assms(3) [OF that] by (auto simp: wp_simps put_expiry_def)
qed (use assms(2) in auto)

end
