(* ===== verification/CacheInv.thy ===== *)
theory CacheInv
  imports Cache
begin

text \<open>
  The invariant of the cache: the type of every key is fixed by its name, objects are stored
  under their storage key, the index of a kind holds exactly the stored objects of the kind,
  and the scope indexes (\<open>guild_keys:g\<close>, \<open>channel_keys:c\<close>) hold every stored object of the
  scope. The converse of the last fails for channels only (\<open>scope_sound\<close>). Storing or
  removing one object keeps it; the locale \<open>keyspace_invariant\<close> lifts this to the batched
  operations, for any further property \<open>J\<close> that single stores and removals keep.
\<close>

section \<open>The invariant\<close>

definition scope_kind :: "string \<Rightarrow> string" where
  "scope_kind k = (if kind_of k = MESSAGE_KEY then CHANNEL_KEY else GUILD_KEY)"

definition scope_kinds :: "string set" where
  "scope_kinds = {GUILD_KEY, CHANNEL_KEY}"

definition norm_keys :: "keyspace \<Rightarrow> bool" where
  "norm_keys ks \<longleftrightarrow> (\<forall>k. ks k \<noteq> None \<longrightarrow> storage_key k = k)"

definition kind_indexed :: "keyspace \<Rightarrow> bool" where
  "kind_indexed ks \<longleftrightarrow>
     (\<forall>kd \<in> kinds. \<forall>k. k |\<in>| set_at ks (kind_index kd) \<longleftrightarrow>
        ks k \<noteq> None \<and> kind_of k = kd \<and> length (parts_of k) > 1)"

definition scope_complete :: "keyspace \<Rightarrow> bool" where
  "scope_complete ks \<longleftrightarrow>
     (\<forall>k. ks k \<noteq> None \<and> kind_of k \<in> kinds \<and> length (parts_of k) > 2 \<longrightarrow>
        k |\<in>| set_at ks (scope_index (scope_kind k) (parts_of k ! 1)))"

definition scope_sound :: "keyspace \<Rightarrow> bool" where
  "scope_sound ks \<longleftrightarrow>
     (\<forall>sc \<in> scope_kinds. \<forall>s k. k |\<in>| set_at ks (scope_index sc s) \<longrightarrow>
        kind_of k \<in> kinds \<and> storage_key k = k \<and> sc = scope_kind k \<and>
        (if kind_of k = CHANNEL_KEY then length (parts_of k) = 2
         else length (parts_of k) > 2 \<and> parts_of k ! 1 = s \<and> ks k \<noteq> None))"

definition expiring :: "string \<Rightarrow> bool" where
  "expiring k \<longleftrightarrow> kind_of k = MEMBER_KEY \<or> kind_of k = MESSAGE_KEY"

definition expiry_objects :: "keyspace \<Rightarrow> bool" where
  "expiry_objects ks \<longleftrightarrow> (\<forall>f \<in> fmdom' (hash_at ks EXPIRY_KEYS). expiring f)"

definition cache_inv :: "keyspace \<Rightarrow> bool" where
  "cache_inv ks \<longleftrightarrow> well_typed ks \<and> norm_keys ks \<and> kind_indexed ks \<and> scope_complete ks \<and>
     scope_sound ks \<and> expiry_objects ks"

lemmas cache_inv_defs = norm_keys_def kind_indexed_def scope_complete_def scope_sound_def
  expiry_objects_def

lemma cache_inv_parts:
  assumes "cache_inv ks"
  shows "well_typed ks" "norm_keys ks" "kind_indexed ks" "scope_complete ks" "scope_sound ks"
    "expiry_objects ks"
  using assms by (simp_all add: cache_inv_def)

lemma expiring_object [simp]: "expiring k \<Longrightarrow> object_key k"
  by (auto simp: expiring_def object_key_def)

text \<open>The empty database satisfies it.\<close>

lemma cache_inv_empty: "cache_inv Map.empty"
  by (simp add: cache_inv_def well_typed_def cache_inv_defs set_at_def hash_at_def)

section \<open>Single stores and removals\<close>

lemma index_keys_iff:
  "x \<in> set (index_keys k) \<longleftrightarrow>
     length (parts_of k) > 1 \<and> x = kind_index (kind_of k) \<or>
     length (parts_of k) > 2 \<and> x = scope_index (scope_kind k) (parts_of k ! 1)"
  by (auto simp: index_keys_def scope_kind_def kind_of_def Let_def)

lemma scope_kind_in [simp]: "scope_kind k \<in> kinds" "CHR '':'' \<notin> set (scope_kind k)"
  "scope_kind k \<in> scope_kinds"
  by (simp_all add: scope_kind_def scope_kinds_def)

lemma scope_kinds_simps [simp]: "GUILD_KEY \<in> scope_kinds" "CHANNEL_KEY \<in> scope_kinds"
  "sc \<in> scope_kinds \<Longrightarrow> CHR '':'' \<notin> set sc" "sc \<in> scope_kinds \<Longrightarrow> sc \<in> kinds"
  by (auto simp: scope_kinds_def)

lemma scope_kind_storage [simp]: "scope_kind (storage_key k) = scope_kind k"
  by (simp add: scope_kind_def)

lemma storage_key_idem [simp]: "storage_key (storage_key k) = storage_key k"
  by (rule parts_of_inj) (simp add: parts_storage_key)

lemma set_at_put_one:
  assumes "object_key k" "idx_key x"
  shows "set_at (put_one k s ks) x =
    (if x \<in> set (index_keys k) then finsert (storage_key k) (set_at ks x) else set_at ks x)"
  using assms idx_not_object object_storage_key by (auto simp: set_at_def put_one_at)

lemma set_at_del_one:
  assumes "object_key k" "idx_key x"
  shows "set_at (del_one k ks) x =
    (if x \<in> set (index_keys k) then set_at ks x |-| {|storage_key k|} else set_at ks x)"
proof -
  have x: "x \<noteq> storage_key k"
    using assms idx_not_object object_storage_key by auto
  show ?thesis
  proof (cases "x \<in> set (index_keys k)")
    case True
    with x have "set_at (del_one k ks) x = set_at ks x |-| {|storage_key k|}"
      by (intro set_at_val) (simp add: del_one_at Let_def)
    with True show ?thesis
      by simp
  qed (use x in \<open>simp add: set_at_def del_one_at\<close>)
qed

lemma put_one_object:
  assumes "object_key k" "object_key x"
  shows "put_one k s ks x = (if x = storage_key k then Some (RStr s) else ks x)"
  using assms index_keys_idx idx_not_object by (auto simp: put_one_at)

lemma del_one_object:
  assumes "object_key k" "object_key x"
  shows "del_one k ks x = (if x = storage_key k then None else ks x)"
  using assms index_keys_idx idx_not_object by (auto simp: del_one_at)

lemma object_of_kind [simp]: "kind_of k \<in> kinds \<Longrightarrow> object_key k"
  by (simp add: object_key_def)

lemma hash_put_one [simp]: "object_key k \<Longrightarrow> hash_at (put_one k s ks) EXPIRY_KEYS = hash_at ks EXPIRY_KEYS"
  using index_keys_idx [of k EXPIRY_KEYS] object_not_expiry [of "storage_key k"]
  by (auto simp: hash_at_def put_one_at object_storage_key)

lemma hash_del_one [simp]: "object_key k \<Longrightarrow> hash_at (del_one k ks) EXPIRY_KEYS = hash_at ks EXPIRY_KEYS"
  using index_keys_idx [of k EXPIRY_KEYS] object_not_expiry [of "storage_key k"]
  by (auto simp: hash_at_def del_one_at object_storage_key)

lemma well_typed_put_one:
  assumes "object_key k" "well_typed ks"
  shows "well_typed (put_one k s ks)"
  using assms index_keys_idx [of k] idx_not_object [of "storage_key k"]
    object_not_expiry [of "storage_key k"] object_storage_key [of k]
  by (auto simp: well_typed_def put_one_at)

lemma well_typed_del_one:
  assumes "object_key k" "well_typed ks"
  shows "well_typed (del_one k ks)"
  using assms index_keys_idx [of k]
  by (auto simp: well_typed_def del_one_at Let_def split: if_splits)

lemma idx_kind_one_part: "idx_key k \<Longrightarrow> parts_of k ! 0 \<noteq> CHANNEL_KEY"
  by (metis idx_key_def kind_of_def suffix_not_kind kind_in_kinds(2))

lemma storage_key_idx: "idx_key k \<Longrightarrow> storage_key k = k"
  by (simp add: storage_key_def Let_def idx_kind_one_part)

lemma norm_keys_put_one: "object_key k \<Longrightarrow> norm_keys ks \<Longrightarrow> norm_keys (put_one k s ks)"
  by (auto simp: norm_keys_def put_one_at dest: index_keys_idx storage_key_idx)

lemma norm_keys_del_one:
  assumes "object_key k" "norm_keys ks"
  shows "norm_keys (del_one k ks)"
  unfolding norm_keys_def
proof (intro allI impI)
  fix x
  assume x: "del_one k ks x \<noteq> None"
  show "storage_key x = x"
  proof (cases "x \<in> set (index_keys k)")
    case True
    with assms show ?thesis
      by (intro storage_key_idx index_keys_idx)
  next
    case False
    with x assms(2) show ?thesis
      by (simp add: del_one_at norm_keys_def split: if_splits)
  qed
qed

lemma kind_indexed_put_one:
  assumes k: "object_key k" and ind: "kind_indexed ks"
  shows "kind_indexed (put_one k s ks)"
  unfolding kind_indexed_def
proof (intro ballI allI)
  fix kd x
  assume kd: "kd \<in> kinds"
  have at: "set_at (put_one k s ks) (kind_index kd) =
      (if length (parts_of k) > 1 \<and> kd = kind_of k then finsert (storage_key k) (set_at ks (kind_index kd))
       else set_at ks (kind_index kd))"
    using k kd by (simp add: set_at_put_one index_keys_iff kind_no_colon)
  have len: "length (parts_of (storage_key k)) > 1 \<longleftrightarrow> length (parts_of k) > 1"
    by (auto simp: parts_storage_key)
  show "x |\<in>| set_at (put_one k s ks) (kind_index kd) \<longleftrightarrow>
      put_one k s ks x \<noteq> None \<and> kind_of x = kd \<and> length (parts_of x) > 1"
  proof (cases "kind_of x = kd")
    case True
    with kd k have "put_one k s ks x = (if x = storage_key k then Some (RStr s) else ks x)"
      by (intro put_one_object) simp_all
    with ind kd True len show ?thesis
      by (auto simp: at kind_indexed_def)
  next
    case False
    with ind kd show ?thesis
      by (auto simp: at kind_indexed_def)
  qed
qed

lemma kind_indexed_del_one:
  assumes k: "object_key k" and ind: "kind_indexed ks"
  shows "kind_indexed (del_one k ks)"
  unfolding kind_indexed_def
proof (intro ballI allI)
  fix kd x
  assume kd: "kd \<in> kinds"
  have at: "set_at (del_one k ks) (kind_index kd) =
      (if length (parts_of k) > 1 \<and> kd = kind_of k then set_at ks (kind_index kd) |-| {|storage_key k|}
       else set_at ks (kind_index kd))"
    using k kd by (simp add: set_at_del_one index_keys_iff kind_no_colon)
  have len: "length (parts_of (storage_key k)) > 1 \<longleftrightarrow> length (parts_of k) > 1"
    by (auto simp: parts_storage_key)
  show "x |\<in>| set_at (del_one k ks) (kind_index kd) \<longleftrightarrow>
      del_one k ks x \<noteq> None \<and> kind_of x = kd \<and> length (parts_of x) > 1"
  proof (cases "kind_of x = kd")
    case True
    with kd k have "del_one k ks x = (if x = storage_key k then None else ks x)"
      by (intro del_one_object) simp_all
    with ind kd True len show ?thesis
      by (auto simp: at kind_indexed_def)
  next
    case False
    with ind kd show ?thesis
      by (auto simp: at kind_indexed_def)
  qed
qed

text \<open>The scope index of a key, for any key that has one.\<close>

lemma set_at_scope_put:
  assumes "object_key k" "sc \<in> scope_kinds"
  shows "set_at (put_one k s ks) (scope_index sc p) =
    (if length (parts_of k) > 2 \<and> sc = scope_kind k \<and> p = parts_of k ! 1
     then finsert (storage_key k) (set_at ks (scope_index sc p)) else set_at ks (scope_index sc p))"
  using assms by (auto simp: set_at_put_one index_keys_iff)

lemma set_at_scope_del:
  assumes "object_key k" "sc \<in> scope_kinds"
  shows "set_at (del_one k ks) (scope_index sc p) =
    (if length (parts_of k) > 2 \<and> sc = scope_kind k \<and> p = parts_of k ! 1
     then set_at ks (scope_index sc p) |-| {|storage_key k|} else set_at ks (scope_index sc p))"
  using assms by (auto simp: set_at_del_one index_keys_iff)

lemma scope_complete_put_one:
  assumes k: "object_key k" and sc: "scope_complete ks"
  shows "scope_complete (put_one k s ks)"
  unfolding scope_complete_def
proof (intro allI impI, elim conjE)
  fix x
  assume x: "put_one k s ks x \<noteq> None" "kind_of x \<in> kinds" "length (parts_of x) > 2"
  show "x |\<in>| set_at (put_one k s ks) (scope_index (scope_kind x) (parts_of x ! 1))"
  proof (cases "x = storage_key k")
    case True
    with x(3) have "parts_of x = parts_of k" "scope_kind x = scope_kind k"
      by (auto simp: parts_storage_key split: if_splits)
    with True x k show ?thesis
      by (simp add: set_at_scope_put)
  next
    case False
    with x k sc show ?thesis
      by (auto simp: put_one_object scope_complete_def set_at_scope_put)
  qed
qed

lemma scope_complete_del_one:
  assumes k: "object_key k" and sc: "scope_complete ks"
  shows "scope_complete (del_one k ks)"
  unfolding scope_complete_def
proof (intro allI impI, elim conjE)
  fix x
  assume x: "del_one k ks x \<noteq> None" "kind_of x \<in> kinds" "length (parts_of x) > 2"
  then have "x \<noteq> storage_key k" "ks x \<noteq> None"
    using k by (auto simp: del_one_object split: if_splits)
  with x k sc show "x |\<in>| set_at (del_one k ks) (scope_index (scope_kind x) (parts_of x ! 1))"
    by (auto simp: scope_complete_def set_at_scope_del)
qed

lemma scope_soundD:
  assumes "scope_sound ks" "sc \<in> scope_kinds" "x |\<in>| set_at ks (scope_index sc p)"
  shows "kind_of x \<in> kinds" "storage_key x = x" "sc = scope_kind x"
    "kind_of x = CHANNEL_KEY \<Longrightarrow> length (parts_of x) = 2"
    "kind_of x \<noteq> CHANNEL_KEY \<Longrightarrow> length (parts_of x) > 2"
    "kind_of x \<noteq> CHANNEL_KEY \<Longrightarrow> parts_of x ! 1 = p"
    "kind_of x \<noteq> CHANNEL_KEY \<Longrightarrow> ks x \<noteq> None"
proof -
  have "kind_of x \<in> kinds \<and> storage_key x = x \<and> sc = scope_kind x \<and>
    (if kind_of x = CHANNEL_KEY then length (parts_of x) = 2
     else length (parts_of x) > 2 \<and> parts_of x ! 1 = p \<and> ks x \<noteq> None)"
    using assms unfolding scope_sound_def by blast
  then show "kind_of x \<in> kinds" "storage_key x = x" "sc = scope_kind x"
    "kind_of x = CHANNEL_KEY \<Longrightarrow> length (parts_of x) = 2"
    "kind_of x \<noteq> CHANNEL_KEY \<Longrightarrow> length (parts_of x) > 2"
    "kind_of x \<noteq> CHANNEL_KEY \<Longrightarrow> parts_of x ! 1 = p"
    "kind_of x \<noteq> CHANNEL_KEY \<Longrightarrow> ks x \<noteq> None"
    by simp_all
qed

lemma scope_sound_put_one:
  assumes k: "object_key k" and sound: "scope_sound ks"
  shows "scope_sound (put_one k s ks)"
  unfolding scope_sound_def
proof (intro ballI allI impI)
  fix sc p x
  assume sc: "sc \<in> scope_kinds"
    and x: "x |\<in>| set_at (put_one k s ks) (scope_index sc p)"
  let ?G = "\<lambda>ks. kind_of x \<in> kinds \<and> storage_key x = x \<and> sc = scope_kind x \<and>
    (if kind_of x = CHANNEL_KEY then length (parts_of x) = 2
     else length (parts_of x) > 2 \<and> parts_of x ! 1 = p \<and> ks x \<noteq> None)"
  show "?G (put_one k s ks)"
  proof (cases "x |\<in>| set_at ks (scope_index sc p)")
    case True
    with sound sc have "?G ks"
      unfolding scope_sound_def by blast
    then show ?thesis
      by (auto simp: put_one_at)
  next
    case False
    with x have "x = storage_key k" "length (parts_of k) > 2" "sc = scope_kind k" "p = parts_of k ! 1"
      using k sc by (auto simp: set_at_scope_put split: if_splits)
    with k show ?thesis
      by (auto simp: object_key_def parts_storage_key put_one_at kind_of_def)
  qed
qed

lemma scope_sound_del_one:
  assumes k: "object_key k" and sound: "scope_sound ks"
  shows "scope_sound (del_one k ks)"
  unfolding scope_sound_def
proof (intro ballI allI impI)
  fix sc p x
  assume sc: "sc \<in> scope_kinds"
    and x: "x |\<in>| set_at (del_one k ks) (scope_index sc p)"
  have old: "x |\<in>| set_at ks (scope_index sc p)"
    using x k sc by (auto simp: set_at_scope_del split: if_splits)
  note G = scope_soundD [OF sound sc old]
  have "del_one k ks x \<noteq> None" if ch: "kind_of x \<noteq> CHANNEL_KEY"
  proof -
    have "x \<noteq> storage_key k"
    proof
      assume xk: "x = storage_key k"
      then have "parts_of x = parts_of k"
        using ch by (simp add: parts_storage_key kind_of_def split: if_splits)
      with G(3,5,6) ch xk have "x |\<notin>| set_at (del_one k ks) (scope_index sc p)"
        using k sc by (simp add: set_at_scope_del)
      with x show False
        by simp
    qed
    with G(1,7) ch k show ?thesis
      by (simp add: del_one_object)
  qed
  with G show "kind_of x \<in> kinds \<and> storage_key x = x \<and> sc = scope_kind x \<and>
    (if kind_of x = CHANNEL_KEY then length (parts_of x) = 2
     else length (parts_of x) > 2 \<and> parts_of x ! 1 = p \<and> del_one k ks x \<noteq> None)"
    by simp
qed

lemma cache_inv_put_one: "object_key k \<Longrightarrow> cache_inv ks \<Longrightarrow> cache_inv (put_one k s ks)"
  by (simp add: cache_inv_def well_typed_put_one norm_keys_put_one kind_indexed_put_one
      scope_complete_put_one scope_sound_put_one expiry_objects_def)

lemma cache_inv_del_one: "object_key k \<Longrightarrow> cache_inv ks \<Longrightarrow> cache_inv (del_one k ks)"
  by (simp add: cache_inv_def well_typed_del_one norm_keys_del_one kind_indexed_del_one
      scope_complete_del_one scope_sound_del_one expiry_objects_def)

section \<open>Expiry\<close>

lemma fmdom_fold_upd:
  "fmdom' (fold (\<lambda>(f, v) h. fmupd f v h) fvs h) = fst ` set fvs \<union> fmdom' h"
  by (induction fvs arbitrary: h) auto

lemma put_hash_other [simp]: "x \<noteq> k \<Longrightarrow> put_hash k h ks x = ks x"
  by (simp add: put_hash_def)

lemma hash_at_put_hash [simp]: "hash_at (put_hash k h ks) k = h"
  by (simp add: hash_at_def put_hash_def)

lemma set_at_put_hash [simp]: "idx_key x \<Longrightarrow> set_at (put_hash EXPIRY_KEYS h ks) x = set_at ks x"
  using expiry_not_kind(1) by (auto simp: set_at_def put_hash_def)

lemma expiry_storage_key: "storage_key EXPIRY_KEYS = EXPIRY_KEYS"
  by (simp add: storage_key_def parts_of_def split_on_no_sep EXPIRY_KEYS_def)

lemma cache_inv_put_hash:
  assumes "cache_inv ks" "\<forall>f \<in> fmdom' h. expiring f"
  shows "cache_inv (put_hash EXPIRY_KEYS h ks)"
proof -
  let ?ks = "put_hash EXPIRY_KEYS h ks"
  note c = cache_inv_parts [OF assms(1)]
  have other: "?ks x = ks x" if "kind_of x \<in> kinds" for x
    using that expiry_not_kind(2) by (metis put_hash_other)
  have "well_typed ?ks"
    using c(1) by (auto simp: well_typed_def put_hash_def)
  moreover have "norm_keys ?ks"
    using c(2) by (auto simp: norm_keys_def put_hash_def expiry_storage_key)
  moreover have "kind_indexed ?ks"
    using c(3) other by (auto simp: kind_indexed_def)
  moreover have "scope_complete ?ks"
    using c(4) other by (auto simp: scope_complete_def)
  moreover have "scope_sound ?ks"
    unfolding scope_sound_def using scope_soundD [OF c(5)] other by simp
  ultimately show ?thesis
    using assms(2) by (simp add: cache_inv_def expiry_objects_def)
qed

lemma cache_inv_put_expiry:
  assumes "cache_inv ks" "\<forall>f \<in> set (map fst fvs). expiring f"
  shows "cache_inv (put_expiry fvs ks)"
  unfolding put_expiry_def using assms cache_inv_parts(6) [OF assms(1)]
  by (auto intro!: cache_inv_put_hash simp: fmdom_fold_upd expiry_objects_def)

section \<open>Lifting to the batched operations\<close>

text \<open>
  \<open>W k s\<close>: the document \<open>s\<close> may be stored at the key \<open>k\<close>; \<open>D k\<close>: \<open>k\<close> may be
  removed. A property of the keyspace that single stores, removals and expiry fields keep is
  kept by every operation that only does these.
\<close>

locale keyspace_invariant =
  fixes J :: "keyspace \<Rightarrow> bool"
    and W :: "string \<Rightarrow> string \<Rightarrow> bool"
    and D :: "string \<Rightarrow> bool"
  assumes put: "cache_inv ks \<Longrightarrow> J ks \<Longrightarrow> object_key k \<Longrightarrow> W k s \<Longrightarrow> J (put_one k s ks)"
    and del: "cache_inv ks \<Longrightarrow> J ks \<Longrightarrow> object_key k \<Longrightarrow> D k \<Longrightarrow> J (del_one k ks)"
    and expiry: "cache_inv ks \<Longrightarrow> J ks \<Longrightarrow> J (put_expiry fvs ks)"
begin

lemma put_all_keeps:
  assumes "cache_inv ks" "J ks" "\<forall>(k, s) \<in> set kvs. object_key k \<and> W k s"
  shows "cache_inv (put_all kvs ks) \<and> J (put_all kvs ks)"
  using assms
proof (induction kvs arbitrary: ks)
  case (Cons p kvs)
  obtain k s where p: "p = (k, s)"
    by (cases p)
  have "cache_inv (put_one k s ks)" "J (put_one k s ks)"
    using Cons.prems by (auto simp: p intro: put cache_inv_put_one)
  with Cons.prems show ?case
    by (simp add: p Cons.IH)
qed simp

lemma remove_all_keeps:
  assumes "cache_inv ks" "J ks" "\<forall>k \<in> set keys. object_key k \<and> D k"
  shows "cache_inv (remove_all keys ks) \<and> J (remove_all keys ks)"
  using assms by (induction keys arbitrary: ks) (simp_all add: del cache_inv_del_one)

lemma set_all_keeps:
  assumes "visits_once (hash_order R)" "cache_inv ks" "J ks"
    and "\<forall>(k, v) \<in> set kvs. object_key k \<and> (\<forall>s. ser v = Inr s \<longrightarrow> W k s)"
    and "up \<Longrightarrow> \<forall>(k, v) \<in> set kvs. \<exists>s. ser v = Inr s"
    and post: "\<And>ks'. cache_inv ks' \<Longrightarrow> J ks' \<Longrightarrow> P () ks'"
  shows "achieves up (set_all R ser kvs) P ks"
proof (rule achieves_set_all)
  fix skvs
  assume "serialised ser kvs skvs"
  with assms(4) have "\<forall>(k, s) \<in> set skvs. object_key k \<and> W k s"
    by (fastforce dest: serialised_mem)
  with put_all_keeps [OF assms(2,3)] show "P () (put_all skvs ks)"
    by (intro post) auto
qed (use assms cache_inv_parts in auto)

lemma cache_set_keeps:
  assumes "visits_once (hash_order R)" "cache_inv ks" "J ks" "object_key k"
    and "\<And>s. ser v = Inr s \<Longrightarrow> W k s" "up \<Longrightarrow> \<exists>s. ser v = Inr s"
    and "\<And>ks'. cache_inv ks' \<Longrightarrow> J ks' \<Longrightarrow> P () ks'"
  shows "achieves up (cache_set R ser k v) P ks"
  unfolding cache_set_def achieves_and_then achieves_Ok
  using assms by (intro set_all_keeps) auto

lemma del_all_keeps:
  assumes "visits_once (hash_order R)" "cache_inv ks" "J ks" "\<forall>k \<in> set keys. object_key k \<and> D k"
    and post: "\<And>ks'. cache_inv ks' \<Longrightarrow> J ks' \<Longrightarrow> P () ks'"
  shows "achieves up (del_all R keys) P ks"
proof (rule achieves_del_all)
  show "P () (remove_all keys ks)"
    using remove_all_keeps [OF assms(2,3,4)] by (intro post) auto
qed (use assms cache_inv_parts in auto)

lemma cache_del_keeps:
  assumes "visits_once (hash_order R)" "cache_inv ks" "J ks" "object_key k" "D k"
    and "\<And>ks'. cache_inv ks' \<Longrightarrow> J ks' \<Longrightarrow> P () ks'"
  shows "achieves up (cache_del R k) P ks"
  unfolding cache_del_def achieves_and_then achieves_Ok
  using assms by (intro del_all_keeps) auto

lemma expire_all_keeps:
  assumes "cache_inv ks" "J ks" "\<forall>(k, ttl) \<in> set keys. expiring k"
    and "up \<Longrightarrow> \<forall>(k, ttl) \<in> set keys. clock_total R ttl"
    and post: "\<And>ks'. cache_inv ks' \<Longrightarrow> J ks' \<Longrightarrow> P () ks'"
  shows "achieves up (expire_all R keys) P ks"
proof (rule achieves_expire_all)
  fix fvs
  assume "expires R keys fvs"
  then have "set (map fst fvs) = fst ` set keys"
    by (simp add: expires_keys)
  with assms(3) have "\<forall>f \<in> set (map fst fvs). expiring f"
    by auto
  then show "P () (put_expiry fvs ks)"
    using assms(1,2) by (intro post cache_inv_put_expiry expiry)
qed (use assms cache_inv_parts well_typed_hashy in auto)

lemma expire_keeps:
  assumes "cache_inv ks" "J ks" "expiring k" "up \<Longrightarrow> clock_total R ttl"
    and "\<And>ks'. cache_inv ks' \<Longrightarrow> J ks' \<Longrightarrow> P () ks'"
  shows "achieves up (expire R k ttl) P ks"
  unfolding expire_def achieves_and_then achieves_Ok
  using assms by (intro expire_all_keeps) auto

end

interpretation cache_only: keyspace_invariant "\<lambda>_. True" "\<lambda>_ _. True" "\<lambda>_. True"
  by unfold_locales simp_all

end
