(* ===== verification/Update.thy ===== *)
theory Update
  imports CacheInv
begin

text \<open>
  \<open>clear_guild\<close> and \<open>update\<close> of \<open>src/cache.rs\<close>: what each gateway event does to the
  cache and which old state it returns. One definition per arm of the match, in its order.
\<close>

section \<open>Helpers of the arms\<close>

text \<open>\<open>if CONFIG.state_old { old = get(conn, &key).await?; }\<close>\<close>

definition read_old :: "config \<Rightarrow> runtime \<Rightarrow> string \<Rightarrow> json option task" where
  "read_old C R key = (if state_old C then cache_get (de_value R) key else ok None)"

text \<open>\<open>if CONFIG.state_old { old = Some(to_value(x)?); }\<close>\<close>

definition value_old :: "config \<Rightarrow> runtime \<Rightarrow> 'a ser \<Rightarrow> 'a \<Rightarrow> json option task" where
  "value_old C R ser x =
     (if state_old C then and_then (Done (to_value R ser x)) (\<lambda>v. ok (Some v)) else ok None)"

definition clear_guild :: "runtime \<Rightarrow> u64 \<Rightarrow> json option task" where
  "clear_guild R guild_id =
     then_result (get_members (GUILD_KEY @ KEYS_SUFFIX @ '':'' @ show_u64 guild_id)) (\<lambda>members.
       and_then (case members of Inr ms \<Rightarrow> del_all R ms | Inl _ \<Rightarrow> ok ()) (\<lambda>_.
         then_result (cache_get (de_value R) (guild_key guild_id)) (\<lambda>guild.
           case guild of
             Inr g \<Rightarrow> and_then (cache_del R (guild_key guild_id)) (\<lambda>_. ok g)
           | Inl _ \<Rightarrow> ok None)))"

section \<open>Channels\<close>

definition on_channel_create :: "runtime \<Rightarrow> channel \<Rightarrow> json option task" where
  "on_channel_create R d =
     and_then (cache_set R (ser_channel R) (channel_key (ch_guild_id d) (ch_id d)) d)
       (\<lambda>_. ok None)"

definition on_channel_delete :: "config \<Rightarrow> runtime \<Rightarrow> channel \<Rightarrow> json option task" where
  "on_channel_delete C R d =
     (let key = channel_key (ch_guild_id d) (ch_id d) in
      and_then (read_old C R key) (\<lambda>old.
        and_then (cache_del R key) (\<lambda>_. ok old)))"

definition on_channel_pins_update ::
  "runtime \<Rightarrow> u64 option \<Rightarrow> u64 \<Rightarrow> json option \<Rightarrow> json option task" where
  "on_channel_pins_update R guild_id channel_id last_pin_timestamp =
     (let key = channel_key guild_id channel_id in
      and_then (cache_get (de_channel R) key) (\<lambda>channel.
        case channel of
          None \<Rightarrow> ok None
        | Some c \<Rightarrow>
            and_then (cache_set R (ser_channel R) key
                       (c\<lparr>ch_last_pin_timestamp := last_pin_timestamp\<rparr>))
              (\<lambda>_. ok None)))"

definition on_channel_update :: "config \<Rightarrow> runtime \<Rightarrow> channel \<Rightarrow> json option task" where
  "on_channel_update C R d =
     (let key = channel_key (ch_guild_id d) (ch_id d) in
      and_then (read_old C R key) (\<lambda>old.
        and_then (cache_set R (ser_channel R) key d) (\<lambda>_. ok old)))"

section \<open>Guilds\<close>

definition guild_items :: "config \<Rightarrow> u64 \<Rightarrow> guild \<Rightarrow> (string \<times> guild_item) list" where
  "guild_items C bot_id d =
     [(channel_key (Some (gd_id d)) (ch_id c), ChannelI (c\<lparr>ch_guild_id := Some (gd_id d)\<rparr>)).
        c \<leftarrow> gd_channels d] @
     [(role_key (gd_id d) (ro_id r), RoleI r). r \<leftarrow> gd_roles d] @
     [(emoji_key (gd_id d) (em_id e), EmojiI e). e \<leftarrow> gd_emojis d, state_emoji C] @
     [(voice_key (gd_id d) (vs_user_id v), VoiceI v). v \<leftarrow> gd_voice_states d, state_voice C] @
     [(member_key (gd_id d) (us_id (mb_user m)), MemberI m).
        m \<leftarrow> gd_members d, state_member C \<or> us_id (mb_user m) = bot_id] @
     [(presence_key (gd_id d) (pr_user_id p), PresenceI p).
        p \<leftarrow> gd_presences d, state_presence C] @
     [(guild_key (gd_id d),
       GuildI (d\<lparr>gd_channels := [], gd_roles := [], gd_emojis := [], gd_voice_states := [],
                gd_members := [], gd_presences := []\<rparr>))]"

definition on_guild_create :: "config \<Rightarrow> runtime \<Rightarrow> u64 \<Rightarrow> guild \<Rightarrow> json option task" where
  "on_guild_create C R bot_id d =
     and_then (clear_guild R (gd_id d)) (\<lambda>old.
       and_then (set_all R (ser_item R) (guild_items C bot_id d)) (\<lambda>_.
         and_then (when_task (state_member C)
                    (expire_all R
                      (map (\<lambda>m. (member_key (gd_id d) (us_id (mb_user m)), state_member_ttl C))
                        (gd_members d))))
           (\<lambda>_. ok old)))"

definition on_guild_delete :: "runtime \<Rightarrow> u64 \<Rightarrow> json option task" where
  "on_guild_delete R guild_id = clear_guild R guild_id"

definition on_guild_emojis_update ::
  "config \<Rightarrow> runtime \<Rightarrow> u64 \<Rightarrow> emoji list \<Rightarrow> json option task" where
  "on_guild_emojis_update C R guild_id es =
     (if state_emoji C then
        and_then (get_members (GUILD_KEY @ KEYS_SUFFIX @ '':'' @ show_u64 guild_id)) (\<lambda>keys.
          let emoji_keys = filter (\<lambda>key. kind_of key = EMOJI_KEY) keys in
          and_then (cache_get_all (de_emoji R) emoji_keys) (\<lambda>found.
            let emojis = flatten_options found in
            and_then (del_all R
                (map (\<lambda>emoji. emoji_key guild_id (em_id emoji))
                  (filter (\<lambda>emoji. \<not> list_ex (\<lambda>e. em_id e = em_id emoji) es) emojis))) (\<lambda>_.
              and_then (set_all R (ser_emoji R)
                  (map (\<lambda>emoji. (emoji_key guild_id (em_id emoji), emoji)) es)) (\<lambda>_.
                value_old C R (ser_emojis R) emojis))))
      else ok None)"

definition on_guild_update :: "config \<Rightarrow> runtime \<Rightarrow> partial_guild \<Rightarrow> json option task" where
  "on_guild_update C R d =
     (let key = guild_key (pg_id d) in
      and_then (read_old C R key) (\<lambda>old.
        and_then (cache_set R (ser_partial_guild R) key d) (\<lambda>_. ok old)))"

definition on_unavailable_guild :: "runtime \<Rightarrow> unavailable_guild \<Rightarrow> json option task" where
  "on_unavailable_guild R d =
     and_then (clear_guild R (ug_id d)) (\<lambda>old.
       and_then (cache_set R (ser_unavailable R) (guild_key (ug_id d)) d) (\<lambda>_. ok old))"

section \<open>Members\<close>

definition on_member_add :: "config \<Rightarrow> runtime \<Rightarrow> member \<Rightarrow> json option task" where
  "on_member_add C R d =
     (if state_member C then
        (let key = member_key (mb_guild_id d) (us_id (mb_user d)) in
         and_then (cache_set R (ser_member R) key d) (\<lambda>_.
           and_then (expire R key (state_member_ttl C)) (\<lambda>_. ok None)))
      else ok None)"

definition on_member_remove :: "config \<Rightarrow> runtime \<Rightarrow> u64 \<Rightarrow> user \<Rightarrow> json option task" where
  "on_member_remove C R guild_id u =
     and_then
       (if state_member C then
          (let key = member_key guild_id (us_id u) in
           and_then (read_old C R key) (\<lambda>old.
             and_then (cache_del R key) (\<lambda>_. ok old)))
        else ok None) (\<lambda>old.
       and_then (when_task (state_presence C) (cache_del R (presence_key guild_id (us_id u))))
         (\<lambda>_. ok old))"

definition merge_member :: "member_update \<Rightarrow> member \<Rightarrow> member" where
  "merge_member d m =
     m\<lparr>mb_joined_at := mbu_joined_at d, mb_nick := mbu_nick d,
       mb_premium_since := mbu_premium_since d, mb_roles := mbu_roles d, mb_user := mbu_user d\<rparr>"

definition on_member_update ::
  "config \<Rightarrow> runtime \<Rightarrow> u64 \<Rightarrow> member_update \<Rightarrow> json option task" where
  "on_member_update C R bot_id d =
     (if state_member C \<or> us_id (mbu_user d) = bot_id then
        (let key = member_key (mbu_guild_id d) (us_id (mbu_user d)) in
         and_then (cache_get (de_member R) key) (\<lambda>found.
           case found of
             None \<Rightarrow> ok None
           | Some m \<Rightarrow>
               and_then (value_old C R (ser_member R) m) (\<lambda>old.
                 and_then (cache_set R (ser_member R) key (merge_member d m)) (\<lambda>_.
                   and_then (expire R key (state_member_ttl C)) (\<lambda>_. ok old)))))
      else ok None)"

definition on_member_chunk ::
  "config \<Rightarrow> runtime \<Rightarrow> u64 \<Rightarrow> member list \<Rightarrow> json option task" where
  "on_member_chunk C R guild_id ms =
     (if state_member C then
        and_then (set_all R (ser_member R)
            (map (\<lambda>m. (member_key guild_id (us_id (mb_user m)), m)) ms)) (\<lambda>_.
          and_then (expire_all R
              (map (\<lambda>m. (member_key guild_id (us_id (mb_user m)), state_member_ttl C)) ms))
            (\<lambda>_. ok None))
      else ok None)"

section \<open>Messages\<close>

definition on_message_create :: "config \<Rightarrow> runtime \<Rightarrow> message \<Rightarrow> json option task" where
  "on_message_create C R d =
     (if state_message C then
        (let key = message_key (ms_channel_id d) (ms_id d) in
         and_then (cache_set R (ser_message R) key d) (\<lambda>_.
           and_then (expire R key (state_message_ttl C)) (\<lambda>_. ok None)))
      else ok None)"

definition on_message_delete :: "config \<Rightarrow> runtime \<Rightarrow> u64 \<Rightarrow> u64 \<Rightarrow> json option task" where
  "on_message_delete C R channel_id msg_id =
     (if state_message C then
        (let key = message_key channel_id msg_id in
         and_then (read_old C R key) (\<lambda>old.
           and_then (cache_del R key) (\<lambda>_. ok old)))
      else ok None)"

definition on_message_delete_bulk ::
  "config \<Rightarrow> runtime \<Rightarrow> u64 \<Rightarrow> u64 list \<Rightarrow> json option task" where
  "on_message_delete_bulk C R channel_id ids =
     (if state_message C then
        (let message_keys = map (\<lambda>msg_id. message_key channel_id msg_id) ids in
         and_then (cache_get_all (de_message R) message_keys) (\<lambda>found.
           let messages = flatten_options found in
           and_then (del_all R message_keys) (\<lambda>_.
             value_old C R (ser_messages R) messages)))
      else ok None)"

definition assign_some :: "'a option \<Rightarrow> ('a \<Rightarrow> 'r \<Rightarrow> 'r) \<Rightarrow> 'r \<Rightarrow> 'r" where
  "assign_some x f r = (case x of Some a \<Rightarrow> f a r | None \<Rightarrow> r)"

definition merge_message :: "message_update \<Rightarrow> message \<Rightarrow> message" where
  "merge_message d m =
     (let m = assign_some (mu_attachments d) (\<lambda>x m. m\<lparr>ms_attachments := x\<rparr>) m;
          m = assign_some (mu_content d) (\<lambda>x m. m\<lparr>ms_content := x\<rparr>) m;
          m = assign_some (mu_edited_timestamp d) (\<lambda>x m. m\<lparr>ms_edited_timestamp := Some x\<rparr>) m;
          m = assign_some (mu_embeds d) (\<lambda>x m. m\<lparr>ms_embeds := x\<rparr>) m;
          m = assign_some (mu_mention_everyone d) (\<lambda>x m. m\<lparr>ms_mention_everyone := x\<rparr>) m;
          m = assign_some (mu_mention_roles d) (\<lambda>x m. m\<lparr>ms_mention_roles := x\<rparr>) m;
          m = assign_some (mu_mentions d) (\<lambda>x m. m\<lparr>ms_mentions := x\<rparr>) m;
          m = assign_some (mu_pinned d) (\<lambda>x m. m\<lparr>ms_pinned := x\<rparr>) m;
          m = assign_some (mu_timestamp d) (\<lambda>x m. m\<lparr>ms_timestamp := x\<rparr>) m
      in assign_some (mu_tts d) (\<lambda>x m. m\<lparr>ms_tts := x\<rparr>) m)"

definition on_message_update ::
  "config \<Rightarrow> runtime \<Rightarrow> message_update \<Rightarrow> json option task" where
  "on_message_update C R d =
     (if state_message C then
        (let key = message_key (mu_channel_id d) (mu_id d) in
         and_then (cache_get (de_message R) key) (\<lambda>found.
           case found of
             None \<Rightarrow> ok None
           | Some m \<Rightarrow>
               and_then (value_old C R (ser_message R) m) (\<lambda>old.
                 and_then (cache_set R (ser_message R) key (merge_message d m)) (\<lambda>_.
                   and_then (expire R key (state_message_ttl C)) (\<lambda>_. ok old)))))
      else ok None)"

section \<open>The other events\<close>

definition on_presence_update :: "config \<Rightarrow> runtime \<Rightarrow> presence \<Rightarrow> json option task" where
  "on_presence_update C R d =
     (if state_presence C then
        (let key = presence_key (pr_guild_id d) (pr_user_id d) in
         and_then (read_old C R key) (\<lambda>old.
           and_then (cache_set R (ser_presence R) key d) (\<lambda>_. ok old)))
      else ok None)"

definition on_ready ::
  "runtime \<Rightarrow> user \<Rightarrow> unavailable_guild list \<Rightarrow> json option task" where
  "on_ready R u guilds =
     and_then (cache_set R (ser_user R) BOT_USER_KEY u) (\<lambda>_.
       and_then (set_all R (ser_unavailable R) (map (\<lambda>g. (guild_key (ug_id g), g)) guilds))
         (\<lambda>_. ok None))"

definition on_role_create :: "runtime \<Rightarrow> u64 \<Rightarrow> role \<Rightarrow> json option task" where
  "on_role_create R guild_id r =
     and_then (cache_set R (ser_role R) (role_key guild_id (ro_id r)) r) (\<lambda>_. ok None)"

definition on_role_delete :: "config \<Rightarrow> runtime \<Rightarrow> u64 \<Rightarrow> u64 \<Rightarrow> json option task" where
  "on_role_delete C R guild_id role_id =
     (let key = role_key guild_id role_id in
      and_then (read_old C R key) (\<lambda>old.
        and_then (cache_del R key) (\<lambda>_. ok old)))"

definition on_role_update :: "config \<Rightarrow> runtime \<Rightarrow> u64 \<Rightarrow> role \<Rightarrow> json option task" where
  "on_role_update C R guild_id r =
     (let key = role_key guild_id (ro_id r) in
      and_then (read_old C R key) (\<lambda>old.
        and_then (cache_set R (ser_role R) key r) (\<lambda>_. ok old)))"

definition on_user_update :: "config \<Rightarrow> runtime \<Rightarrow> user \<Rightarrow> json option task" where
  "on_user_update C R d =
     and_then (read_old C R BOT_USER_KEY) (\<lambda>old.
       and_then (cache_set R (ser_user R) BOT_USER_KEY d) (\<lambda>_. ok old))"

definition on_voice_state_update ::
  "config \<Rightarrow> runtime \<Rightarrow> voice_state \<Rightarrow> json option task" where
  "on_voice_state_update C R d =
     (if state_voice C then
        (case vs_guild_id d of
           None \<Rightarrow> ok None
         | Some guild_id \<Rightarrow>
             (let key = voice_key guild_id (vs_user_id d) in
              and_then (read_old C R key) (\<lambda>old.
                and_then
                  (case vs_channel_id d of
                     Some _ \<Rightarrow> cache_set R (ser_voice R) key d
                   | None \<Rightarrow> cache_del R key)
                  (\<lambda>_. ok old))))
      else ok None)"

section \<open>\<open>update\<close>\<close>

fun update :: "config \<Rightarrow> runtime \<Rightarrow> u64 \<Rightarrow> event \<Rightarrow> json option task" where
  "update C R bot_id (ChannelCreate d) = on_channel_create R d"
| "update C R bot_id (ChannelDelete d) = on_channel_delete C R d"
| "update C R bot_id (ChannelPinsUpdate g c t) = on_channel_pins_update R g c t"
| "update C R bot_id (ChannelUpdate d) = on_channel_update C R d"
| "update C R bot_id (GuildCreate d) = on_guild_create C R bot_id d"
| "update C R bot_id (GuildDelete g unavailable) = on_guild_delete R g"
| "update C R bot_id (GuildEmojisUpdate g es) = on_guild_emojis_update C R g es"
| "update C R bot_id (GuildUpdate d) = on_guild_update C R d"
| "update C R bot_id (MemberAdd d) = on_member_add C R d"
| "update C R bot_id (MemberRemove g u) = on_member_remove C R g u"
| "update C R bot_id (MemberUpdate d) = on_member_update C R bot_id d"
| "update C R bot_id (MemberChunk g ms) = on_member_chunk C R g ms"
| "update C R bot_id (MessageCreate d) = on_message_create C R d"
| "update C R bot_id (MessageDelete c i) = on_message_delete C R c i"
| "update C R bot_id (MessageDeleteBulk c ids) = on_message_delete_bulk C R c ids"
| "update C R bot_id (MessageUpdate d) = on_message_update C R d"
| "update C R bot_id (PresenceUpdate d) = on_presence_update C R d"
| "update C R bot_id (Ready u gs session) = on_ready R u gs"
| "update C R bot_id (RoleCreate g r) = on_role_create R g r"
| "update C R bot_id (RoleDelete g r) = on_role_delete C R g r"
| "update C R bot_id (RoleUpdate g r) = on_role_update C R g r"
| "update C R bot_id (UnavailableGuild d) = on_unavailable_guild R d"
| "update C R bot_id (UserUpdate d) = on_user_update C R d"
| "update C R bot_id (VoiceStateUpdate d) = on_voice_state_update C R d"
| "update C R bot_id _ = ok None"

end
