(* ===== verification/UpdateInv.thy ===== *)
theory UpdateInv
  imports Update
begin

text \<open>
  What every event keeps. \<open>touches ev k\<close>: the keys whose objects the event may store or
  remove; \<open>doc_of R k s\<close>: the text \<open>s\<close> is a serialised object of the type that belongs at
  \<open>k\<close>. In the locale \<open>keyspace_invariant\<close>, \<open>update\<close> keeps any property that is kept by
  storing documents at, and removing, the keys it touches; on a server that is up it also ends
  in \<open>Ok\<close>. The interpretations give the invariant of the cache, that stored documents have
  the type of their key, and the frame.
\<close>

section \<open>Documents and the foreign functions\<close>

definition doc_of :: "runtime \<Rightarrow> string \<Rightarrow> string \<Rightarrow> bool" where
  "doc_of R k s \<longleftrightarrow>
     (if kind_of k = GUILD_KEY then (\<exists>x. ser_guild R x = Inr s) \<or>
        (\<exists>x. ser_partial_guild R x = Inr s) \<or> (\<exists>x. ser_unavailable R x = Inr s)
      else if kind_of k = CHANNEL_KEY then \<exists>x. ser_channel R x = Inr s
      else if kind_of k = MESSAGE_KEY then \<exists>x. ser_message R x = Inr s
      else if kind_of k = ROLE_KEY then \<exists>x. ser_role R x = Inr s
      else if kind_of k = EMOJI_KEY then \<exists>x. ser_emoji R x = Inr s
      else if kind_of k = MEMBER_KEY then \<exists>x. ser_member R x = Inr s
      else if kind_of k = PRESENCE_KEY then \<exists>x. ser_presence R x = Inr s
      else if kind_of k = VOICE_KEY then \<exists>x. ser_voice R x = Inr s
      else k = BOT_USER_KEY \<and> (\<exists>x. ser_user R x = Inr s))"

definition cached :: "string \<Rightarrow> bool" where
  "cached k \<longleftrightarrow> kind_of k \<in> kinds \<or> k = BOT_USER_KEY"

definition docs :: "runtime \<Rightarrow> keyspace \<Rightarrow> bool" where
  "docs R ks \<longleftrightarrow> (\<forall>k s. cached k \<longrightarrow> ks k = Some (RStr s) \<longrightarrow> doc_of R k s)"

text \<open>
  What the code relies on of the foreign functions: the types serialise, what was serialised
  parses as a JSON value and as its own type, and the ends of the configured times to live are
  dates.
\<close>

definition parses :: "runtime \<Rightarrow> 'a ser \<Rightarrow> bool" where
  "parses R ser \<longleftrightarrow> (\<forall>x. \<exists>s v. ser x = Inr s \<and> de_value R s = Inr v)"

definition serde_ok :: "runtime \<Rightarrow> bool" where
  "serde_ok R \<longleftrightarrow>
     parses R (ser_channel R) \<and> parses R (ser_role R) \<and> parses R (ser_emoji R) \<and>
     parses R (ser_emojis R) \<and> parses R (ser_voice R) \<and> parses R (ser_member R) \<and>
     parses R (ser_presence R) \<and> parses R (ser_message R) \<and> parses R (ser_messages R) \<and>
     parses R (ser_guild R) \<and> parses R (ser_partial_guild R) \<and> parses R (ser_unavailable R) \<and>
     parses R (ser_user R) \<and>
     (\<forall>x s. ser_channel R x = Inr s \<longrightarrow> (\<exists>y. de_channel R s = Inr y)) \<and>
     (\<forall>x s. ser_emoji R x = Inr s \<longrightarrow> (\<exists>y. de_emoji R s = Inr y)) \<and>
     (\<forall>x s. ser_member R x = Inr s \<longrightarrow> (\<exists>y. de_member R s = Inr y)) \<and>
     (\<forall>x s. ser_message R x = Inr s \<longrightarrow> (\<exists>y. de_message R s = Inr y))"

definition runtime_ok :: "config \<Rightarrow> runtime \<Rightarrow> bool" where
  "runtime_ok C R \<longleftrightarrow> visits_once (hash_order R) \<and> serde_ok R \<and>
     clock_total R (state_member_ttl C) \<and> clock_total R (state_message_ttl C)"

lemma parsesD: "parses R ser \<Longrightarrow> \<exists>s. ser x = Inr s" "parses R ser \<Longrightarrow> \<exists>v. to_value R ser x = Ok v"
  by (force simp: parses_def to_value_def split: sum.split dest: spec [of _ x])+

lemma serde_parses:
  assumes "serde_ok R"
  shows "parses R (ser_channel R)" "parses R (ser_role R)" "parses R (ser_emoji R)"
    "parses R (ser_emojis R)" "parses R (ser_voice R)" "parses R (ser_member R)"
    "parses R (ser_presence R)" "parses R (ser_message R)" "parses R (ser_messages R)"
    "parses R (ser_guild R)" "parses R (ser_partial_guild R)" "parses R (ser_unavailable R)"
    "parses R (ser_user R)"
  using assms by (simp_all add: serde_ok_def)

lemma ser_item_total: "serde_ok R \<Longrightarrow> \<exists>s. ser_item R x = Inr s"
  by (cases x) (auto intro: parsesD(1) serde_parses)

lemma parses_value: "parses R ser \<Longrightarrow> ser x = Inr s \<Longrightarrow> \<exists>v. de_value R s = Inr v"
  by (metis parses_def sum.inject(2))

lemma serde_typed:
  assumes "serde_ok R"
  shows "ser_channel R c = Inr s \<Longrightarrow> \<exists>x. de_channel R s = Inr x"
    "ser_emoji R e = Inr s \<Longrightarrow> \<exists>x. de_emoji R s = Inr x"
    "ser_member R m = Inr s \<Longrightarrow> \<exists>x. de_member R s = Inr x"
    "ser_message R g = Inr s \<Longrightarrow> \<exists>x. de_message R s = Inr x"
  using assms by (simp_all add: serde_ok_def)

lemma docsD: "docs R ks \<Longrightarrow> cached k \<Longrightarrow> ks k = Some (RStr s) \<Longrightarrow> doc_of R k s"
  by (simp add: docs_def)

text \<open>A stored document parses, as a JSON value and as the type of its key.\<close>

lemma doc_of_value:
  assumes R: "serde_ok R" and doc: "doc_of R k s"
  shows "\<exists>v. de_value R s = Inr v"
  using doc unfolding doc_of_def
  by (auto split: if_splits intro: parses_value serde_parses [OF R])

lemma doc_of_typed:
  assumes R: "serde_ok R" and doc: "doc_of R k s"
  shows "kind_of k = CHANNEL_KEY \<Longrightarrow> \<exists>x. de_channel R s = Inr x"
    "kind_of k = EMOJI_KEY \<Longrightarrow> \<exists>x. de_emoji R s = Inr x"
    "kind_of k = MEMBER_KEY \<Longrightarrow> \<exists>x. de_member R s = Inr x"
    "kind_of k = MESSAGE_KEY \<Longrightarrow> \<exists>x. de_message R s = Inr x"
  using doc serde_typed [OF R] by (auto simp: doc_of_def)

section \<open>What an event touches\<close>

definition guild_scope :: "u64 \<Rightarrow> string \<Rightarrow> bool" where
  "guild_scope g k \<longleftrightarrow>
     k = guild_key g \<or> kind_of k = CHANNEL_KEY \<or>
     kind_of k \<in> kinds \<and> kind_of k \<noteq> MESSAGE_KEY \<and> length (parts_of k) > 2 \<and> parts_of k ! 1 = show_u64 g"

fun touches :: "event \<Rightarrow> string \<Rightarrow> bool" where
  "touches (ChannelCreate d) k \<longleftrightarrow> k = channel_key (ch_guild_id d) (ch_id d)"
| "touches (ChannelDelete d) k \<longleftrightarrow> k = channel_key (ch_guild_id d) (ch_id d)"
| "touches (ChannelPinsUpdate g c t) k \<longleftrightarrow> k = channel_key g c"
| "touches (ChannelUpdate d) k \<longleftrightarrow> k = channel_key (ch_guild_id d) (ch_id d)"
| "touches (GuildCreate d) k \<longleftrightarrow> guild_scope (gd_id d) k"
| "touches (GuildDelete g u) k \<longleftrightarrow> guild_scope g k"
| "touches (GuildEmojisUpdate g es) k \<longleftrightarrow> (\<exists>e. k = emoji_key g e)"
| "touches (GuildUpdate d) k \<longleftrightarrow> k = guild_key (pg_id d)"
| "touches (MemberAdd d) k \<longleftrightarrow> k = member_key (mb_guild_id d) (us_id (mb_user d))"
| "touches (MemberRemove g u) k \<longleftrightarrow> k = member_key g (us_id u) \<or> k = presence_key g (us_id u)"
| "touches (MemberUpdate d) k \<longleftrightarrow> k = member_key (mbu_guild_id d) (us_id (mbu_user d))"
| "touches (MemberChunk g ms) k \<longleftrightarrow> (\<exists>m \<in> set ms. k = member_key g (us_id (mb_user m)))"
| "touches (MessageCreate d) k \<longleftrightarrow> k = message_key (ms_channel_id d) (ms_id d)"
| "touches (MessageDelete c m) k \<longleftrightarrow> k = message_key c m"
| "touches (MessageDeleteBulk c ms) k \<longleftrightarrow> (\<exists>m \<in> set ms. k = message_key c m)"
| "touches (MessageUpdate d) k \<longleftrightarrow> k = message_key (mu_channel_id d) (mu_id d)"
| "touches (PresenceUpdate d) k \<longleftrightarrow> k = presence_key (pr_guild_id d) (pr_user_id d)"
| "touches (Ready u gs session) k \<longleftrightarrow> k = BOT_USER_KEY \<or> (\<exists>g \<in> set gs. k = guild_key (ug_id g))"
| "touches (RoleCreate g r) k \<longleftrightarrow> k = role_key g (ro_id r)"
| "touches (RoleDelete g r) k \<longleftrightarrow> k = role_key g r"
| "touches (RoleUpdate g r) k \<longleftrightarrow> k = role_key g (ro_id r)"
| "touches (UnavailableGuild d) k \<longleftrightarrow> guild_scope (ug_id d) k"
| "touches (UserUpdate d) k \<longleftrightarrow> k = BOT_USER_KEY"
| "touches (VoiceStateUpdate d) k \<longleftrightarrow> (\<exists>g. vs_guild_id d = Some g \<and> k = voice_key g (vs_user_id d))"
| "touches _ k \<longleftrightarrow> False"

text \<open>
  The keys at which the event may store an object: those it touches, of the enabled kinds, and
  for a whole guild those of its items.
\<close>

fun stores :: "config \<Rightarrow> u64 \<Rightarrow> event \<Rightarrow> string \<Rightarrow> bool" where
  "stores C b (GuildCreate d) k \<longleftrightarrow> k \<in> fst ` set (guild_items C b d)"
| "stores C b (GuildEmojisUpdate g es) k \<longleftrightarrow> state_emoji C \<and> (\<exists>e. k = emoji_key g e)"
| "stores C b (MemberAdd d) k \<longleftrightarrow> state_member C \<and> touches (MemberAdd d) k"
| "stores C b (MemberUpdate d) k \<longleftrightarrow>
     (state_member C \<or> us_id (mbu_user d) = b) \<and> touches (MemberUpdate d) k"
| "stores C b (MemberChunk g ms) k \<longleftrightarrow> state_member C \<and> touches (MemberChunk g ms) k"
| "stores C b (MessageCreate d) k \<longleftrightarrow> state_message C \<and> touches (MessageCreate d) k"
| "stores C b (MessageUpdate d) k \<longleftrightarrow> state_message C \<and> touches (MessageUpdate d) k"
| "stores C b (PresenceUpdate d) k \<longleftrightarrow> state_presence C \<and> touches (PresenceUpdate d) k"
| "stores C b (VoiceStateUpdate d) k \<longleftrightarrow> state_voice C \<and> touches (VoiceStateUpdate d) k"
| "stores C b (UnavailableGuild d) k \<longleftrightarrow> k = guild_key (ug_id d)"
| "stores C b (ChannelDelete d) k \<longleftrightarrow> False"
| "stores C b (GuildDelete g u) k \<longleftrightarrow> False"
| "stores C b (MemberRemove g u) k \<longleftrightarrow> False"
| "stores C b (MessageDelete c m) k \<longleftrightarrow> False"
| "stores C b (MessageDeleteBulk c ms) k \<longleftrightarrow> False"
| "stores C b (RoleDelete g r) k \<longleftrightarrow> False"
| "stores C b ev k \<longleftrightarrow> touches ev k"

lemma kind_channel_key [simp]: "kind_of (channel_key g c) = CHANNEL_KEY"
  by (simp add: channel_key_def kind_of_def key_simps split: option.split)

lemma kind_of_keys [simp]:
  "kind_of (guild_key g) = GUILD_KEY" "kind_of (message_key a b) = MESSAGE_KEY"
  "kind_of (role_key a b) = ROLE_KEY" "kind_of (emoji_key a b) = EMOJI_KEY"
  "kind_of (member_key a b) = MEMBER_KEY" "kind_of (presence_key a b) = PRESENCE_KEY"
  "kind_of (voice_key a b) = VOICE_KEY" "kind_of BOT_USER_KEY = BOT_USER_KEY"
  by (simp_all add: kind_of_def key_simps)

lemma expiring_keys [simp]: "expiring (member_key a b)" "expiring (message_key a b)"
  by (simp_all add: expiring_def)

lemma bot_user_plain [simp]: "BOT_USER_KEY \<notin> kinds" "object_key BOT_USER_KEY"
  by (auto simp: object_key_def kinds_def kind_defs plain_defs parts_of_def split_on_no_sep
      idx_key_def kind_of_def EXPIRY_KEYS_def KEYS_SUFFIX_def)

lemma cached_keys [simp]: "kind_of k \<in> kinds \<Longrightarrow> cached k" "cached BOT_USER_KEY"
  by (simp_all add: cached_def)

lemma idx_guild_index [simp]: "idx_key (GUILD_KEY @ KEYS_SUFFIX @ CHR '':'' # s)"
  using idx_scope_index [of GUILD_KEY s] by (simp add: scope_index_def)

lemma string_at_Some [simp]: "string_at ks k = Some s \<longleftrightarrow> ks k = Some (RStr s)"
  by (auto simp: string_at_def split: option.splits rval.splits)

lemma string_at_Some' [simp]: "Some s = string_at ks k \<longleftrightarrow> ks k = Some (RStr s)"
  by (subst eq_commute) (rule string_at_Some)

lemma guild_scope_keys [simp]:
  "guild_scope g (guild_key g)" "guild_scope g (channel_key h c)" "guild_scope g (role_key g r)"
  "guild_scope g (emoji_key g e)" "guild_scope g (member_key g m)" "guild_scope g (presence_key g m)"
  "guild_scope g (voice_key g m)"
  by (simp_all add: guild_scope_def key_simps)

lemma doc_ofI:
  "ser_channel R c = Inr s \<Longrightarrow> doc_of R (channel_key go i) s"
  "ser_message R m = Inr s \<Longrightarrow> doc_of R (message_key g i) s"
  "ser_role R r = Inr s \<Longrightarrow> doc_of R (role_key g i) s"
  "ser_emoji R e = Inr s \<Longrightarrow> doc_of R (emoji_key g i) s"
  "ser_member R mb = Inr s \<Longrightarrow> doc_of R (member_key g i) s"
  "ser_presence R p = Inr s \<Longrightarrow> doc_of R (presence_key g i) s"
  "ser_voice R v = Inr s \<Longrightarrow> doc_of R (voice_key g i) s"
  "ser_partial_guild R pg = Inr s \<Longrightarrow> doc_of R (guild_key i) s"
  "ser_unavailable R ug = Inr s \<Longrightarrow> doc_of R (guild_key i) s"
  "ser_user R u = Inr s \<Longrightarrow> doc_of R BOT_USER_KEY s"
  by (auto simp: doc_of_def)

lemma guild_items_scope:
  "\<forall>(k, i) \<in> set (guild_items C b d). object_key k \<and> guild_scope (gd_id d) k \<and>
     (\<forall>s. ser_item R i = Inr s \<longrightarrow> doc_of R k s)"
  by (auto simp: guild_items_def doc_of_def split: if_splits)

section \<open>Every event keeps what its stores and removals keep\<close>

definition admissible :: "bool \<Rightarrow> config \<Rightarrow> runtime \<Rightarrow> (keyspace \<Rightarrow> bool) \<Rightarrow> bool" where
  "admissible up C R J \<longleftrightarrow>
     visits_once (hash_order R) \<and> (up \<longrightarrow> runtime_ok C R \<and> (\<forall>ks. J ks \<longrightarrow> docs R ks))"

lemma admissible_order: "admissible up C R J \<Longrightarrow> visits_once (hash_order R)"
  by (simp add: admissible_def)

lemma admissible_up:
  assumes "admissible up C R J" "up"
  shows "serde_ok R" "J ks \<Longrightarrow> docs R ks" "clock_total R (state_member_ttl C)"
    "clock_total R (state_message_ttl C)"
  using assms by (simp_all add: admissible_def runtime_ok_def)

context keyspace_invariant
begin

lemma read_old_keeps:
  assumes adm: "admissible up C R J" and inv: "cache_inv ks" "J ks" and k: "cached k" "object_key k"
    and post: "\<And>old. P old ks"
  shows "achieves up (read_old C R k) P ks"
proof -
  have "up \<Longrightarrow> ks k = Some (RStr s) \<Longrightarrow> \<exists>v. de_value R s = Inr v" for s
    using admissible_up [OF adm] inv k docsD doc_of_value by blast
  then show ?thesis
    using post well_typed_stringy [OF cache_inv_parts(1) [OF inv(1)] k(2)]
    by (auto simp: read_old_def wp_simps split: option.split sum.split)
qed

lemma value_old_keeps:
  assumes "up \<Longrightarrow> parses R ser" "\<And>old. P old ks"
  shows "achieves up (value_old C R ser x) P ks"
proof (cases "to_value R ser x")
  case (Ok v)
  with assms show ?thesis
    by (simp add: value_old_def wp_simps)
qed (use assms parsesD(2) [of R ser x] in \<open>auto simp: value_old_def wp_simps\<close>)

lemma cache_get_keeps:
  assumes inv: "cache_inv ks" and k: "object_key k"
    and "\<And>s. up \<Longrightarrow> ks k = Some (RStr s) \<Longrightarrow> \<exists>x. de s = Inr x"
    and "P None ks" "\<And>x. P (Some x) ks"
  shows "achieves up (cache_get de k) P ks"
  using assms well_typed_stringy [OF cache_inv_parts(1) [OF inv(1)] k]
  by (auto simp: wp_simps split: option.split sum.split)

text \<open>The keys of a guild's index belong to the guild's scope.\<close>

lemma guild_index_scope:
  assumes "cache_inv ks" "fset_of_list ms = set_at ks (GUILD_KEY @ KEYS_SUFFIX @ '':'' @ show_u64 g)"
  shows "\<forall>k \<in> set ms. object_key k \<and> guild_scope g k"
proof
  fix k
  assume "k \<in> set ms"
  then have "k |\<in>| set_at ks (scope_index GUILD_KEY (show_u64 g))"
    unfolding scope_index_def assms(2) [symmetric] by (simp add: fset_of_list_elem)
  note s = scope_soundD [OF cache_inv_parts(5) [OF assms(1)] _ this]
  then show "object_key k \<and> guild_scope g k"
    by (auto simp: guild_scope_def scope_kind_def split: if_splits)
qed

lemma clear_guild_keeps:
  assumes adm: "admissible up C R J" and inv: "cache_inv ks" "J ks"
    and D: "\<And>k. guild_scope g k \<Longrightarrow> D k"
    and post: "\<And>old ks'. cache_inv ks' \<Longrightarrow> J ks' \<Longrightarrow> P old ks'"
  shows "achieves up (clear_guild R g) P ks"
proof -
  note ho = admissible_order [OF adm]
  have del: "achieves up (cache_del R (guild_key g)) Q ks'"
    if "cache_inv ks'" "J ks'" "\<And>ks''. cache_inv ks'' \<Longrightarrow> J ks'' \<Longrightarrow> Q () ks''" for ks' Q
    using that ho D by (intro cache_del_keeps) (auto simp: guild_scope_def)
  have rest: "achieves up (then_result (cache_get (de_value R) (guild_key g)) (\<lambda>guild.
        case guild of
          Inr x \<Rightarrow> and_then (cache_del R (guild_key g)) (\<lambda>_. ok x)
        | Inl _ \<Rightarrow> ok None)) P ks'"
    if "cache_inv ks'" "J ks'" for ks'
    using that post
    by (auto simp: wp_cache_get wp_simps split: option.split sum.split intro!: del)
  show ?thesis
    unfolding clear_guild_def achieves_then_result [of _ up "get_members _"] wp_get_members
    using rest guild_index_scope [OF inv(1)] inv D
    by (auto simp: achieves_and_then achieves_Ok intro!: del_all_keeps ho)
qed

text \<open>The shapes of an arm: store one object or a batch, remove one.\<close>

lemma store_keeps:
  assumes "admissible up C R J" "cache_inv ks" "J ks" "object_key k" "up \<Longrightarrow> parses R ser"
    and "\<And>s. ser x = Inr s \<Longrightarrow> W k s" "\<And>ks'. cache_inv ks' \<Longrightarrow> J ks' \<Longrightarrow> P () ks'"
  shows "achieves up (cache_set R ser k x) P ks"
  by (rule cache_set_keeps) (use assms parsesD(1) admissible_order in auto)

lemma batch_keeps:
  assumes "admissible up C R J" "cache_inv ks" "J ks" "up \<Longrightarrow> parses R ser"
    and "\<forall>(k, x) \<in> set kvs. object_key k \<and> (\<forall>s. ser x = Inr s \<longrightarrow> W k s)"
    and "\<And>ks'. cache_inv ks' \<Longrightarrow> J ks' \<Longrightarrow> P () ks'"
  shows "achieves up (set_all R ser kvs) P ks"
  by (rule set_all_keeps) (use assms parsesD(1) admissible_order in auto)

lemma remove_keeps:
  assumes "admissible up C R J" "cache_inv ks" "J ks" "object_key k" "D k"
    and "\<And>ks'. cache_inv ks' \<Longrightarrow> J ks' \<Longrightarrow> P () ks'"
  shows "achieves up (cache_del R k) P ks"
  by (rule cache_del_keeps) (use assms admissible_order in auto)

text \<open>
  In each lemma below \<open>J\<close> holds before the event, documents may be stored at the keys the
  event touches and these keys may be removed; \<open>J\<close> holds after it.
\<close>

lemma channel_events_keep:
  assumes adm: "admissible up C R J" and inv: "cache_inv ks" "J ks"
    and W: "\<And>s. doc_of R (channel_key g c) s \<Longrightarrow> W (channel_key g c) s"
  shows channel_create_keeps: "ch_guild_id d = g \<Longrightarrow> ch_id d = c \<Longrightarrow>
      achieves up (on_channel_create R d) (\<lambda>_ ks. cache_inv ks \<and> J ks) ks"
    and channel_update_keeps: "ch_guild_id d = g \<Longrightarrow> ch_id d = c \<Longrightarrow>
      achieves up (on_channel_update C R d) (\<lambda>_ ks. cache_inv ks \<and> J ks) ks"
    and channel_pins_keeps:
      "achieves up (on_channel_pins_update R g c t) (\<lambda>_ ks. cache_inv ks \<and> J ks) ks"
proof -
  have set: "achieves up (cache_set R (ser_channel R) (channel_key g c) x)
      (\<lambda>_ ks. cache_inv ks \<and> J ks) ks" for x
    using admissible_up(1) [OF adm]
    by (intro store_keeps [OF adm inv]) (auto intro!: W serde_parses simp: doc_of_def)
  note old = read_old_keeps [OF adm inv, of "channel_key g c"]
  show "ch_guild_id d = g \<Longrightarrow> ch_id d = c \<Longrightarrow>
      achieves up (on_channel_create R d) (\<lambda>_ ks. cache_inv ks \<and> J ks) ks"
    using set by (simp add: on_channel_create_def achieves_and_then achieves_Ok)
  show "ch_guild_id d = g \<Longrightarrow> ch_id d = c \<Longrightarrow>
      achieves up (on_channel_update C R d) (\<lambda>_ ks. cache_inv ks \<and> J ks) ks"
    using set by (simp add: on_channel_update_def Let_def achieves_and_then achieves_Ok old)
  show "achieves up (on_channel_pins_update R g c t) (\<lambda>_ ks. cache_inv ks \<and> J ks) ks"
    unfolding on_channel_pins_update_def Let_def achieves_and_then
  proof (rule cache_get_keeps [OF inv(1)])
    show "\<exists>x. de_channel R s = Inr x" if "up" "ks (channel_key g c) = Some (RStr s)" for s
      using that admissible_up [OF adm] inv docsD doc_of_typed(1)
      by (metis cached_keys(1) kind_channel_key kind_in_kinds(2))
  qed (use inv set in \<open>simp_all add: achieves_and_then achieves_Ok\<close>)
qed

lemma guild_create_keeps:
  assumes adm: "admissible up C R J" and inv: "cache_inv ks" "J ks"
    and W: "\<And>k s. k \<in> fst ` set (guild_items C b d) \<Longrightarrow> doc_of R k s \<Longrightarrow> W k s"
    and D: "\<And>k. guild_scope (gd_id d) k \<Longrightarrow> D k"
  shows "achieves up (on_guild_create C R b d) (\<lambda>_ ks. cache_inv ks \<and> J ks) ks"
  unfolding on_guild_create_def achieves_and_then achieves_Ok achieves_when
proof (rule clear_guild_keeps [OF adm inv D])
  fix ks1
  assume inv1: "cache_inv ks1" "J ks1"
  show "achieves up (set_all R (ser_item R) (guild_items C b d)) (\<lambda>_ ks. if state_member C
      then achieves up (expire_all R
             (map (\<lambda>m. (member_key (gd_id d) (us_id (mb_user m)), state_member_ttl C)) (gd_members d)))
             (\<lambda>_ ks. cache_inv ks \<and> J ks) ks
      else cache_inv ks \<and> J ks) ks1"
  proof (rule set_all_keeps [OF admissible_order [OF adm] inv1])
    show "\<forall>(k, v)\<in>set (guild_items C b d). object_key k \<and> (\<forall>s. ser_item R v = Inr s \<longrightarrow> W k s)"
      using guild_items_scope [of C b d R] by (fastforce intro!: W intro: rev_image_eqI)
    show "up \<Longrightarrow> \<forall>(k, v)\<in>set (guild_items C b d). \<exists>s. ser_item R v = Inr s"
      using ser_item_total admissible_up(1) [OF adm] by auto
    show "if state_member C
      then achieves up (expire_all R
             (map (\<lambda>m. (member_key (gd_id d) (us_id (mb_user m)), state_member_ttl C)) (gd_members d)))
             (\<lambda>_ ks. cache_inv ks \<and> J ks) ks2
      else cache_inv ks2 \<and> J ks2" if "cache_inv ks2" "J ks2" for ks2
      using that admissible_up(3) [OF adm] by (auto intro!: expire_all_keeps)
  qed
qed

lemma guild_delete_keeps:
  assumes "admissible up C R J" "cache_inv ks" "J ks" "\<And>k. guild_scope g k \<Longrightarrow> D k"
  shows "achieves up (on_guild_delete R g) (\<lambda>_ ks. cache_inv ks \<and> J ks) ks"
  unfolding on_guild_delete_def using assms by (intro clear_guild_keeps) auto

lemma unavailable_guild_keeps:
  assumes adm: "admissible up C R J" and inv: "cache_inv ks" "J ks"
    and W: "\<And>s. doc_of R (guild_key (ug_id d)) s \<Longrightarrow> W (guild_key (ug_id d)) s"
    and D: "\<And>k. guild_scope (ug_id d) k \<Longrightarrow> D k"
  shows "achieves up (on_unavailable_guild R d) (\<lambda>_ ks. cache_inv ks \<and> J ks) ks"
  unfolding on_unavailable_guild_def achieves_and_then achieves_Ok
  by (rule clear_guild_keeps [OF adm inv D])
    (use admissible_up(1) [OF adm] in
      \<open>auto intro!: store_keeps [OF adm] W serde_parses simp: doc_of_def\<close>)

text \<open>Reading an object, then storing another at its key, with an expiry or without.\<close>

lemma read_store_keeps:
  assumes "admissible up C R J" "cache_inv ks" "J ks" "cached k" "up \<Longrightarrow> parses R ser"
    and "\<And>s. ser x = Inr s \<Longrightarrow> W k s"
  shows "achieves up (and_then (read_old C R k) (\<lambda>old. and_then (cache_set R ser k x) (\<lambda>_. ok old)))
    (\<lambda>_ ks. cache_inv ks \<and> J ks) ks"
  unfolding achieves_and_then achieves_Ok
  using assms by (intro read_old_keeps store_keeps) (auto simp: cached_def)

lemma read_remove_keeps:
  assumes "admissible up C R J" "cache_inv ks" "J ks" "cached k" "D k"
  shows "achieves up (and_then (read_old C R k) (\<lambda>old. and_then (cache_del R k) (\<lambda>_. ok old)))
    (\<lambda>_ ks. cache_inv ks \<and> J ks) ks"
  unfolding achieves_and_then achieves_Ok
  using assms by (intro read_old_keeps remove_keeps) (auto simp: cached_def)

lemma store_expire_keeps:
  assumes "admissible up C R J" "cache_inv ks" "J ks" "expiring k" "up \<Longrightarrow> parses R ser"
    and "\<And>s. ser x = Inr s \<Longrightarrow> W k s" "up \<Longrightarrow> clock_total R ttl"
  shows "achieves up (and_then (cache_set R ser k x) (\<lambda>_. and_then (expire R k ttl) (\<lambda>_. ok old)))
    (\<lambda>_ ks. cache_inv ks \<and> J ks) ks"
  unfolding achieves_and_then achieves_Ok
  using assms by (intro store_keeps expire_keeps) auto

lemma merge_keeps:
  assumes adm: "admissible up C R J" and inv: "cache_inv ks" "J ks" and k: "expiring k"
    and de: "\<And>s. up \<Longrightarrow> ks k = Some (RStr s) \<Longrightarrow> \<exists>x. de s = Inr x"
    and ser: "up \<Longrightarrow> parses R ser" and W: "\<And>x s. ser x = Inr s \<Longrightarrow> W k s"
    and ttl: "up \<Longrightarrow> clock_total R ttl"
  shows "achieves up (and_then (cache_get de k) (\<lambda>found.
      case found of
        None \<Rightarrow> ok None
      | Some m \<Rightarrow>
          and_then (value_old C R ser m) (\<lambda>old.
            and_then (cache_set R ser k (upd m)) (\<lambda>_.
              and_then (expire R k ttl) (\<lambda>_. ok old))))) (\<lambda>_ ks. cache_inv ks \<and> J ks) ks"
  unfolding achieves_and_then [of _ up "cache_get _ _"]
proof (rule cache_get_keeps [OF inv(1) expiring_object [OF k] de])
  show "achieves up (case Some x of
        None \<Rightarrow> ok None
      | Some m \<Rightarrow>
          and_then (value_old C R ser m) (\<lambda>old.
            and_then (cache_set R ser k (upd m)) (\<lambda>_.
              and_then (expire R k ttl) (\<lambda>_. ok old)))) (\<lambda>_ ks. cache_inv ks \<and> J ks) ks" for x
    unfolding option.case achieves_and_then [of _ up "value_old _ _ _ _"]
    by (intro value_old_keeps store_expire_keeps [OF adm inv k ser _ ttl]) (auto intro: ser W)
qed (use inv in \<open>simp_all add: achieves_Ok\<close>)

lemma member_key_docs:
  assumes "admissible up C R J" "J ks" "up" "ks (member_key g u) = Some (RStr s)"
  shows "\<exists>x. de_member R s = Inr x"
  using admissible_up [OF assms(1,3)] assms(2,4) docsD doc_of_typed(3)
  by (metis cached_keys(1) kind_of_keys(5) kind_in_kinds(6))

lemma message_key_docs:
  assumes "admissible up C R J" "J ks" "up" "ks (message_key g u) = Some (RStr s)"
  shows "\<exists>x. de_message R s = Inr x"
  using admissible_up [OF assms(1,3)] assms(2,4) docsD doc_of_typed(4)
  by (metis cached_keys(1) kind_of_keys(2) kind_in_kinds(3))

lemma member_add_keeps:
  assumes adm: "admissible up C R J" and inv: "cache_inv ks" "J ks"
    and W: "\<And>s. state_member C \<Longrightarrow> doc_of R (member_key (mb_guild_id d) (us_id (mb_user d))) s \<Longrightarrow>
      W (member_key (mb_guild_id d) (us_id (mb_user d))) s"
  shows "achieves up (on_member_add C R d) (\<lambda>_ ks. cache_inv ks \<and> J ks) ks"
  using inv admissible_up(1,3) [OF adm] unfolding on_member_add_def Let_def
  by (auto simp: achieves_Ok intro!: store_expire_keeps [OF adm inv] W doc_ofI serde_parses)

lemma member_events_keep:
  assumes adm: "admissible up C R J" and inv: "cache_inv ks" "J ks"
    and W: "\<And>s. state_member C \<or> u = b \<Longrightarrow> doc_of R (member_key g u) s \<Longrightarrow> W (member_key g u) s"
  shows member_update_keeps: "mbu_guild_id e = g \<Longrightarrow> us_id (mbu_user e) = u \<Longrightarrow>
      achieves up (on_member_update C R b e) (\<lambda>_ ks. cache_inv ks \<and> J ks) ks"
proof -
  have ser: "up \<Longrightarrow> parses R (ser_member R)" and ttl: "up \<Longrightarrow> clock_total R (state_member_ttl C)"
    using admissible_up [OF adm] serde_parses by auto
  have doc: "ser_member R x = Inr s \<Longrightarrow> W (member_key g u) s" if "state_member C \<or> u = b" for x s
    by (intro W that) (auto simp: doc_of_def)
  have upd: "achieves up (and_then (cache_get (de_member R) (member_key g u)) (\<lambda>found.
      case found of
        None \<Rightarrow> ok None
      | Some x \<Rightarrow>
          and_then (value_old C R (ser_member R) x) (\<lambda>old.
            and_then (cache_set R (ser_member R) (member_key g u) (f x)) (\<lambda>_.
              and_then (expire R (member_key g u) (state_member_ttl C)) (\<lambda>_. ok old)))))
      (\<lambda>_ ks. cache_inv ks \<and> J ks) ks"
    if "state_member C \<or> u = b" for f
    by (intro merge_keeps [OF adm inv _ member_key_docs [OF adm inv(2)] ser doc [OF that] ttl]) simp
  show "mbu_guild_id e = g \<Longrightarrow> us_id (mbu_user e) = u \<Longrightarrow>
      achieves up (on_member_update C R b e) (\<lambda>_ ks. cache_inv ks \<and> J ks) ks"
    using inv upd by (cases "state_member C \<or> u = b") (simp_all add: on_member_update_def Let_def achieves_Ok)
qed

lemma member_chunk_keeps:
  assumes adm: "admissible up C R J" and inv: "cache_inv ks" "J ks"
    and W: "\<And>m s. state_member C \<Longrightarrow> m \<in> set ms \<Longrightarrow> doc_of R (member_key g (us_id (mb_user m))) s \<Longrightarrow>
      W (member_key g (us_id (mb_user m))) s"
  shows "achieves up (on_member_chunk C R g ms) (\<lambda>_ ks. cache_inv ks \<and> J ks) ks"
  using inv admissible_up(1,3) [OF adm]
  by (auto simp: on_member_chunk_def achieves_and_then achieves_Ok
      intro!: batch_keeps [OF adm inv] expire_all_keeps W doc_ofI serde_parses)

lemma message_events_keep:
  assumes adm: "admissible up C R J" and inv: "cache_inv ks" "J ks"
    and W: "\<And>s. state_message C \<Longrightarrow> doc_of R (message_key c m) s \<Longrightarrow> W (message_key c m) s"
  shows message_create_keeps: "ms_channel_id d = c \<Longrightarrow> ms_id d = m \<Longrightarrow>
      achieves up (on_message_create C R d) (\<lambda>_ ks. cache_inv ks \<and> J ks) ks"
    and message_update_keeps: "mu_channel_id e = c \<Longrightarrow> mu_id e = m \<Longrightarrow>
      achieves up (on_message_update C R e) (\<lambda>_ ks. cache_inv ks \<and> J ks) ks"
proof -
  have ser: "up \<Longrightarrow> parses R (ser_message R)" and ttl: "up \<Longrightarrow> clock_total R (state_message_ttl C)"
    using admissible_up [OF adm] serde_parses by auto
  have doc: "ser_message R x = Inr s \<Longrightarrow> W (message_key c m) s" if "state_message C" for x s
    by (intro W that doc_ofI)
  have create: "achieves up (and_then (cache_set R (ser_message R) (message_key c m) x) (\<lambda>_.
      and_then (expire R (message_key c m) (state_message_ttl C)) (\<lambda>_. ok old)))
      (\<lambda>_ ks. cache_inv ks \<and> J ks) ks" if "state_message C" for x old
    by (intro store_expire_keeps [OF adm inv _ ser doc [OF that] ttl]) simp
  show "ms_channel_id d = c \<Longrightarrow> ms_id d = m \<Longrightarrow>
      achieves up (on_message_create C R d) (\<lambda>_ ks. cache_inv ks \<and> J ks) ks"
    using inv create by (cases "state_message C") (simp_all add: on_message_create_def Let_def achieves_Ok)
  have upd: "achieves up (and_then (cache_get (de_message R) (message_key c m)) (\<lambda>found.
      case found of
        None \<Rightarrow> ok None
      | Some x \<Rightarrow>
          and_then (value_old C R (ser_message R) x) (\<lambda>old.
            and_then (cache_set R (ser_message R) (message_key c m) (f x)) (\<lambda>_.
              and_then (expire R (message_key c m) (state_message_ttl C)) (\<lambda>_. ok old)))))
      (\<lambda>_ ks. cache_inv ks \<and> J ks) ks"
    if "state_message C" for f
    by (intro merge_keeps [OF adm inv _ message_key_docs [OF adm inv(2)] ser doc [OF that] ttl]) simp
  show "mu_channel_id e = c \<Longrightarrow> mu_id e = m \<Longrightarrow>
      achieves up (on_message_update C R e) (\<lambda>_ ks. cache_inv ks \<and> J ks) ks"
    using inv upd by (cases "state_message C") (simp_all add: on_message_update_def Let_def achieves_Ok)
qed

lemma message_bulk_keeps:
  assumes adm: "admissible up C R J" and inv: "cache_inv ks" "J ks"
    and D: "\<And>m. m \<in> set ms \<Longrightarrow> D (message_key c m)"
  shows "achieves up (on_message_delete_bulk C R c ms) (\<lambda>_ ks. cache_inv ks \<and> J ks) ks"
proof -
  let ?keys = "map (\<lambda>m. message_key c m) ms"
  have "\<forall>k \<in> set ?keys. stringy ks k"
    using well_typed_stringy [OF cache_inv_parts(1) [OF inv(1)]] by simp
  moreover have "\<exists>x. de_message R s = Inr x"
    if "up" "s \<in> set (flatten_options (map (string_at ks) ?keys))" for s
    using that message_key_docs [OF adm inv(2)] by (auto simp: flatten_options_set)
  moreover have "achieves up (del_all R ?keys) (\<lambda>_. achieves up
      (value_old C R (ser_messages R) xs) (\<lambda>_ ks. cache_inv ks \<and> J ks)) ks" for xs
    using D admissible_up(1) [OF adm]
    by (intro del_all_keeps [OF admissible_order [OF adm] inv] value_old_keeps) (auto intro: serde_parses)
  ultimately show ?thesis
    using inv unfolding on_message_delete_bulk_def Let_def
    by (auto simp: achieves_Ok achieves_and_then intro!: achieves_cache_get_all)
qed

lemma guild_emojis_keeps:
  assumes adm: "admissible up C R J" and inv: "cache_inv ks" "J ks"
    and W: "\<And>e s. state_emoji C \<Longrightarrow> doc_of R (emoji_key g e) s \<Longrightarrow> W (emoji_key g e) s"
    and D: "\<And>e. D (emoji_key g e)"
  shows "achieves up (on_guild_emojis_update C R g es) (\<lambda>_ ks. cache_inv ks \<and> J ks) ks"
proof -
  have fetch: "achieves up (cache_get_all (de_emoji R) (filter (\<lambda>k. kind_of k = EMOJI_KEY) keys)) Q ks"
    if "\<And>xs. Q xs ks" for keys Q
  proof (rule achieves_cache_get_all)
    show "\<forall>k\<in>set (filter (\<lambda>k. kind_of k = EMOJI_KEY) keys). stringy ks k"
      using well_typed_stringy [OF cache_inv_parts(1) [OF inv(1)]] by simp
    show "\<forall>s\<in>set (flatten_options (map (string_at ks) (filter (\<lambda>k. kind_of k = EMOJI_KEY) keys))).
        \<exists>x. de_emoji R s = Inr x" if "up"
      using that admissible_up [OF adm] inv docsD doc_of_typed(2)
      by (auto simp: flatten_options_set) (metis cached_keys(1) kind_in_kinds(5))
  qed (use that in auto)
  have edit: "achieves up (del_all R (map (\<lambda>e. emoji_key g (em_id e)) xs)) (\<lambda>_. achieves up
      (set_all R (ser_emoji R) (map (\<lambda>e. (emoji_key g (em_id e), e)) es)) (\<lambda>_. achieves up
        (value_old C R (ser_emojis R) ys) (\<lambda>_ ks. cache_inv ks \<and> J ks))) ks"
    if "state_emoji C" for xs ys
    using that D admissible_up(1) [OF adm]
    by (intro del_all_keeps [OF admissible_order [OF adm] inv] batch_keeps [OF adm] value_old_keeps)
      (auto intro: serde_parses W doc_ofI)
  have "setty ks (GUILD_KEY @ KEYS_SUFFIX @ '':'' @ show_u64 g)"
    using well_typed_setty [OF cache_inv_parts(1) [OF inv(1)]] by simp
  then show ?thesis
    using inv edit unfolding on_guild_emojis_update_def Let_def
    by (auto simp: achieves_Ok achieves_and_then achieves_get_members intro!: fetch)
qed

lemma ready_keeps:
  assumes adm: "admissible up C R J" and inv: "cache_inv ks" "J ks"
    and W: "\<And>k s. k = BOT_USER_KEY \<or> (\<exists>g \<in> set gs. k = guild_key (ug_id g)) \<Longrightarrow> doc_of R k s \<Longrightarrow> W k s"
  shows "achieves up (on_ready R u gs) (\<lambda>_ ks. cache_inv ks \<and> J ks) ks"
  unfolding on_ready_def achieves_and_then achieves_Ok
  using admissible_up(1) [OF adm]
  by (intro store_keeps [OF adm inv] batch_keeps [OF adm])
    (auto intro!: W intro: serde_parses doc_ofI)

lemma voice_state_keeps:
  assumes adm: "admissible up C R J" and inv: "cache_inv ks" "J ks"
    and W: "\<And>g s. state_voice C \<Longrightarrow> vs_guild_id d = Some g \<Longrightarrow> doc_of R (voice_key g (vs_user_id d)) s \<Longrightarrow>
      W (voice_key g (vs_user_id d)) s"
    and D: "\<And>g. vs_guild_id d = Some g \<Longrightarrow> D (voice_key g (vs_user_id d))"
  shows "achieves up (on_voice_state_update C R d) (\<lambda>_ ks. cache_inv ks \<and> J ks) ks"
  using inv admissible_up(1) [OF adm]
  by (auto simp: on_voice_state_update_def Let_def achieves_Ok achieves_and_then split: option.split
      intro!: read_old_keeps [OF adm inv] store_keeps [OF adm] remove_keeps [OF adm] W D doc_ofI
        serde_parses)

text \<open>The arms that read the old object and remove it.\<close>

lemma channel_delete_keeps:
  assumes "admissible up C R J" "cache_inv ks" "J ks" "D (channel_key (ch_guild_id d) (ch_id d))"
  shows "achieves up (on_channel_delete C R d) (\<lambda>_ ks. cache_inv ks \<and> J ks) ks"
  unfolding on_channel_delete_def Let_def by (rule read_remove_keeps) (use assms in auto)

lemma message_delete_keeps:
  assumes "admissible up C R J" "cache_inv ks" "J ks" "D (message_key c m)"
  shows "achieves up (on_message_delete C R c m) (\<lambda>_ ks. cache_inv ks \<and> J ks) ks"
  using assms by (auto simp: on_message_delete_def Let_def achieves_Ok intro!: read_remove_keeps)

lemma role_delete_keeps:
  assumes "admissible up C R J" "cache_inv ks" "J ks" "D (role_key g i)"
  shows "achieves up (on_role_delete C R g i) (\<lambda>_ ks. cache_inv ks \<and> J ks) ks"
  unfolding on_role_delete_def Let_def by (rule read_remove_keeps) (use assms in auto)

lemma member_remove_keeps:
  assumes adm: "admissible up C R J" and inv: "cache_inv ks" "J ks"
    and D: "D (member_key g (us_id u))" "D (presence_key g (us_id u))"
  shows "achieves up (on_member_remove C R g u) (\<lambda>_ ks. cache_inv ks \<and> J ks) ks"
proof -
  let ?t = "if state_member C then and_then (read_old C R (member_key g (us_id u)))
       (\<lambda>old. and_then (cache_del R (member_key g (us_id u))) (\<lambda>_. ok old)) else ok None"
  have "achieves up ?t (\<lambda>_ ks. cache_inv ks \<and> J ks) ks"
    using inv D by (auto simp: achieves_Ok intro!: read_remove_keeps [OF adm inv])
  then show ?thesis
    unfolding on_member_remove_def Let_def achieves_and_then [of _ up ?t] using D
    by (elim achieves_mono)
      (auto simp: achieves_and_then achieves_Ok achieves_when intro!: remove_keeps [OF adm])
qed

text \<open>The arms that read the old object and store the new one.\<close>

lemma guild_update_keeps:
  assumes "admissible up C R J" "cache_inv ks" "J ks"
    and "\<And>s. doc_of R (guild_key (pg_id d)) s \<Longrightarrow> W (guild_key (pg_id d)) s"
  shows "achieves up (on_guild_update C R d) (\<lambda>_ ks. cache_inv ks \<and> J ks) ks"
  unfolding on_guild_update_def Let_def
  by (rule read_store_keeps) (use assms admissible_up(1) in \<open>auto intro: serde_parses doc_ofI\<close>)

lemma presence_keeps:
  assumes "admissible up C R J" "cache_inv ks" "J ks"
    and "\<And>s. state_presence C \<Longrightarrow> doc_of R (presence_key (pr_guild_id d) (pr_user_id d)) s \<Longrightarrow>
      W (presence_key (pr_guild_id d) (pr_user_id d)) s"
  shows "achieves up (on_presence_update C R d) (\<lambda>_ ks. cache_inv ks \<and> J ks) ks"
  unfolding on_presence_update_def Let_def using assms admissible_up(1)
  by (auto simp: achieves_Ok intro!: read_store_keeps intro: serde_parses doc_ofI)

lemma role_events_keep:
  assumes "admissible up C R J" "cache_inv ks" "J ks"
  shows role_create_keeps: "(\<And>s. doc_of R (role_key g (ro_id r)) s \<Longrightarrow> W (role_key g (ro_id r)) s) \<Longrightarrow>
      achieves up (on_role_create R g r) (\<lambda>_ ks. cache_inv ks \<and> J ks) ks"
    and role_update_keeps: "(\<And>s. doc_of R (role_key g (ro_id r)) s \<Longrightarrow> W (role_key g (ro_id r)) s) \<Longrightarrow>
      achieves up (on_role_update C R g r) (\<lambda>_ ks. cache_inv ks \<and> J ks) ks"
  unfolding on_role_create_def on_role_update_def Let_def achieves_and_then [of _ _ "cache_set _ _ _ _"]
    achieves_Ok
  using assms admissible_up(1) [OF assms(1)]
  by (auto intro!: read_store_keeps store_keeps intro: serde_parses doc_ofI)

lemma user_update_keeps:
  assumes "admissible up C R J" "cache_inv ks" "J ks"
    and "\<And>s. doc_of R BOT_USER_KEY s \<Longrightarrow> W BOT_USER_KEY s"
  shows "achieves up (on_user_update C R d) (\<lambda>_ ks. cache_inv ks \<and> J ks) ks"
  unfolding on_user_update_def
  by (rule read_store_keeps) (use assms admissible_up(1) in \<open>auto intro: serde_parses doc_ofI\<close>)

theorem update_keeps:
  assumes adm: "admissible up C R J" and inv: "cache_inv ks" "J ks"
    and W: "\<And>k s. stores C b ev k \<Longrightarrow> doc_of R k s \<Longrightarrow> W k s" and D: "\<And>k. touches ev k \<Longrightarrow> D k"
  shows "achieves up (update C R b ev) (\<lambda>_ ks. cache_inv ks \<and> J ks) ks"
  using W D
proof (cases ev)
  case (ChannelCreate d)
  with W D show ?thesis
    by (auto intro!: channel_create_keeps [OF adm inv])
next
  case (ChannelDelete d)
  with W D show ?thesis
    by (auto intro!: channel_delete_keeps [OF adm inv])
next
  case (ChannelPinsUpdate g c t)
  with W D show ?thesis
    by (auto intro!: channel_pins_keeps [OF adm inv])
next
  case (ChannelUpdate d)
  with W D show ?thesis
    by (auto intro!: channel_update_keeps [OF adm inv])
next
  case (GuildDelete g u)
  with W D show ?thesis
    by (auto intro!: guild_delete_keeps [OF adm inv])
next
  case (GuildUpdate d)
  with W D show ?thesis
    by (auto intro!: guild_update_keeps [OF adm inv])
next
  case (MemberAdd d)
  with W D show ?thesis
    by (auto intro!: member_add_keeps [OF adm inv])
next
  case (MemberRemove g u)
  with W D show ?thesis
    by (auto intro!: member_remove_keeps [OF adm inv])
next
  case (MemberUpdate d)
  with W D show ?thesis
    by (auto intro!: member_update_keeps [OF adm inv])
next
  case (MemberChunk g ms)
  with W D show ?thesis
    by (auto intro!: member_chunk_keeps [OF adm inv])
next
  case (MessageCreate d)
  with W D show ?thesis
    by (auto intro!: message_create_keeps [OF adm inv])
next
  case (MessageDelete c m)
  with W D show ?thesis
    by (auto intro!: message_delete_keeps [OF adm inv])
next
  case (MessageUpdate d)
  with W D show ?thesis
    by (auto intro!: message_update_keeps [OF adm inv])
next
  case (PresenceUpdate d)
  with W D show ?thesis
    by (auto intro!: presence_keeps [OF adm inv])
next
  case (RoleCreate g r)
  with W D show ?thesis
    by (auto intro!: role_create_keeps [OF adm inv])
next
  case (RoleDelete g r)
  with W D show ?thesis
    by (auto intro!: role_delete_keeps [OF adm inv])
next
  case (RoleUpdate g r)
  with W D show ?thesis
    by (auto intro!: role_update_keeps [OF adm inv])
next
  case (UnavailableGuild d)
  with W D show ?thesis
    by (auto intro!: unavailable_guild_keeps [OF adm inv])
next
  case (UserUpdate d)
  with W D show ?thesis
    by (auto intro!: user_update_keeps [OF adm inv])
next
  case (VoiceStateUpdate d)
  with W D show ?thesis
    by (auto intro!: voice_state_keeps [OF adm inv])
next
  case (GuildCreate d)
  with W D show ?thesis
    using guild_create_keeps [OF adm inv, where d = d and b = b] by simp
next
  case (GuildEmojisUpdate g es)
  have "W (emoji_key g e) s" if "state_emoji C" "doc_of R (emoji_key g e) s" for e s
    using that GuildEmojisUpdate by (intro W) auto
  moreover have "D (emoji_key g e)" for e
    using GuildEmojisUpdate by (intro D) auto
  ultimately show ?thesis
    using guild_emojis_keeps [OF adm inv, where g = g] GuildEmojisUpdate by simp
next
  case (MessageDeleteBulk c ms)
  then have "D (message_key c m)" if "m \<in> set ms" for m
    using that by (intro D) auto
  then show ?thesis
    using message_bulk_keeps [OF adm inv, where ms = ms and c = c] MessageDeleteBulk by simp
next
  case (Ready u gs sess)
  then have "W k s" if "k = BOT_USER_KEY \<or> (\<exists>g \<in> set gs. k = guild_key (ug_id g))" "doc_of R k s" for k s
    using that by (intro W) auto
  then show ?thesis
    using ready_keeps [OF adm inv, where gs = gs] Ready by simp
qed (use inv in \<open>simp_all add: achieves_Ok\<close>)

end

end
