(* ===== verification/RefServer.thy ===== *)
theory RefServer
  imports UpdateInv
begin

text \<open>
  Concrete parameters: a server that keeps the keyspace as its state and answers every command
  as documented, a runtime and a configuration. They show that the hypotheses of the properties
  hold together, and the examples evaluate the model on them.
\<close>

section \<open>A server\<close>

definition members_of :: "string fset \<Rightarrow> string list" where
  "members_of s = sorted_list_of_fset s"

definition fields_of :: "(string, string) fmap \<Rightarrow> (string \<times> string) list" where
  "fields_of h = sorted_list_of_fmap h"

definition WRONGTYPE :: string where "WRONGTYPE = ''WRONGTYPE''"

definition ref_server :: "datetime \<Rightarrow> keyspace server" where
  "ref_server t = \<lparr>
     sv_get = (\<lambda>k ks. (if stringy ks k then Inr (string_at ks k) else Inl WRONGTYPE, ks)),
     sv_mget = (\<lambda>keys ks. (if keys = [] then Inl ''ERR'' else Inr (map (string_at ks) keys), ks)),
     sv_smembers = (\<lambda>k ks. (if setty ks k then Inr (members_of (set_at ks k)) else Inl WRONGTYPE, ks)),
     sv_scard = (\<lambda>k ks.
       (if setty ks k then Inr (of_nat (fcard (set_at ks k))) else Inl WRONGTYPE, ks)),
     sv_hgetall = (\<lambda>k ks. (if hashy ks k then Inr (fields_of (hash_at ks k)) else Inl WRONGTYPE, ks)),
     sv_write = (\<lambda>x ks.
       (if write_valid ks x then (Inr (), apply_write x ks) else (Inl WRONGTYPE, ks))),
     sv_now = (\<lambda>ks. (t, ks)) \<rparr>"

text \<open>A server that never answers.\<close>

definition dead_server :: "keyspace server" where
  "dead_server = \<lparr>
     sv_get = (\<lambda>k ks. (Inl ''down'', ks)), sv_mget = (\<lambda>keys ks. (Inl ''down'', ks)),
     sv_smembers = (\<lambda>k ks. (Inl ''down'', ks)), sv_scard = (\<lambda>k ks. (Inl ''down'', ks)),
     sv_hgetall = (\<lambda>k ks. (Inl ''down'', ks)), sv_write = (\<lambda>x ks. (Inl ''down'', ks)),
     sv_now = (\<lambda>ks. (0, ks)) \<rparr>"

lemma fields_distinct: "distinct (map fst (fields_of h))"
proof -
  have "map fst (fields_of h) = sorted_list_of_fset (fmdom h)"
    by (simp add: fields_of_def sorted_list_of_fmap_def comp_def)
  then show ?thesis
    by (simp add: sorted_list_of_fset.rep_eq)
qed

lemma fields_of_list: "fmap_of_list (fields_of h) = h"
  by (rule fmap_ext) (simp add: fields_of_def fmlookup_of_list)

lemma ref_server_contract: "sane_time t \<Longrightarrow> redis_contract True (ref_server t) (\<lambda>ks. ks)"
  by (simp add: contract_in_def ref_server_def get_reply_def mget_reply_def smembers_reply_def
      scard_reply_def hgetall_reply_def write_reply_def fails_ok_def members_of_def
      fields_distinct fields_of_list)

lemma dead_server_contract: "redis_contract False dead_server (\<lambda>ks. ks)"
  by (simp add: contract_in_def dead_server_def get_reply_def mget_reply_def smembers_reply_def
      scard_reply_def hgetall_reply_def write_reply_def fails_ok_def sane_time_def)

section \<open>A runtime\<close>

text \<open>An object is serialised as its kind and id; a date as its number of nanoseconds.\<close>

definition doc_text :: "string \<Rightarrow> u64 \<Rightarrow> string" where
  "doc_text kd i = ''{'' @ kd @ '':'' @ show_u64 i @ ''}''"

definition doc_id :: "string \<Rightarrow> u64" where
  "doc_id s =
     (case parse_u64 (takeWhile is_digit (dropWhile (\<lambda>c. \<not> is_digit c) s)) of
        Some i \<Rightarrow> i | None \<Rightarrow> 0)"

definition demo_user :: "u64 \<Rightarrow> user" where
  "demo_user i = \<lparr>us_id = i, us_rest = JNull\<rparr>"

definition demo_channel :: "u64 option \<Rightarrow> u64 \<Rightarrow> channel" where
  "demo_channel g i =
     \<lparr>ch_id = i, ch_guild_id = g, ch_last_pin_timestamp = None, ch_rest = JNull\<rparr>"

definition demo_role :: "u64 \<Rightarrow> role" where
  "demo_role i = \<lparr>ro_id = i, ro_rest = JNull\<rparr>"

definition demo_emoji :: "u64 \<Rightarrow> emoji" where
  "demo_emoji i = \<lparr>em_id = i, em_rest = JNull\<rparr>"

definition demo_member :: "u64 \<Rightarrow> u64 \<Rightarrow> member" where
  "demo_member g i =
     \<lparr>mb_guild_id = g, mb_user = demo_user i, mb_joined_at = JNull, mb_nick = None,
      mb_premium_since = None, mb_roles = [], mb_rest = JNull\<rparr>"

definition demo_message :: "u64 \<Rightarrow> u64 \<Rightarrow> message" where
  "demo_message c i =
     \<lparr>ms_id = i, ms_channel_id = c, ms_attachments = [], ms_content = ''hi'',
      ms_edited_timestamp = None, ms_embeds = [], ms_mention_everyone = False,
      ms_mention_roles = [], ms_mentions = [], ms_pinned = False, ms_timestamp = JNull,
      ms_tts = False, ms_rest = JNull\<rparr>"

definition demo_presence :: "u64 \<Rightarrow> u64 \<Rightarrow> presence" where
  "demo_presence g i = \<lparr>pr_guild_id = g, pr_user_id = i, pr_rest = JNull\<rparr>"

definition demo_guild :: "u64 \<Rightarrow> guild" where
  "demo_guild g =
     \<lparr>gd_id = g, gd_name = ''guild'', gd_channels = [demo_channel None 7], gd_roles = [demo_role 8],
      gd_emojis = [demo_emoji 9], gd_voice_states = [], gd_members = [demo_member g 5],
      gd_presences = [demo_presence g 5], gd_rest = JNull\<rparr>"

definition demo_parse :: "string \<Rightarrow> int" where
  "demo_parse s =
     (if take 1 s = ''-'' then - int (dec_val 0 (takeWhile is_digit (drop 1 s)))
      else int (dec_val 0 (takeWhile is_digit s)))"

definition demo_runtime :: runtime where
  "demo_runtime = \<lparr>
     ser_channel = (\<lambda>c. Inr (doc_text ''channel'' (ch_id c))),
     de_channel = (\<lambda>s. Inr (demo_channel None (doc_id s))),
     ser_role = (\<lambda>r. Inr (doc_text ''role'' (ro_id r))),
     ser_emoji = (\<lambda>e. Inr (doc_text ''emoji'' (em_id e))),
     de_emoji = (\<lambda>s. Inr (demo_emoji (doc_id s))),
     ser_emojis = (\<lambda>es. Inr (concat (map (\<lambda>e. doc_text ''emoji'' (em_id e)) es))),
     ser_voice = (\<lambda>v. Inr (doc_text ''voice'' (vs_user_id v))),
     ser_member = (\<lambda>m. Inr (doc_text ''member'' (us_id (mb_user m)))),
     de_member = (\<lambda>s. Inr (demo_member 1 (doc_id s))),
     ser_presence = (\<lambda>p. Inr (doc_text ''presence'' (pr_user_id p))),
     ser_message = (\<lambda>m. Inr (doc_text (ms_content m) (ms_id m))),
     de_message = (\<lambda>s. Inr (demo_message 1 (doc_id s))),
     ser_messages = (\<lambda>ms. Inr (concat (map (\<lambda>m. doc_text ''message'' (ms_id m)) ms))),
     ser_guild = (\<lambda>g. Inr (doc_text ''guild'' (gd_id g))),
     ser_partial_guild = (\<lambda>g. Inr (doc_text ''guild'' (pg_id g))),
     ser_unavailable = (\<lambda>g. Inr (doc_text ''guild'' (ug_id g))),
     ser_user = (\<lambda>u. Inr (doc_text ''user'' (us_id u))),
     de_value = (\<lambda>s. Inr (JString s)),
     ser_statuses = (\<lambda>ss. Inr (concat (map (\<lambda>s. doc_text (st_status s) (st_shard s)) ss))),
     ser_sessions = (\<lambda>ss. Inr (concat (map (\<lambda>(k, s). doc_text k (si_sequence s)) ss))),
     de_sessions = (\<lambda>s. Inr [(show_u64 (doc_id s), \<lparr>si_session_id = s, si_sequence = doc_id s\<rparr>)]),
     ser_u64 = (\<lambda>n. Inr (show_u64 n)),
     de_u64 = (\<lambda>s. case parse_u64 s of Some n \<Rightarrow> Inr n | None \<Rightarrow> Inl ''not a number''),
     de_payload = (\<lambda>s.
       if s = [] then Inl ''empty''
       else Inr \<lparr>pi_op = JNum ''0'', pi_t = Some s, pi_d = JString s, pi_old = None\<rparr>),
     ser_payload = (\<lambda>p. Inr (case pi_t p of Some t \<Rightarrow> t | None \<Rightarrow> [])),
     de_delivery = (\<lambda>s.
       if s = [] then Inl ''empty''
       else Inr \<lparr>di_op = Send, di_shard = doc_id s, di_data = Some (JString s)\<rparr>),
     ser_json = (\<lambda>v. case v of JString s \<Rightarrow> Inr s | _ \<Rightarrow> Inr ''null''),
     stage_name = (\<lambda>s. case s of Connected \<Rightarrow> ''Connected'' | Disconnected \<Rightarrow> ''Disconnected''
       | Handshaking \<Rightarrow> ''Handshaking'' | Identifying \<Rightarrow> ''Identifying'' | Resuming \<Rightarrow> ''Resuming''),
     ser_string = (\<lambda>s. Inr s),
     de_string = (\<lambda>s. Inr s),
     dt_format = (\<lambda>t. Some (if t < 0 then CHR ''-'' # show_nat (nat (- t)) else show_nat (nat t))),
     dt_parse = (\<lambda>s. Some (demo_parse s)),
     dt_add = (\<lambda>t ms. Some (t + ms * 1000000)),
     hash_order = rev \<rparr>"

lemma demo_serde: "serde_ok demo_runtime"
  by (simp add: serde_ok_def parses_def demo_runtime_def)

lemma demo_order: "visits_once (hash_order demo_runtime)"
  by (simp add: demo_runtime_def visits_once_rev)

lemma demo_clock: "clock_total demo_runtime ttl"
  by (simp add: clock_total_def demo_runtime_def ser_datetime_def)

lemma demo_runtime_ok: "runtime_ok C demo_runtime"
  by (simp add: runtime_ok_def demo_order demo_serde demo_clock)

lemma take_digits:
  assumes "ds = show_nat n" "\<not> is_digit c"
  shows "takeWhile is_digit (ds @ c # rest) = ds"
  using assms show_nat_digits [of n] by (simp add: takeWhile_append list_all_iff)

lemma demo_parse [simp]:
  "demo_parse (show_nat n @ ''+00'') = int n" "demo_parse (CHR ''-'' # show_nat n @ ''+00'') = - int n"
proof -
  have plus: "\<not> is_digit CHR ''+''" and minus: "\<not> is_digit CHR ''-''"
    by (simp_all add: is_digit_def)
  note digits = take_digits [OF refl plus, of n "''00''"]
  obtain c cs where n: "show_nat n = c # cs" "is_digit c"
    using show_nat_digits [of n] by (cases "show_nat n") auto
  then have "c \<noteq> CHR ''-''"
    using minus by auto
  then have "take 1 (show_nat n @ ''+00'') \<noteq> ''-''"
    by (simp add: n(1))
  then show "demo_parse (show_nat n @ ''+00'') = int n"
    using digits by (simp add: demo_parse_def dec_val_show_nat del: take_append)
  show "demo_parse (CHR ''-'' # show_nat n @ ''+00'') = - int n"
    using digits by (simp add: demo_parse_def dec_val_show_nat)
qed

lemma demo_dates: "ser_datetime demo_runtime t = Ok s \<Longrightarrow> de_datetime demo_runtime s = Inr t"
  by (auto simp: ser_datetime_def de_datetime_def demo_runtime_def split: if_splits)

section \<open>A configuration\<close>

definition demo_config :: config where
  "demo_config = \<lparr>
     rust_log = ''info'', bot_token = ''token'', shards_start = 0, shards_end = 4, shards_total = 5,
     shards_concurrency = 1, shards_wait = 6, clusters = 2, default_queue = True, resume = True,
     intents = 32767, large_threshold = 250, status = ''online'', activity_type = 0,
     activity_name = ''game'', log_channel = 0, log_guild_channel = 0, state_enabled = True,
     state_member = True, state_member_ttl = 60000, state_message = True, state_message_ttl = 60000,
     state_presence = False, state_emoji = True, state_voice = True, state_old = True,
     rabbit_host = ''rabbit'', rabbit_port = 5672, rabbit_username = ''guest'',
     rabbit_password = ''guest'', redis_host = ''redis'', redis_port = 6379,
     prometheus_host = ''0.0.0.0'', prometheus_port = 9000 \<rparr>"

lemma sane_zero [simp]: "sane_time 0"
  by (simp add: sane_time_def)

lemma ref_server_up: "redis_contract True (ref_server 0) (\<lambda>ks. ks)"
  by (simp add: ref_server_contract)

lemma ref_server_down: "redis_contract False (ref_server 0) (\<lambda>ks. ks)"
  by (intro redis_contract_down ref_server_up)

text \<open>On this server, what is achieved is the outcome.\<close>

lemma ref_run:
  assumes "achieves True t P ks"
  obtains a ks' where "run (ref_server 0) t ks = (Ok a, ks')" "P a ks'"
  using run_up [where view = "\<lambda>ks. ks", OF ref_server_up assms] by auto

end
