(* ===== verification/CacheSafety.thy ===== *)
theory CacheSafety
  imports RefServer
begin

text \<open>
  What every event guarantees of the cache: the properties of \<open>update\<close> as a whole. Each
  rests on an interpretation of \<open>keyspace_invariant\<close>: the invariant alone
  (\<open>cache_only\<close>), the stored documents (\<open>documents\<close>), the kinds that the configuration
  enables (\<open>enabled\<close>), one untouched key (\<open>frame\<close>).
\<close>

section \<open>Interpretations\<close>

lemma cached_object: "cached k \<Longrightarrow> object_key k"
  by (auto simp: cached_def)

lemma storage_bot_user [simp]: "storage_key BOT_USER_KEY = BOT_USER_KEY"
  by (rule storage_key_single) (simp add: key_simps)

lemma doc_of_storage: "doc_of R k s \<Longrightarrow> doc_of R (storage_key k) s"
  by (auto simp: doc_of_def split: if_splits)

lemma doc_of_cached: "doc_of R k s \<Longrightarrow> cached k"
  by (auto simp: doc_of_def cached_def split: if_splits)

lemma put_expiry_other: "x \<noteq> EXPIRY_KEYS \<Longrightarrow> put_expiry fvs ks x = ks x"
  by (simp add: put_expiry_def)

lemma cached_not_expiry: "cached k \<Longrightarrow> k \<noteq> EXPIRY_KEYS"
  using cached_object object_not_expiry by blast

interpretation documents: keyspace_invariant "docs R" "doc_of R" "\<lambda>_. True" for R
proof unfold_locales
  show "docs R (put_one k s ks)" if "docs R ks" "object_key k" "doc_of R k s" for ks k s
    using that unfolding docs_def
    by (auto simp: put_one_object cached_object doc_of_storage split: if_splits)
  show "docs R (del_one k ks)" if "docs R ks" "object_key k" for ks k
    using that unfolding docs_def by (auto simp: del_one_object cached_object split: if_splits)
  show "docs R (put_expiry fvs ks)" if "docs R ks" for ks fvs
    using that unfolding docs_def by (simp add: put_expiry_other cached_not_expiry)
qed

text \<open>
  The kinds of object the configuration lets into the cache. The member of the bot itself is
  exempt: \<open>GuildCreate\<close> and \<open>MemberUpdate\<close> store it also with \<open>STATE_MEMBER\<close> off.
\<close>

definition allowed :: "config \<Rightarrow> u64 \<Rightarrow> string \<Rightarrow> bool" where
  "allowed C b k \<longleftrightarrow>
     (kind_of k = EMOJI_KEY \<longrightarrow> state_emoji C) \<and>
     (kind_of k = MESSAGE_KEY \<longrightarrow> state_message C) \<and>
     (kind_of k = PRESENCE_KEY \<longrightarrow> state_presence C) \<and>
     (kind_of k = VOICE_KEY \<longrightarrow> state_voice C) \<and>
     (kind_of k = MEMBER_KEY \<longrightarrow> state_member C \<or> parts_of k ! 2 = show_u64 b)"

definition only_enabled :: "config \<Rightarrow> u64 \<Rightarrow> keyspace \<Rightarrow> bool" where
  "only_enabled C b ks \<longleftrightarrow> (\<forall>k. cached k \<longrightarrow> ks k \<noteq> None \<longrightarrow> allowed C b k)"

lemma allowed_storage: "allowed C b k \<Longrightarrow> allowed C b (storage_key k)"
  by (auto simp: allowed_def parts_storage_key kind_of_def)

interpretation enabled: keyspace_invariant "only_enabled C b" "\<lambda>k _. allowed C b k" "\<lambda>_. True" for C b
proof unfold_locales
  show "only_enabled C b (put_one k s ks)"
    if "only_enabled C b ks" "object_key k" "allowed C b k" for ks k s
    using that unfolding only_enabled_def
    by (auto simp: put_one_object cached_object allowed_storage split: if_splits)
  show "only_enabled C b (del_one k ks)" if "only_enabled C b ks" "object_key k" for ks k
    using that unfolding only_enabled_def
    by (auto simp: del_one_object cached_object split: if_splits)
  show "only_enabled C b (put_expiry fvs ks)" if "only_enabled C b ks" for ks fvs
    using that unfolding only_enabled_def by (simp add: put_expiry_other cached_not_expiry)
qed

lemma stores_allowed: "stores C b ev k \<Longrightarrow> allowed C b k"
  by (cases "(C, b, ev, k)" rule: stores.cases)
    (auto simp: allowed_def guild_items_def key_simps split: if_splits)

lemma stores_touches: "stores C b ev k \<Longrightarrow> touches ev k"
  by (cases "(C, b, ev, k)" rule: stores.cases)
    (auto simp: guild_items_def split: if_splits)

text \<open>One object key that is not stored or removed.\<close>

definition spares :: "string \<Rightarrow> string \<Rightarrow> bool" where
  "spares x k \<longleftrightarrow> storage_key k \<noteq> x"

interpretation frame: keyspace_invariant
  "\<lambda>ks. object_key x \<longrightarrow> ks x = v" "\<lambda>k _. spares x k" "spares x" for x v
  by unfold_locales
    (auto simp: spares_def put_one_object del_one_object put_expiry_other object_not_expiry)

section \<open>The properties of \<open>update\<close>\<close>

text \<open>
  C2: every event, whatever the server answers, takes a keyspace in which the indexes agree
  with the stored objects to another such keyspace, when \<open>update\<close> returns \<open>Ok\<close>.
\<close>

theorem update_invariant:
  assumes "redis_contract False S view" "visits_once (hash_order R)" "cache_inv (view w)"
    and "run S (update C R b ev) w = (Ok old, w')"
  shows "cache_inv (view w')"
proof -
  have "achieves False (update C R b ev) (\<lambda>_ ks. cache_inv ks \<and> True) (view w)"
    using assms(2,3) by (intro cache_only.update_keeps) (simp_all add: admissible_def)
  from run_ok [OF assms(1,4) this] show ?thesis
    by simp
qed

text \<open>
  C1: on a server that answers, \<open>update\<close> never fails: from a consistent cache whose
  documents parse it returns \<open>Ok\<close> and leaves such a cache.
\<close>

theorem update_succeeds:
  assumes "redis_contract True S view" "runtime_ok C R" "cache_inv (view w)" "docs R (view w)"
  shows "\<exists>old w'. run S (update C R b ev) w = (Ok old, w') \<and> cache_inv (view w') \<and> docs R (view w')"
proof -
  have "admissible True C R (docs R)"
    using assms(2) by (simp add: admissible_def runtime_ok_def)
  then have "achieves True (update C R b ev) (\<lambda>_ ks. cache_inv ks \<and> docs R ks) (view w)"
    using assms(3,4) by (intro documents.update_keeps) auto
  from run_up [OF assms(1) this] show ?thesis
    by blast
qed

text \<open>
  C14: an event leaves every object alone that it does not touch: an event of one guild the
  objects of the others, an event of one message the other messages.
\<close>

theorem update_frame:
  assumes "redis_contract False S view" "visits_once (hash_order R)" "cache_inv (view w)"
    and "run S (update C R b ev) w = (Ok old, w')"
    and "object_key x" "\<And>k. touches ev k \<Longrightarrow> storage_key k \<noteq> x"
  shows "view w' x = view w x"
proof -
  have touch: "spares x k" if "stores C b ev k \<or> touches ev k" for k
    using that stores_touches [of C b ev k] assms(6) [of k] by (auto simp: spares_def)
  have "achieves False (update C R b ev)
      (\<lambda>_ ks. cache_inv ks \<and> (object_key x \<longrightarrow> ks x = view w x)) (view w)"
    using assms(2,3) touch by (intro frame.update_keeps) (simp_all add: admissible_def)
  from run_ok [OF assms(1,4) this] show ?thesis
    using assms(5) by simp
qed

text \<open>
  C13: from a consistent cache in which no object of a kind that the configuration disables is
  stored, an event that ends in \<open>Ok\<close> leaves such a cache, the members of the bot itself being
  exempt: with \<open>STATE_MEMBER\<close> off they are stored, and no other members.
\<close>

theorem update_only_enabled:
  assumes "redis_contract False S view" "visits_once (hash_order R)" "cache_inv (view w)"
    and "only_enabled C b (view w)" "run S (update C R b ev) w = (Ok old, w')"
  shows "only_enabled C b (view w')"
proof -
  have "achieves False (update C R b ev) (\<lambda>_ ks. cache_inv ks \<and> only_enabled C b ks) (view w)"
    using assms(2-4) stores_allowed by (intro enabled.update_keeps) (simp_all add: admissible_def)
  from run_ok [OF assms(1,5) this] show ?thesis
    by simp
qed

end
