(* ===== verification/Behaviour.thy ===== *)
theory Behaviour
  imports CacheSafety
begin

text \<open>
  What the operations on the cache do: the batches against their item by item specification,
  storing and reading back. Two theorems show where guild channels go wrong: they are stored
  under \<open>channel:id\<close> but looked up under \<open>channel:guild:id\<close>.
\<close>

section \<open>Batches and their specification\<close>

text \<open>
  C22: a batch of stores has the effect of storing the items one after the other, each object
  under its storage key and in each of its indexes, in whatever order the map of index members
  is visited.
\<close>

theorem set_all_refines:
  assumes "redis_contract False S view" "visits_once (hash_order R)" "well_typed (view w)"
    and "\<forall>(k, v) \<in> set kvs. object_key k" "run S (set_all R ser kvs) w = (Ok (), w')"
  shows "\<exists>skvs. serialised ser kvs skvs \<and> view w' = put_all skvs (view w)"
proof -
  have "achieves False (set_all R ser kvs)
      (\<lambda>_ ks. \<exists>skvs. serialised ser kvs skvs \<and> ks = put_all skvs (view w)) (view w)"
    using assms(2-4) by (intro achieves_set_all) auto
  from run_ok [OF assms(1,5) this] show ?thesis .
qed

text \<open>
  C23: a batch of removals has the effect of removing the items one after the other, each with
  its entries in the indexes of its key.
\<close>

theorem del_all_refines:
  assumes "redis_contract False S view" "visits_once (hash_order R)" "well_typed (view w)"
    and "\<forall>k \<in> set keys. object_key k" "run S (del_all R keys) w = (Ok (), w')"
  shows "view w' = remove_all keys (view w)"
proof -
  have "achieves False (del_all R keys) (\<lambda>_ ks. ks = remove_all keys (view w)) (view w)"
    using assms(2-4) by (intro achieves_del_all) auto
  from run_ok [OF assms(1,5) this] show ?thesis .
qed

section \<open>Storing and reading back\<close>

lemma achieves_cache_set:
  assumes "visits_once (hash_order R)" "object_key k" "well_typed ks" "ser x = Inr s"
    and "P () (put_one k s ks)"
  shows "achieves up (cache_set R ser k x) P ks"
  unfolding cache_set_def achieves_and_then achieves_Ok
  by (rule achieves_set_all) (use assms in auto)

lemma achieves_cache_del:
  assumes "visits_once (hash_order R)" "object_key k" "well_typed ks" "P () (del_one k ks)"
  shows "achieves up (cache_del R k) P ks"
  unfolding cache_del_def achieves_and_then achieves_Ok
  by (rule achieves_del_all) (use assms in auto)

lemma stored_stringy: "object_key k \<Longrightarrow> well_typed ks \<Longrightarrow> stringy (put_one k s ks) k"
  by (intro well_typed_stringy well_typed_put_one)

text \<open>
  What \<open>set\<close> stores at a key that is its own storage key, \<open>get\<close> reads back.
\<close>

lemma set_get:
  assumes "redis_contract True S view" "visits_once (hash_order R)" "well_typed (view w)"
    and "object_key k" "storage_key k = k" "ser x = Inr s" "de s = Inr x"
  shows "\<exists>w'. run S (and_then (cache_set R ser k x) (\<lambda>_. cache_get de k)) w = (Ok (Some x), w')"
proof -
  have "achieves True (and_then (cache_set R ser k x) (\<lambda>_. cache_get de k))
      (\<lambda>found _. found = Some x) (view w)"
    unfolding achieves_and_then using assms
    by (intro achieves_cache_set) (auto simp: wp_simps stored_stringy put_one_at string_at_def)
  from run_up [OF assms(1) this] show ?thesis
    by blast
qed

text \<open>A guild channel's key is not its own storage key.\<close>

lemma guild_channel_storage [simp]:
  "storage_key (guild_channel_key g c) = private_channel_key c"
  "storage_key (private_channel_key c) = private_channel_key c"
  by (rule parts_of_inj, simp add: parts_storage_key key_simps)+

lemma guild_channel_private [simp]: "guild_channel_key g c \<noteq> private_channel_key c'"
  by (auto dest!: arg_cong [where f = parts_of] simp: key_simps)

lemma norm_keys_channel: "norm_keys ks \<Longrightarrow> ks (guild_channel_key g c) = None"
  by (metis norm_keys_def guild_channel_storage(1) guild_channel_private)

lemma guild_channel_object [simp]: "object_key (guild_channel_key g c)"
  "object_key (private_channel_key c)"
  by (simp_all add: kind_of_def key_simps)

text \<open>
  A guild channel that \<open>set\<close> has stored is not found by \<open>get\<close> at the same key:
  \<open>set_all\<close> rewrites the key, \<open>get\<close> does not.
\<close>

lemma set_get_guild_channel:
  assumes "redis_contract True S view" "visits_once (hash_order R)" "cache_inv (view w)"
    and "ser_channel R d = Inr s"
  shows "\<exists>w'. run S (and_then (cache_set R (ser_channel R) (guild_channel_key g c) d)
           (\<lambda>_. cache_get (de_channel R) (guild_channel_key g c))) w = (Ok None, w') \<and>
         view w' (private_channel_key c) = Some (RStr s)"
proof -
  let ?k = "guild_channel_key g c"
  note inv = cache_inv_put_one [of ?k, OF guild_channel_object(1) assms(3), of s]
  have "string_at (put_one ?k s (view w)) ?k = None"
    using norm_keys_channel [OF cache_inv_parts(2) [OF inv]] by (simp add: string_at_def)
  then have "achieves True (and_then (cache_set R (ser_channel R) ?k d) (\<lambda>_. cache_get (de_channel R) ?k))
      (\<lambda>found ks. found = None \<and> ks (private_channel_key c) = Some (RStr s)) (view w)"
    unfolding achieves_and_then using assms cache_inv_parts(1) [OF assms(3)]
    by (intro achieves_cache_set) (auto simp: wp_simps stored_stringy put_one_at)
  from run_up [OF assms(1) this] show ?thesis
    by blast
qed

lemma read_old_absent:
  "ks k = None \<Longrightarrow> achieves up (read_old C R k) P ks \<longleftrightarrow> P None ks"
  by (simp add: read_old_def wp_simps stringy_def string_at_def)

text \<open>
  C33: for the same reason the events of guild channels never see the cached channel: the
  old state of an update or a removal is lost, and a change of pins changes nothing.
\<close>

theorem guild_channel_old_lost:
  assumes "redis_contract False S view" "visits_once (hash_order R)" "cache_inv (view w)"
    and "ch_guild_id d = Some g"
    and "ev = ChannelUpdate d \<or> ev = ChannelDelete d \<or> ev = ChannelPinsUpdate (Some g) c t"
    and "run S (update C R b ev) w = (Ok old, w')"
  shows "old = None \<and> (ev = ChannelPinsUpdate (Some g) c t \<longrightarrow> view w' = view w)"
proof -
  have none: "view w (guild_channel_key g c) = None" for c
    using norm_keys_channel cache_inv_parts(2) assms(3) by blast
  note t = cache_inv_parts(1) [OF assms(3)]
  have "achieves False (update C R b ev)
      (\<lambda>old ks. old = None \<and> (ev = ChannelPinsUpdate (Some g) c t \<longrightarrow> ks = view w)) (view w)"
    using assms(5)
  proof (elim disjE)
    assume [simp]: "ev = ChannelUpdate d"
    show ?thesis
      using assms(2-4) none
      by (auto simp: on_channel_update_def Let_def achieves_and_then read_old_absent
          channel_key_def achieves_Ok intro!: cache_only.cache_set_keeps)
  next
    assume [simp]: "ev = ChannelDelete d"
    show ?thesis
      using assms(2,4) none t
      by (auto simp: on_channel_delete_def Let_def achieves_and_then read_old_absent
          channel_key_def achieves_Ok intro!: achieves_cache_del)
  next
    assume [simp]: "ev = ChannelPinsUpdate (Some g) c t"
    show ?thesis
      using none by (simp add: on_channel_pins_update_def Let_def channel_key_def wp_simps
          stringy_def string_at_def)
  qed
  from run_ok [OF assms(1,6) this] show ?thesis .
qed

end
