(* ===== verification/GuildLife.thy ===== *)
theory GuildLife
  imports Behaviour
begin

text \<open>
  The life of a guild in the cache: \<open>clear_guild\<close> removes every object that the guild's
  index names and returns the guild that was cached; \<open>GuildCreate\<close> then stores the guild
  and its items. Clearing removes the objects of channels, but not their names in the index.
\<close>

section \<open>Clearing\<close>

lemma remove_all_object:
  assumes "\<forall>k \<in> set keys. object_key k" "object_key x"
  shows "remove_all keys ks x = (if x \<in> storage_key ` set keys then None else ks x)"
proof -
  have "entries keys x = []"
    using assms entries_idx [of keys x] idx_not_object by blast
  then show ?thesis
    by (simp add: remove_all_lookup [OF assms(1)])
qed

lemma set_at_remove_all:
  assumes "\<forall>k \<in> set keys. object_key k" "idx_key x"
  shows "set_at (remove_all keys ks) x = set_at ks x |-| fset_of_list (entries keys x)"
proof -
  have "x \<notin> storage_key ` set keys"
    using assms idx_not_object object_storage_key by (metis imageE)
  then show ?thesis
    by (cases "entries keys x = []")
      (simp add: set_at_def remove_all_lookup [OF assms(1)],
       intro set_at_val, simp add: remove_all_lookup [OF assms(1)] Let_def)
qed

abbreviation guild_index :: "u64 \<Rightarrow> string" where
  "guild_index g \<equiv> scope_index GUILD_KEY (show_u64 g)"

lemma guild_index_members:
  assumes "cache_inv ks" "fset_of_list ms = set_at ks (guild_index g)" "k \<in> set ms"
  shows "object_key k" "storage_key k = k"
proof -
  have "k |\<in>| set_at ks (guild_index g)"
    using assms(2,3) by (simp flip: assms(2) add: fset_of_list_elem)
  from scope_soundD [OF cache_inv_parts(5) [OF assms(1)] _ this]
  show "object_key k" "storage_key k = k"
    by simp_all
qed

text \<open>The keyspace that clearing a guild leaves.\<close>

definition cleared :: "u64 \<Rightarrow> string list \<Rightarrow> keyspace \<Rightarrow> keyspace" where
  "cleared g ms ks = del_one (guild_key g) (remove_all ms ks)"

lemma guild_key_simps [simp]: "object_key (guild_key g)" "storage_key (guild_key g) = guild_key g"
  by (simp_all, rule parts_of_inj, simp add: parts_storage_key key_simps)

lemma guild_key_not_scope:
  assumes "cache_inv ks" "fset_of_list ms = set_at ks (guild_index g)"
  shows "guild_key h \<notin> set ms"
proof
  assume "guild_key h \<in> set ms"
  then have "guild_key h |\<in>| set_at ks (guild_index g)"
    by (simp flip: assms(2) add: fset_of_list_elem)
  from scope_soundD(5) [OF cache_inv_parts(5) [OF assms(1)] _ this] show False
    by (simp add: key_simps)
qed

lemma cleared_object:
  assumes "cache_inv ks" "fset_of_list ms = set_at ks (guild_index g)" "object_key x"
  shows "cleared g ms ks x = (if x = guild_key g \<or> x |\<in>| set_at ks (guild_index g) then None else ks x)"
proof -
  have obj: "\<forall>k \<in> set ms. object_key k" and im: "storage_key ` set ms = set ms"
    using guild_index_members [OF assms(1,2)] by force+
  show ?thesis
    using assms(3) by (auto simp: cleared_def del_one_object remove_all_object [OF obj] im fset_of_list_elem
        simp flip: assms(2))
qed

lemma cleared_inv:
  assumes "cache_inv ks" "fset_of_list ms = set_at ks (guild_index g)"
  shows "cache_inv (cleared g ms ks)"
  unfolding cleared_def
  using cache_only.remove_all_keeps [of ks ms] guild_index_members [OF assms] assms(1)
  by (auto intro!: cache_inv_del_one)

definition cached_value :: "runtime \<Rightarrow> keyspace \<Rightarrow> string \<Rightarrow> json option" where
  "cached_value R ks k =
     (case string_at ks k of
        None \<Rightarrow> None
      | Some s \<Rightarrow> (case de_value R s of Inl _ \<Rightarrow> None | Inr v \<Rightarrow> Some v))"

lemma achieves_clear_guild:
  assumes R: "runtime_ok C R" and inv: "cache_inv ks" "docs R ks"
    and post: "\<And>ms. fset_of_list ms = set_at ks (guild_index g) \<Longrightarrow>
      P (cached_value R ks (guild_key g)) (cleared g ms ks)"
  shows "achieves True (clear_guild R g) P ks"
proof -
  have ho: "visits_once (hash_order R)" and serde: "serde_ok R"
    using R by (simp_all add: runtime_ok_def)
  have setty: "setty ks (guild_index g)"
    using inv by (intro well_typed_setty cache_inv_parts) simp_all
  have step: "achieves True (del_all R ms) (\<lambda>_. achieves True (then_result
      (cache_get (de_value R) (guild_key g)) (\<lambda>guild.
        case guild of
          Inr x \<Rightarrow> and_then (cache_del R (guild_key g)) (\<lambda>_. ok x)
        | Inl _ \<Rightarrow> ok None)) P) ks"
    if ms: "fset_of_list ms = set_at ks (guild_index g)" for ms
  proof (rule achieves_del_all [OF ho])
    let ?ks = "remove_all ms ks"
    have inv': "cache_inv ?ks"
      using cache_only.remove_all_keeps [of ks ms] guild_index_members [OF inv(1) ms] inv(1) by auto
    have same: "?ks (guild_key g) = ks (guild_key g)"
      using guild_index_members [OF inv(1) ms] guild_key_not_scope [OF inv(1) ms]
      by (subst remove_all_object) force+
    have "\<exists>v. de_value R s = Inr v" if "ks (guild_key g) = Some (RStr s)" for s
      using that inv(2) docsD doc_of_value [OF serde] by (metis cached_keys(1) kind_of_keys(1) kind_in_kinds(1))
    moreover have "string_at ?ks (guild_key g) = string_at ks (guild_key g)"
      using same by (simp add: string_at_def)
    moreover have "achieves True (cache_del R (guild_key g)) Q ?ks"
      if "Q () (cleared g ms ks)" for Q
      using that cache_inv_parts(1) [OF inv'] ho by (intro achieves_cache_del) (simp_all add: cleared_def)
    ultimately show "achieves True (then_result (cache_get (de_value R) (guild_key g)) (\<lambda>guild.
        case guild of
          Inr x \<Rightarrow> and_then (cache_del R (guild_key g)) (\<lambda>_. ok x)
        | Inl _ \<Rightarrow> ok None)) P ?ks"
      using post [OF ms] well_typed_stringy [OF cache_inv_parts(1) [OF inv']]
      by (auto simp del: string_at_Some simp: string_at_Some [THEN iffD1] achieves_then_result wp_cache_get
          achieves_and_then achieves_Ok cached_value_def split: option.splits sum.splits)
  qed (use guild_index_members [OF inv(1) ms] cache_inv_parts(1) [OF inv(1)] in auto)
  show ?thesis
    unfolding clear_guild_def achieves_then_result [of _ True "get_members _"] wp_get_members
      scope_index_def [symmetric]
    using setty step by (auto simp: achieves_and_then)
qed

text \<open>
  C12: on a server that answers, \<open>GuildDelete\<close> removes the guild and every object its
  index names, so every role, emoji, member, presence and voice state of the guild and every
  channel known to be in it, and returns the guild that was cached.
\<close>

theorem guild_delete_clears:
  assumes "redis_contract True S view" "runtime_ok C R" "cache_inv (view w)" "docs R (view w)"
  shows "\<exists>w'. run S (update C R b (GuildDelete g u)) w =
      (Ok (cached_value R (view w) (guild_key g)), w') \<and>
    view w' (guild_key g) = None \<and>
    (\<forall>x. x |\<in>| set_at (view w) (guild_index g) \<longrightarrow> view w' x = None) \<and>
    (\<forall>x. kind_of x \<in> {ROLE_KEY, EMOJI_KEY, MEMBER_KEY, PRESENCE_KEY, VOICE_KEY} \<and>
         length (parts_of x) > 2 \<and> parts_of x ! 1 = show_u64 g \<longrightarrow> view w' x = None)"
proof -
  note inv = cache_inv_parts [OF assms(3)]
  have scope: "object_key x" if "x |\<in>| set_at (view w) (guild_index g)" for x
    using scope_soundD(1) [OF inv(5) _ that] by simp
  have indexed: "view w x = None"
    if "x |\<notin>| set_at (view w) (guild_index g)" "kind_of x \<in> {ROLE_KEY, EMOJI_KEY, MEMBER_KEY, PRESENCE_KEY, VOICE_KEY}"
      "length (parts_of x) > 2" "parts_of x ! 1 = show_u64 g" for x
  proof -
    have "kind_of x \<in> kinds" "scope_kind x = GUILD_KEY"
      using that(2) by (auto simp: scope_kind_def)
    then show ?thesis
      using inv(4) that unfolding scope_complete_def by metis
  qed
  have "achieves True (clear_guild R g) (\<lambda>old ks. old = cached_value R (view w) (guild_key g) \<and>
      ks (guild_key g) = None \<and> (\<forall>x. x |\<in>| set_at (view w) (guild_index g) \<longrightarrow> ks x = None) \<and>
      (\<forall>x. kind_of x \<in> {ROLE_KEY, EMOJI_KEY, MEMBER_KEY, PRESENCE_KEY, VOICE_KEY} \<and>
         length (parts_of x) > 2 \<and> parts_of x ! 1 = show_u64 g \<longrightarrow> ks x = None)) (view w)"
    using assms(2-4) indexed scope
    by (intro achieves_clear_guild) (auto simp: cleared_object)
  then show ?thesis
    unfolding update.simps on_guild_delete_def by (rule run_up [OF assms(1)]) blast
qed

text \<open>
  C34: clearing a guild leaves the names of its channels in the guild's index, though their
  objects are gone: \<open>del_all\<close> gets the stored names \<open>channel:id\<close>, from which it cannot tell
  the guild.
\<close>

theorem guild_delete_stale_channels:
  assumes "redis_contract True S view" "runtime_ok C R" "cache_inv (view w)" "docs R (view w)"
    and "c |\<in>| set_at (view w) (guild_index g)" "kind_of c = CHANNEL_KEY"
    and "run S (update C R b (GuildDelete g u)) w = (Ok old, w')"
  shows "view w' c = None \<and> c |\<in>| set_at (view w') (guild_index g)"
proof -
  note inv = cache_inv_parts [OF assms(3)]
  have c: "object_key c" "length (parts_of c) = 2"
    using scope_soundD(1,4) [OF inv(5) _ assms(5)] assms(6) by simp_all
  have keep: "c |\<in>| set_at (cleared g ms (view w)) (guild_index g)"
    if ms: "fset_of_list ms = set_at (view w) (guild_index g)" for ms
  proof -
    have obj: "\<forall>k \<in> set ms. object_key k"
      using guild_index_members [OF assms(3) ms] by simp
    have out: "c \<notin> set (entries ms (guild_index g))"
      using guild_index_members(2) [OF assms(3) ms] c(2)
      by (auto simp: entries_def index_keys_iff kind_no_colon)
    have "set_at (remove_all ms (view w)) (guild_index g) =
        set_at (view w) (guild_index g) |-| fset_of_list (entries ms (guild_index g))"
      using obj by (intro set_at_remove_all) simp_all
    with out assms(5) show ?thesis
      by (simp add: cleared_def set_at_scope_del key_simps fset_of_list_elem)
  qed
  have "achieves True (update C R b (GuildDelete g u))
      (\<lambda>_ ks. ks c = None \<and> c |\<in>| set_at ks (guild_index g)) (view w)"
    unfolding update.simps on_guild_delete_def using assms(2-5) c keep
    by (intro achieves_clear_guild) (auto simp: cleared_object)
  from run_achieves [OF assms(1) this] assms(7) show ?thesis
    by simp
qed

section \<open>Creating\<close>

text \<open>The item that ends up at a storage key: the last one of the batch with this key.\<close>

definition last_item :: "(string \<times> 't) list \<Rightarrow> string \<Rightarrow> 't option" where
  "last_item kvs = map_of (rev (map (\<lambda>(k, v). (storage_key k, v)) kvs))"

lemma last_item_app: "last_item (xs @ [(k, v)]) = (last_item xs)(storage_key k \<mapsto> v)"
  by (simp add: last_item_def)

lemma last_item_None: "last_item kvs x = None \<longleftrightarrow> x \<notin> storage_key ` fst ` set kvs"
  by (force simp: last_item_def map_of_eq_None_iff)

lemma last_item_serialised:
  assumes "serialised ser kvs skvs"
  shows "last_item kvs x = Some v \<Longrightarrow> \<exists>s. ser v = Inr s \<and> last_item skvs x = Some s"
    and "last_item kvs x = None \<longleftrightarrow> last_item skvs x = None"
  using assms
proof (induction kvs arbitrary: skvs rule: rev_induct)
  case (snoc p kvs)
  obtain k v' where p: "p = (k, v')"
    by (cases p)
  {
    case 1
    with p obtain skvs' s where "skvs = skvs' @ [(k, s)]" "ser v' = Inr s" "serialised ser kvs skvs'"
      by (auto simp: serialised_def list_all2_append1 list_all2_Cons1)
    with 1 snoc.IH(1) [of skvs'] show ?case
      by (auto simp: p last_item_app split: if_splits)
  next
    case 2
    with p obtain skvs' s where "skvs = skvs' @ [(k, s)]" "serialised ser kvs skvs'"
      by (auto simp: serialised_def list_all2_append1 list_all2_Cons1)
    with snoc.IH(2) [of skvs'] show ?case
      by (auto simp: p last_item_app)
  }
qed (simp_all add: last_item_def)

lemma put_all_object:
  assumes "\<forall>k \<in> set (map fst kvs). object_key k" "object_key x"
  shows "put_all kvs ks x = (case last_item kvs x of Some s \<Rightarrow> Some (RStr s) | None \<Rightarrow> ks x)"
proof -
  have "entries (map fst kvs) x = []"
    using assms entries_idx [of "map fst kvs" x] idx_not_object by blast
  then show ?thesis
    by (simp add: put_all_lookup [OF assms(1)] last_item_def)
qed

lemma guild_items_objects: "\<forall>(k, i) \<in> set (guild_items C b d). object_key k"
  using guild_items_scope [where R = undefined] by fastforce

definition bare_guild :: "guild \<Rightarrow> guild" where
  "bare_guild d = d\<lparr>gd_channels := [], gd_roles := [], gd_emojis := [], gd_voice_states := [],
     gd_members := [], gd_presences := []\<rparr>"

lemma last_item_guild: "last_item (guild_items C b d) (guild_key (gd_id d)) = Some (GuildI (bare_guild d))"
  by (simp add: guild_items_def last_item_app bare_guild_def flip: append_assoc)

lemma achieves_guild_create:
  assumes R: "runtime_ok C R" and inv: "cache_inv ks" "docs R ks"
    and post: "\<And>ms skvs fvs. fset_of_list ms = set_at ks (guild_index (gd_id d)) \<Longrightarrow>
      serialised (ser_item R) (guild_items C b d) skvs \<Longrightarrow>
      P (cached_value R ks (guild_key (gd_id d))) (put_expiry fvs (put_all skvs (cleared (gd_id d) ms ks)))"
  shows "achieves True (on_guild_create C R b d) P ks"
  unfolding on_guild_create_def achieves_and_then achieves_Ok achieves_when
proof (rule achieves_clear_guild [OF R inv])
  fix ms
  assume ms: "fset_of_list ms = set_at ks (guild_index (gd_id d))"
  let ?ks = "cleared (gd_id d) ms ks"
  have t: "well_typed ?ks"
    by (rule cache_inv_parts [OF cleared_inv [OF inv(1) ms]])
  show "achieves True (set_all R (ser_item R) (guild_items C b d)) (\<lambda>_ ks'. if state_member C
      then achieves True (expire_all R
             (map (\<lambda>m. (member_key (gd_id d) (us_id (mb_user m)), state_member_ttl C)) (gd_members d)))
             (\<lambda>_. P (cached_value R ks (guild_key (gd_id d)))) ks'
      else P (cached_value R ks (guild_key (gd_id d))) ks') ?ks"
  proof (rule achieves_set_all [OF _ guild_items_objects t])
    fix skvs
    assume skvs: "serialised (ser_item R) (guild_items C b d) skvs"
    have "cache_inv (put_all skvs ?ks)"
      using cache_only.put_all_keeps [OF cleared_inv [OF inv(1) ms], of skvs] guild_items_objects [of C b d]
        serialised_mem [OF skvs] by fastforce
    then have "hashy (put_all skvs ?ks) EXPIRY_KEYS"
      by (intro well_typed_hashy cache_inv_parts)
    with R post [OF ms skvs] post [OF ms skvs, of "[]"] show "if state_member C
      then achieves True (expire_all R
             (map (\<lambda>m. (member_key (gd_id d) (us_id (mb_user m)), state_member_ttl C)) (gd_members d)))
             (\<lambda>_. P (cached_value R ks (guild_key (gd_id d)))) (put_all skvs ?ks)
      else P (cached_value R ks (guild_key (gd_id d))) (put_all skvs ?ks)"
      by (auto simp: runtime_ok_def put_expiry_def intro!: achieves_expire_all)
  qed (use R ser_item_total in \<open>auto simp: runtime_ok_def\<close>)
qed

text \<open>
  C11: on a server that answers, \<open>GuildCreate\<close> replaces the guild: every item ends up under
  its storage key (of items with the same key the last), the guild itself without its lists;
  of the guild's roles, emojis, members, presences and voice states, and of all the objects that
  the index of the guild named, so of every channel known to be in it, no others are left; the
  event returns the guild that was cached before.
\<close>

theorem guild_create_replaces:
  assumes "redis_contract True S view" "runtime_ok C R" "cache_inv (view w)" "docs R (view w)"
  shows "\<exists>w'. run S (update C R b (GuildCreate d)) w =
      (Ok (cached_value R (view w) (guild_key (gd_id d))), w') \<and>
    (\<forall>x i. last_item (guild_items C b d) x = Some i \<longrightarrow>
       (\<exists>s. ser_item R i = Inr s \<and> view w' x = Some (RStr s))) \<and>
    (\<forall>x. kind_of x \<in> {ROLE_KEY, EMOJI_KEY, MEMBER_KEY, PRESENCE_KEY, VOICE_KEY} \<and>
         length (parts_of x) > 2 \<and> parts_of x ! 1 = show_u64 (gd_id d) \<and>
         last_item (guild_items C b d) x = None \<longrightarrow> view w' x = None) \<and>
    (\<forall>x. x |\<in>| set_at (view w) (guild_index (gd_id d)) \<and>
         last_item (guild_items C b d) x = None \<longrightarrow> view w' x = None)"
proof -
  let ?items = "guild_items C b d" and ?g = "gd_id d"
  have "achieves True (update C R b (GuildCreate d)) (\<lambda>old ks. old = cached_value R (view w) (guild_key ?g) \<and>
      (\<forall>x i. last_item ?items x = Some i \<longrightarrow> (\<exists>s. ser_item R i = Inr s \<and> ks x = Some (RStr s))) \<and>
      (\<forall>x. kind_of x \<in> {ROLE_KEY, EMOJI_KEY, MEMBER_KEY, PRESENCE_KEY, VOICE_KEY} \<and>
         length (parts_of x) > 2 \<and> parts_of x ! 1 = show_u64 ?g \<and>
         last_item ?items x = None \<longrightarrow> ks x = None) \<and>
      (\<forall>x. x |\<in>| set_at (view w) (guild_index ?g) \<and> last_item ?items x = None \<longrightarrow> ks x = None)) (view w)"
    unfolding update.simps
  proof (rule achieves_guild_create [OF assms(2-4)], intro conjI allI impI, goal_cases)
    case (2 ms skvs fvs x i)
    have obj: "\<forall>k \<in> set (map fst skvs). object_key k"
      using guild_items_objects [of C b d] by (auto simp: serialised_keys [OF 2(2)])
    have "x \<in> storage_key ` fst ` set ?items"
      using 2(3) last_item_None [of ?items x] by force
    then have "object_key x"
      using guild_items_objects [of C b d] by (fastforce intro: object_storage_key)
    then show ?case
      using last_item_serialised(1) [OF 2(2,3)] obj
      by (auto simp: put_expiry_other object_not_expiry put_all_object)
  next
    case (3 ms skvs fvs x)
    have obj: "\<forall>k \<in> set (map fst skvs). object_key k"
      using guild_items_objects [of C b d] by (auto simp: serialised_keys [OF 3(2)])
    have x: "object_key x" "kind_of x \<in> kinds" "scope_kind x = GUILD_KEY"
      using 3(3) by (auto simp: scope_kind_def)
    have "cleared ?g ms (view w) x = None"
      using x 3(3) cache_inv_parts(4) [OF assms(3)] unfolding scope_complete_def
      by (auto simp: cleared_object [OF assms(3) 3(1)])
    then show ?case
      using x 3(3) last_item_serialised(2) [OF 3(2), of x] obj
      by (simp add: put_expiry_other object_not_expiry put_all_object)
  next
    case (4 ms skvs fvs x)
    have obj: "\<forall>k \<in> set (map fst skvs). object_key k"
      using guild_items_objects [of C b d] by (auto simp: serialised_keys [OF 4(2)])
    have "x \<in> set ms"
      using 4(3) by (simp add: fset_of_list_elem flip: 4(1))
    then have x: "object_key x" "x \<in> set ms"
      using guild_index_members(1) [OF assms(3) 4(1)] by simp_all
    then have "cleared ?g ms (view w) x = None"
      using 4(3) by (simp add: cleared_object [OF assms(3) 4(1)])
    then show ?case
      using x 4(3) last_item_serialised(2) [OF 4(2), of x] obj
      by (simp add: put_expiry_other object_not_expiry put_all_object)
  qed simp
  then show ?thesis
    by (rule run_up [OF assms(1)]) blast
qed

end
