(* ===== verification/Jobs.thy ===== *)
theory Jobs
  imports GuildLife
begin

text \<open>
  \<open>run_jobs\<close> of \<open>src/cache.rs\<close>: one iteration of the endless loop, which dumps the status
  and the session of every shard and removes the objects whose time to live has ended. Each
  cluster is asked for its shards twice, once for the statuses and once for the sessions, so an
  iteration gets two snapshots of each.
\<close>

section \<open>Statuses and sessions\<close>

text \<open>\<open>recent().back().map(|value| value.as_millis() as u64).unwrap_or_default()\<close>.\<close>

definition latency_of :: "shard_info \<Rightarrow> u64" where
  "latency_of i = (if sh_recent i = [] then 0 else of_nat (last (sh_recent i)))"

definition status_of :: "runtime \<Rightarrow> u64 \<Rightarrow> shard_info \<Rightarrow> status_info task" where
  "status_of R shard i =
     and_then now (\<lambda>t.
       case sh_received i of
         Some elapsed \<Rightarrow>
           and_then (Done (sub_duration R t (sint (of_nat elapsed :: u64)))) (\<lambda>ack.
             ok \<lparr>st_shard = shard, st_status = stage_name R (sh_stage i),
                 st_latency = latency_of i, st_last_ack = ack\<rparr>)
       | None \<Rightarrow> ok \<lparr>st_shard = shard, st_status = stage_name R (sh_stage i),
                     st_latency = latency_of i, st_last_ack = t\<rparr>)"

fun statuses_of :: "runtime \<Rightarrow> snapshot \<Rightarrow> status_info list task" where
  "statuses_of R [] = ok []"
| "statuses_of R ((shard, i) # rest) =
     and_then (status_of R shard i) (\<lambda>st. and_then (statuses_of R rest) (\<lambda>sts. ok (st # sts)))"

type_synonym sessions = "(string \<times> session_info) list"

fun insert_entry :: "'k \<Rightarrow> 'v \<Rightarrow> ('k \<times> 'v) list \<Rightarrow> ('k \<times> 'v) list" where
  "insert_entry k v [] = [(k, v)]"
| "insert_entry k v ((k', v') # m) =
     (if k' = k then (k', v) # m else (k', v') # insert_entry k v m)"

definition session_of :: "shard_info \<Rightarrow> session_info" where
  "session_of i =
     \<lparr>si_session_id = (case sh_session_id i of Some s \<Rightarrow> s | None \<Rightarrow> ''''), si_sequence = sh_seq i\<rparr>"

fun insert_sessions :: "snapshot \<Rightarrow> sessions \<Rightarrow> sessions" where
  "insert_sessions [] m = m"
| "insert_sessions ((shard, i) # rest) m =
     insert_sessions rest (insert_entry (show_u64 shard) (session_of i) m)"

fun collect_infos ::
  "runtime \<Rightarrow> (snapshot \<times> snapshot) list \<Rightarrow> status_info list \<Rightarrow> sessions \<Rightarrow>
     (status_info list \<times> sessions) task" where
  "collect_infos R [] statuses sessions = ok (statuses, sessions)"
| "collect_infos R ((first, second) # rest) statuses sessions =
     and_then (statuses_of R first) (\<lambda>status.
       collect_infos R rest (statuses @ status) (insert_sessions second sessions))"

section \<open>Expired keys\<close>

fun expired_keys :: "runtime \<Rightarrow> (string \<times> string) list \<Rightarrow> string list task" where
  "expired_keys R [] = ok []"
| "expired_keys R ((key, value) # rest) =
     (case de_datetime R value of
        Inr timestamp \<Rightarrow>
          and_then now (\<lambda>t. and_then (expired_keys R rest) (\<lambda>keys.
            ok (if sub_datetime timestamp t < 0 then key # keys else keys)))
      | Inl _ \<Rightarrow> expired_keys R rest)"

definition expire_job :: "runtime \<Rightarrow> unit task" where
  "expire_job R =
     then_result (get_hashmap EXPIRY_KEYS) (\<lambda>hashmap.
       case hashmap of
         Inr fvs \<Rightarrow>
           and_then (expired_keys R fvs) (\<lambda>keys.
             then_result (del_all R keys) (\<lambda>r.
               case r of
                 Inl _ \<Rightarrow> ok ()
               | Inr _ \<Rightarrow> then_result (del_hashmap EXPIRY_KEYS keys) (\<lambda>_. ok ())))
       | Inl _ \<Rightarrow> ok ())"

section \<open>The job\<close>

text \<open>
  Serialising a status formats its date, which panics when the date has no format; an error of
  a store is logged and ignored.
\<close>

definition set_statuses :: "runtime \<Rightarrow> status_info list \<Rightarrow> unit task" where
  "set_statuses R statuses =
     (if list_ex (\<lambda>st. dt_format R (st_last_ack st) = None) statuses
      then Done (Panic ''called Result::unwrap() on an Err value'')
      else cache_set R (ser_statuses R) STATUSES_KEY statuses)"

definition cache_job :: "runtime \<Rightarrow> (snapshot \<times> snapshot) list \<Rightarrow> unit task" where
  "cache_job R infos =
     and_then (collect_infos R infos [] []) (\<lambda>(statuses, sessions).
       then_result (set_statuses R (sort_key st_shard statuses)) (\<lambda>_.
         then_result (cache_set R (ser_sessions R) SESSIONS_KEY sessions) (\<lambda>_.
           expire_job R)))"

section \<open>What expires\<close>

text \<open>\<open>lo\<close> and \<open>hi\<close> bound the clock during the job.\<close>

definition clock_within :: "datetime \<Rightarrow> datetime \<Rightarrow> datetime \<Rightarrow> bool" where
  "clock_within lo hi t \<longleftrightarrow> sane_time t \<and> lo \<le> t \<and> t \<le> hi"

definition expires_by :: "runtime \<Rightarrow> datetime \<Rightarrow> string \<Rightarrow> bool" where
  "expires_by R t value = (case de_datetime R value of Inl _ \<Rightarrow> False | Inr e \<Rightarrow> e < t)"

definition due :: "runtime \<Rightarrow> datetime \<Rightarrow> (string \<times> string) list \<Rightarrow> string set" where
  "due R t fvs = {k. \<exists>v. (k, v) \<in> set fvs \<and> expires_by R t v}"

lemma due_simps [simp]:
  "due R t [] = {}"
  "due R t ((k, v) # fvs) = (if expires_by R t v then insert k (due R t fvs) else due R t fvs)"
  by (auto simp: due_def)

lemma achieves_expired_keys:
  assumes "\<And>keys. set keys \<subseteq> due R hi fvs \<Longrightarrow> due R lo fvs \<subseteq> set keys \<Longrightarrow> P keys ks"
  shows "achieves_in (clock_within lo hi) up (expired_keys R fvs) P ks"
  using assms
proof (induction fvs arbitrary: P)
  case Nil
  then show ?case
    by (simp add: wp_simps)
next
  case (Cons p fvs)
  obtain k v where p: "p = (k, v)"
    by (cases p)
  show ?case
  proof (cases "de_datetime R v")
    case (Inl e)
    then show ?thesis
      using Cons.prems by (auto simp: p expires_by_def intro!: Cons.IH)
  next
    case (Inr e)
    have "achieves_in (clock_within lo hi) up (expired_keys R fvs)
        (\<lambda>keys. P (if e - t < 0 then k # keys else keys)) ks" if "clock_within lo hi t" for t
    proof (rule Cons.IH)
      fix keys
      assume keys: "set keys \<subseteq> due R hi fvs" "due R lo fvs \<subseteq> set keys"
      have "e < lo \<Longrightarrow> e - t < 0" "e - t < 0 \<Longrightarrow> e < hi"
        using that by (auto simp: clock_within_def)
      with keys Inr show "P (if e - t < 0 then k # keys else keys) ks"
        by (intro Cons.prems) (auto simp: p expires_by_def)
    qed
    with Inr show ?thesis
      by (simp add: p wp_simps)
  qed
qed

lemma run_up_unit:
  assumes "contract_in T True S view" "achieves_in T True t (\<lambda>_. Q) (view w)"
  shows "\<exists>w'. run S t w = (Ok (), w') \<and> Q (view w')"
  using run_up [OF assms] by (metis old.unit.exhaust)

lemma storage_expiring [simp]: "expiring k \<Longrightarrow> storage_key k = k"
  by (auto simp: expiring_def storage_key_def Let_def kind_of_def)

lemma achieves_then_up:
  assumes "achieves_in T up t (\<lambda>a. achieves_in T up (f (Inr a)) P) ks" "up"
  shows "achieves_in T up (then_result t f) P ks"
  using assms unfolding achieves_then_result
  by (simp add: achieves_in_def) (erule wp_mono, auto split: res.splits)

lemma due_lookup:
  assumes "distinct (map fst fvs)" "fmap_of_list fvs = h"
  shows "due R t fvs = {k. \<exists>v. fmlookup h k = Some v \<and> expires_by R t v}"
  using assms by (auto simp: due_def fmlookup_of_list)

definition drop_expired :: "string list \<Rightarrow> keyspace \<Rightarrow> keyspace" where
  "drop_expired keys ks =
     (if keys = [] then ks
      else put_hash EXPIRY_KEYS (fmdrop_set (set keys) (hash_at ks EXPIRY_KEYS)) (remove_all keys ks))"

lemma remove_all_expiry:
  assumes "\<forall>k \<in> set keys. object_key k"
  shows "remove_all keys ks EXPIRY_KEYS = ks EXPIRY_KEYS"
proof -
  have "EXPIRY_KEYS \<notin> storage_key ` set keys"
    using assms object_storage_key object_not_expiry by (metis imageE)
  moreover have "entries keys EXPIRY_KEYS = []"
    using assms entries_idx expiry_not_kind(1) by blast
  ultimately show ?thesis
    by (simp add: remove_all_lookup [OF assms])
qed

lemma achieves_expire_job:
  assumes ho: "visits_once (hash_order R)" and inv: "cache_inv ks"
    and post: "\<And>keys. set keys \<subseteq> {k. \<exists>v. fmlookup (hash_at ks EXPIRY_KEYS) k = Some v \<and> expires_by R hi v} \<Longrightarrow>
      {k. \<exists>v. fmlookup (hash_at ks EXPIRY_KEYS) k = Some v \<and> expires_by R lo v} \<subseteq> set keys \<Longrightarrow>
      P () (drop_expired keys ks)"
  shows "achieves_in (clock_within lo hi) True (expire_job R) P ks"
proof -
  have typed: "well_typed ks" "hashy ks EXPIRY_KEYS"
    using inv by (simp_all add: cache_inv_parts well_typed_hashy)
  have step: "achieves_in (clock_within lo hi) True (then_result (del_all R keys) (\<lambda>r.
        case r of Inl _ \<Rightarrow> ok ()
        | Inr _ \<Rightarrow> then_result (del_hashmap EXPIRY_KEYS keys) (\<lambda>_. ok ()))) P ks"
    if keys: "set keys \<subseteq> fmdom' (hash_at ks EXPIRY_KEYS)" and P: "P () (drop_expired keys ks)" for keys
  proof (rule achieves_then_up)
    have obj: "\<forall>k \<in> set keys. object_key k"
      using keys cache_inv_parts(6) [OF inv] by (auto simp: expiry_objects_def)
    have hash: "hashy (remove_all keys ks) EXPIRY_KEYS"
        "hash_at (remove_all keys ks) EXPIRY_KEYS = hash_at ks EXPIRY_KEYS"
      using typed remove_all_expiry [OF obj] by (simp_all add: hashy_def hash_at_def)
    have "achieves_in (clock_within lo hi) True (then_result (del_hashmap EXPIRY_KEYS keys) (\<lambda>_. ok ())) P
        (remove_all keys ks)"
      using P hash
      by (intro achieves_then_up) (auto simp: del_hashmap_def wp_simps drop_expired_def)
    then show "achieves_in (clock_within lo hi) True (del_all R keys) (\<lambda>a. achieves_in (clock_within lo hi) True
        (case Inr a of Inl _ \<Rightarrow> ok ()
         | Inr _ \<Rightarrow> then_result (del_hashmap EXPIRY_KEYS keys) (\<lambda>_. ok ())) P) ks"
      by (intro achieves_narrow [OF achieves_del_all [OF ho obj typed(1)]]) (auto simp: clock_within_def)
  qed simp
  have "achieves_in (clock_within lo hi) True (get_hashmap EXPIRY_KEYS) (\<lambda>a. achieves_in (clock_within lo hi) True
      (and_then (expired_keys R a) (\<lambda>keys. then_result (del_all R keys) (\<lambda>r.
        case r of Inl _ \<Rightarrow> ok ()
        | Inr _ \<Rightarrow> then_result (del_hashmap EXPIRY_KEYS keys) (\<lambda>_. ok ())))) P) ks"
    unfolding get_hashmap_def achieves_and_then achieves_Ok achieves_conn_hgetall
  proof (simp only: typed(2) if_True, intro allI impI achieves_expired_keys step; elim conjE)
    fix fvs keys
    assume "distinct (map fst fvs)" "fmap_of_list fvs = hash_at ks EXPIRY_KEYS"
      "set keys \<subseteq> due R hi fvs" "due R lo fvs \<subseteq> set keys"
    then have keys: "set keys \<subseteq> {k. \<exists>v. fmlookup (hash_at ks EXPIRY_KEYS) k = Some v \<and> expires_by R hi v}"
        "{k. \<exists>v. fmlookup (hash_at ks EXPIRY_KEYS) k = Some v \<and> expires_by R lo v} \<subseteq> set keys"
      by (simp_all add: due_lookup)
    then show "P () (drop_expired keys ks)"
      by (rule post)
    show "set keys \<subseteq> fmdom' (hash_at ks EXPIRY_KEYS)"
      using keys(1) by (auto intro: fmdom'I)
  qed
  then show ?thesis
    unfolding expire_job_def by (intro achieves_then_up) simp_all
qed

lemma cache_inv_drop:
  assumes "cache_inv ks" "set keys \<subseteq> fmdom' (hash_at ks EXPIRY_KEYS)"
  shows "cache_inv (drop_expired keys ks)"
proof -
  have obj: "\<forall>k \<in> set keys. object_key k"
    using assms cache_inv_parts(6) [OF assms(1)] by (auto simp: expiry_objects_def)
  then have "cache_inv (remove_all keys ks)"
    using cache_only.remove_all_keeps [OF assms(1), of keys] by simp
  moreover have "\<forall>f \<in> fmdom' (fmdrop_set (set keys) (hash_at ks EXPIRY_KEYS)). expiring f"
    using cache_inv_parts(6) [OF assms(1)] by (auto simp: expiry_objects_def)
  ultimately show ?thesis
    using assms(1) by (simp add: drop_expired_def cache_inv_put_hash)
qed

text \<open>
  C24: with the clock between \<open>lo\<close> and \<open>hi\<close> during the job, on a server that answers,
  \<open>run_jobs\<close> removes every object whose expiry lies before \<open>lo\<close> and none whose expiry
  does not lie before \<open>hi\<close>; the expiry entries of the removed objects go with them, all else
  stays, and so does the invariant.
\<close>

theorem job_expires:
  assumes "redis_contract True S view" "\<And>w. lo \<le> fst (sv_now S w) \<and> fst (sv_now S w) \<le> hi"
    and "visits_once (hash_order R)" "cache_inv (view w)"
  defines "expiry \<equiv> fmlookup (hash_at (view w) EXPIRY_KEYS)"
  shows "\<exists>w'. run S (expire_job R) w = (Ok (), w') \<and> (\<exists>keys. cache_inv (view w') \<and>
    (\<forall>k e. expiry k = Some e \<and> expires_by R lo e \<longrightarrow> k \<in> set keys) \<and>
    (\<forall>k \<in> set keys. \<exists>e. expiry k = Some e \<and> expires_by R hi e) \<and>
    (\<forall>x. object_key x \<longrightarrow> view w' x = (if x \<in> set keys then None else view w x)) \<and>
    fmlookup (hash_at (view w') EXPIRY_KEYS) = (\<lambda>k. if k \<in> set keys then None else expiry k))"
proof -
  have clock: "contract_in (clock_within lo hi) True S view"
    using assms(1,2) by (simp add: contract_in_def clock_within_def)
  have "achieves_in (clock_within lo hi) True (expire_job R) (\<lambda>_ ks. \<exists>keys. cache_inv ks \<and>
      (\<forall>k e. expiry k = Some e \<and> expires_by R lo e \<longrightarrow> k \<in> set keys) \<and>
      (\<forall>k \<in> set keys. \<exists>e. expiry k = Some e \<and> expires_by R hi e) \<and>
      (\<forall>x. object_key x \<longrightarrow> ks x = (if x \<in> set keys then None else view w x)) \<and>
      fmlookup (hash_at ks EXPIRY_KEYS) = (\<lambda>k. if k \<in> set keys then None else expiry k)) (view w)"
  proof (rule achieves_expire_job [OF assms(3,4)], rule exI, intro conjI allI impI ballI)
    fix keys
    assume keys: "set keys \<subseteq> {k. \<exists>v. fmlookup (hash_at (view w) EXPIRY_KEYS) k = Some v \<and> expires_by R hi v}"
      "{k. \<exists>v. fmlookup (hash_at (view w) EXPIRY_KEYS) k = Some v \<and> expires_by R lo v} \<subseteq> set keys"
    then have dom: "set keys \<subseteq> fmdom' (hash_at (view w) EXPIRY_KEYS)"
      by (auto intro: fmdom'I)
    then have obj: "\<forall>k \<in> set keys. object_key k"
      using cache_inv_parts(6) [OF assms(4)] by (auto simp: expiry_objects_def)
    have storage: "storage_key ` set keys = set keys"
      using dom cache_inv_parts(6) [OF assms(4)] by (force simp: expiry_objects_def)
    show "cache_inv (drop_expired keys (view w))"
      by (rule cache_inv_drop [OF assms(4) dom])
    show "fmlookup (hash_at (drop_expired keys (view w)) EXPIRY_KEYS) =
        (\<lambda>k. if k \<in> set keys then None else expiry k)"
      by (auto simp: drop_expired_def expiry_def)
    show "drop_expired keys (view w) x = (if x \<in> set keys then None else view w x)"
      if "object_key x" for x
      using that object_not_expiry [OF that] storage
      by (auto simp: drop_expired_def remove_all_object [OF obj])
  qed (auto simp: expiry_def)
  from run_up_unit [OF clock this] show ?thesis .
qed

section \<open>What is dumped\<close>

lemma map_of_insert_entry: "map_of (insert_entry k v m) = (map_of m)(k \<mapsto> v)"
  by (induction k v m rule: insert_entry.induct) (auto simp: fun_eq_iff)

lemma map_of_insert_sessions:
  "map_of (insert_sessions snap m) =
     map_of m ++ map_of (rev (map (\<lambda>(sh, i). (show_u64 sh, session_of i)) snap))"
  by (induction snap m rule: insert_sessions.induct)
    (auto simp: map_of_insert_entry map_add_def fun_eq_iff split: option.split)

definition described :: "runtime \<Rightarrow> u64 \<times> shard_info \<Rightarrow> u64 \<times> string \<times> u64" where
  "described R = (\<lambda>(sh, i). (sh, stage_name R (sh_stage i), latency_of i))"

definition status_desc :: "status_info \<Rightarrow> u64 \<times> string \<times> u64" where
  "status_desc st = (st_shard st, st_status st, st_latency st)"

text \<open>The dates the statuses need exist and have a format.\<close>

definition dates_ok :: "runtime \<Rightarrow> snapshot \<Rightarrow> bool" where
  "dates_ok R snap \<longleftrightarrow> (\<forall>(sh, i) \<in> set snap. \<forall>t. sane_time t \<longrightarrow> dt_format R t \<noteq> None \<and>
     (\<forall>e. sh_received i = Some e \<longrightarrow>
        (\<exists>a. dt_add R t (- sint (of_nat e :: u64)) = Some a \<and> dt_format R a \<noteq> None)))"

lemma achieves_status_of:
  assumes dates: "up \<Longrightarrow> dates_ok R [(sh, i)]"
    and post: "\<And>st. status_desc st = described R (sh, i) \<Longrightarrow>
      up \<longrightarrow> dt_format R (st_last_ack st) \<noteq> None \<Longrightarrow> P st ks"
  shows "achieves up (status_of R sh i) P ks"
  unfolding status_of_def and_then_sub and_then_add
  unfolding achieves_and_then achieves_now
proof (intro allI impI)
  fix t
  assume t: "sane_time t"
  have fmt: "up \<longrightarrow> dt_format R t \<noteq> None"
    and add: "up \<Longrightarrow> sh_received i = Some e \<Longrightarrow>
      \<exists>a. dt_add R t (- sint (of_nat e :: u64)) = Some a \<and> dt_format R a \<noteq> None" for e
    using dates t by (simp_all add: dates_ok_def)
  have ok: "P \<lparr>st_shard = sh, st_status = stage_name R (sh_stage i),
      st_latency = latency_of i, st_last_ack = a\<rparr> ks" if "up \<longrightarrow> dt_format R a \<noteq> None" for a
    using that by (intro post) (simp_all add: status_desc_def described_def)
  show "achieves up (case sh_received i of
      None \<Rightarrow> ok \<lparr>st_shard = sh, st_status = stage_name R (sh_stage i),
        st_latency = latency_of i, st_last_ack = t\<rparr>
    | Some elapsed \<Rightarrow>
        (case dt_add R t (- sint (of_nat elapsed :: u64)) of
           None \<Rightarrow> Done (Panic ''resulting value is out of range'')
         | Some ack \<Rightarrow> ok \<lparr>st_shard = sh, st_status = stage_name R (sh_stage i),
             st_latency = latency_of i, st_last_ack = ack\<rparr>)) P ks"
  proof (cases "sh_received i")
    case None
    then show ?thesis
      using ok [OF fmt] by (simp add: achieves_Ok)
  next
    case (Some e)
    then show ?thesis
      using add [OF _ Some] ok
      by (cases "dt_add R t (- sint (of_nat e :: u64))") (force simp: achieves_Ok achieves_Panic)+
  qed
qed

lemma achieves_statuses_of:
  assumes "up \<Longrightarrow> dates_ok R snap"
    and "\<And>sts. map status_desc sts = map (described R) snap \<Longrightarrow>
      up \<longrightarrow> (\<forall>st \<in> set sts. dt_format R (st_last_ack st) \<noteq> None) \<Longrightarrow> P sts ks"
  shows "achieves up (statuses_of R snap) P ks"
  using assms
proof (induction snap arbitrary: P)
  case Nil
  then show ?case
    by (simp add: wp_simps)
next
  case (Cons p snap)
  obtain sh i where p: "p = (sh, i)"
    by (cases p)
  show ?case
    unfolding p statuses_of.simps achieves_and_then
  proof (rule achieves_status_of)
    fix st
    assume st: "status_desc st = described R (sh, i)" "up \<longrightarrow> dt_format R (st_last_ack st) \<noteq> None"
    show "achieves up (statuses_of R snap) (\<lambda>sts. achieves up (ok (st # sts)) P) ks"
      unfolding achieves_Ok
    proof (rule Cons.IH)
      show "up \<Longrightarrow> dates_ok R snap"
        using Cons.prems(1) by (simp add: dates_ok_def)
    qed (use st Cons.prems(2) p in auto)
  qed (use Cons.prems(1) p in \<open>auto simp: dates_ok_def\<close>)
qed

lemma achieves_collect_infos:
  assumes "up \<Longrightarrow> \<forall>(first, second) \<in> set infos. dates_ok R first"
    and "\<And>sts. map status_desc sts = map (described R) (concat (map fst infos)) \<Longrightarrow>
      up \<longrightarrow> (\<forall>st \<in> set sts. dt_format R (st_last_ack st) \<noteq> None) \<Longrightarrow>
      P (statuses @ sts, insert_sessions (concat (map snd infos)) sessions) ks"
  shows "achieves up (collect_infos R infos statuses sessions) P ks"
  using assms
proof (induction infos arbitrary: statuses sessions P)
  case Nil
  then show ?case
    by (simp add: wp_simps)
next
  case (Cons p infos)
  obtain a b where p: "p = (a, b)"
    by (cases p)
  have app: "insert_sessions (xs @ ys) m = insert_sessions ys (insert_sessions xs m)" for xs ys m
    by (induction xs m rule: insert_sessions.induct) simp_all
  show ?case
    unfolding p collect_infos.simps achieves_and_then
  proof (rule achieves_statuses_of)
    fix sts
    assume sts: "map status_desc sts = map (described R) a"
      "up \<longrightarrow> (\<forall>st \<in> set sts. dt_format R (st_last_ack st) \<noteq> None)"
    show "achieves up (collect_infos R infos (statuses @ sts) (insert_sessions b sessions)) P ks"
    proof (rule Cons.IH)
      fix sts'
      assume "map status_desc sts' = map (described R) (concat (map fst infos))"
        "up \<longrightarrow> (\<forall>st \<in> set sts'. dt_format R (st_last_ack st) \<noteq> None)"
      then show "P ((statuses @ sts) @ sts', insert_sessions (concat (map snd infos)) (insert_sessions b sessions)) ks"
        using Cons.prems(2) [of "sts @ sts'"] sts by (auto simp: p app)
    qed (use Cons.prems(1) p in auto)
  qed (use Cons.prems(1) p in auto)
qed

lemma plain_keys [simp]:
  "object_key STATUSES_KEY" "object_key SESSIONS_KEY"
  "storage_key STATUSES_KEY = STATUSES_KEY" "storage_key SESSIONS_KEY = SESSIONS_KEY"
  "\<not> expiring STATUSES_KEY" "\<not> expiring SESSIONS_KEY" "STATUSES_KEY \<noteq> SESSIONS_KEY"
  by (auto simp: object_key_def kinds_def kind_defs plain_defs parts_of_def split_on_no_sep
      idx_key_def kind_of_def EXPIRY_KEYS_def KEYS_SUFFIX_def storage_key_def expiring_def)

definition dumped :: "runtime \<Rightarrow> (snapshot \<times> snapshot) list \<Rightarrow> status_info list \<Rightarrow> sessions \<Rightarrow> bool" where
  "dumped R infos statuses sessions \<longleftrightarrow>
     sorted (map st_shard statuses) \<and>
     mset (map status_desc statuses) = mset (map (described R) (concat (map fst infos))) \<and>
     map_of sessions =
       map_of (rev (map (\<lambda>(sh, i). (show_u64 sh, session_of i)) (concat (map snd infos))))"

lemma expire_job_keeps:
  assumes "visits_once (hash_order R)" "cache_inv ks"
    and "\<And>ks'. cache_inv ks' \<Longrightarrow> (\<And>x. object_key x \<Longrightarrow> \<not> expiring x \<Longrightarrow> ks' x = ks x) \<Longrightarrow> P () ks'"
  shows "achieves True (expire_job R) P ks"
proof -
  have "achieves_in (clock_within 0 221845392000000000000) True (expire_job R) P ks"
  proof (rule achieves_expire_job [OF assms(1,2)])
    fix keys
    assume "set keys \<subseteq> {k. \<exists>v. fmlookup (hash_at ks EXPIRY_KEYS) k = Some v \<and>
      expires_by R 221845392000000000000 v}"
    then have dom: "set keys \<subseteq> fmdom' (hash_at ks EXPIRY_KEYS)"
      by (auto intro: fmdom'I)
    then have exp: "\<forall>k \<in> set keys. expiring k"
      using cache_inv_parts(6) [OF assms(2)] by (auto simp: expiry_objects_def)
    then have "drop_expired keys ks x = ks x" if "object_key x" "\<not> expiring x" for x
      using that object_not_expiry [OF that(1)]
      by (auto simp: drop_expired_def remove_all_object)
    with cache_inv_drop [OF assms(2) dom] show "P () (drop_expired keys ks)"
      by (rule assms(3))
  qed
  then show ?thesis
    by (rule achieves_narrow) (simp add: clock_within_def sane_time_def)
qed

lemma achieves_cache_job:
  assumes R: "visits_once (hash_order R)" and inv: "cache_inv ks"
    and ser: "\<And>x. \<exists>s. ser_statuses R x = Inr s" "\<And>x. \<exists>s. ser_sessions R x = Inr s"
    and dates: "\<forall>(first, second) \<in> set infos. dates_ok R first"
  shows "achieves True (cache_job R infos) (\<lambda>_ ks'. cache_inv ks' \<and>
    (\<exists>statuses s s'. dumped R infos statuses (insert_sessions (concat (map snd infos)) []) \<and>
       ser_statuses R statuses = Inr s \<and> ks' STATUSES_KEY = Some (RStr s) \<and>
       ser_sessions R (insert_sessions (concat (map snd infos)) []) = Inr s' \<and>
       ks' SESSIONS_KEY = Some (RStr s')) \<and>
    (\<forall>x. object_key x \<longrightarrow> \<not> expiring x \<longrightarrow> x \<notin> {STATUSES_KEY, SESSIONS_KEY} \<longrightarrow> ks' x = ks x)) ks"
  unfolding cache_job_def achieves_and_then
proof (rule achieves_collect_infos)
  fix sts :: "status_info list"
  let ?ss = "insert_sessions (concat (map snd infos)) []" and ?sts = "sort_key st_shard sts"
  assume sts: "map status_desc sts = map (described R) (concat (map fst infos))"
    "True \<longrightarrow> (\<forall>st \<in> set sts. dt_format R (st_last_ack st) \<noteq> None)"
  obtain s s' where ser: "ser_statuses R ?sts = Inr s" "ser_sessions R ?ss = Inr s'"
    using ser by meson
  have "mset (map status_desc ?sts) = mset (map (described R) (concat (map fst infos)))"
    unfolding sts(1) [symmetric] by simp
  then have "dumped R infos ?sts ?ss"
    by (simp add: dumped_def map_of_insert_sessions del: mset_map)
  then show "achieves True (case ([] @ sts, ?ss) of (statuses, sessions) \<Rightarrow>
      then_result (set_statuses R (sort_key st_shard statuses)) (\<lambda>_.
        then_result (cache_set R (ser_sessions R) SESSIONS_KEY sessions) (\<lambda>_. expire_job R)))
      (\<lambda>_ ks'. cache_inv ks' \<and>
        (\<exists>statuses s s'. dumped R infos statuses ?ss \<and>
          ser_statuses R statuses = Inr s \<and> ks' STATUSES_KEY = Some (RStr s) \<and>
          ser_sessions R ?ss = Inr s' \<and> ks' SESSIONS_KEY = Some (RStr s')) \<and>
        (\<forall>x. object_key x \<longrightarrow> \<not> expiring x \<longrightarrow> x \<notin> {STATUSES_KEY, SESSIONS_KEY} \<longrightarrow> ks' x = ks x)) ks"
    using ser R inv sts(2) cache_inv_parts(1) [OF inv]
    by (auto simp: set_statuses_def list_ex_iff put_one_object
        intro!: achieves_then_up achieves_cache_set expire_job_keeps cache_inv_put_one well_typed_put_one)
qed (use dates in auto)

text \<open>
  C30: one iteration of \<open>run_jobs\<close> on a server that answers stores the statuses of all
  shards of all clusters, sorted by shard, and a map with the session of every shard, before it
  removes what has expired, and keeps the invariant.
\<close>

theorem cache_job_dumps:
  assumes "redis_contract True S view" "visits_once (hash_order R)" "cache_inv (view w)"
    and "\<And>x. \<exists>s. ser_statuses R x = Inr s" "\<And>x. \<exists>s. ser_sessions R x = Inr s"
    and "\<forall>(first, second) \<in> set infos. dates_ok R first"
  shows "\<exists>w'. run S (cache_job R infos) w = (Ok (), w') \<and> (cache_inv (view w') \<and>
    (\<exists>statuses sessions s s'. dumped R infos statuses sessions \<and>
       ser_statuses R statuses = Inr s \<and> view w' STATUSES_KEY = Some (RStr s) \<and>
       ser_sessions R sessions = Inr s' \<and> view w' SESSIONS_KEY = Some (RStr s')))"
proof (rule run_up_unit [OF assms(1)], rule achieves_mono [OF achieves_cache_job])
qed (use assms(2-6) in auto)

end
