(* ===== verification/Objects.thy ===== *)
theory Objects
  imports Jobs
begin

text \<open>
  Single objects with a time to live: what the events of messages store, how a partial update
  is merged into the cached message, that the object is gone once its time has ended, and the
  times to live that the code gets wrong.
\<close>

section \<open>Storing with an expiry\<close>

definition expiry_of :: "keyspace \<Rightarrow> string \<Rightarrow> string option" where
  "expiry_of ks = fmlookup (hash_at ks EXPIRY_KEYS)"

text \<open>\<open>ends R T ttl e\<close>: the text of a time at which \<open>ttl\<close> ends, counted from a clock reading.\<close>

definition ends :: "(datetime \<Rightarrow> bool) \<Rightarrow> runtime \<Rightarrow> u64 \<Rightarrow> string \<Rightarrow> bool" where
  "ends T R ttl e \<longleftrightarrow>
     (\<exists>t end. T t \<and> dt_add R t (ttl_millis ttl) = Some end \<and> ser_datetime R end = Ok e)"

lemma achieves_expire:
  assumes T: "\<And>t. T t \<Longrightarrow> sane_time t" and "up \<Longrightarrow> clock_total R ttl" "hashy ks EXPIRY_KEYS"
    and post: "\<And>e. ends T R ttl e \<Longrightarrow> P () (put_expiry [(k, e)] ks)"
  shows "achieves_in T up (expire R k ttl) P ks"
proof -
  have "achieves_in T up (case dt_add R t (ttl_millis ttl) of
      None \<Rightarrow> Done (Panic ''resulting value is out of range'')
    | Some timestamp \<Rightarrow> and_then (Done (ser_datetime R timestamp)) (\<lambda>s.
        and_then (ok []) (\<lambda>kvs. ok ((k, s) # kvs)))) (\<lambda>kvs. achieves_in T up
          (if kvs = [] then ok () else conn_write (HSET EXPIRY_KEYS kvs)) P) ks" if t: "T t" for t
  proof (cases "\<exists>end e. dt_add R t (ttl_millis ttl) = Some end \<and> ser_datetime R end = Ok e")
    case True
    then obtain "end" e where e: "dt_add R t (ttl_millis ttl) = Some end" "ser_datetime R end = Ok e"
      by auto
    with t have "ends T R ttl e"
      by (auto simp: ends_def)
    from post [OF this] e assms(3) show ?thesis
      by (simp add: wp_simps put_expiry_def)
  next
    case False
    with T [OF t] assms(2) have "\<not> up"
      unfolding clock_total_def by blast
    show ?thesis
    proof (cases "dt_add R t (ttl_millis ttl)")
      case (Some "end")
      with False \<open>\<not> up\<close> show ?thesis
        by (cases "ser_datetime R end") (simp_all add: wp_simps)
    qed (use \<open>\<not> up\<close> in \<open>simp add: wp_simps\<close>)
  qed
  then show ?thesis
    by (simp add: expire_def expire_all_def achieves_and_then achieves_Ok achieves_now)
qed

lemma achieves_store_expire:
  assumes "visits_once (hash_order R)" "object_key k" "cache_inv ks" "ser x = Inr s"
    and "\<And>t. T t \<Longrightarrow> sane_time t" "up \<Longrightarrow> clock_total R ttl"
    and post: "\<And>e. ends T R ttl e \<Longrightarrow> P old (put_expiry [(k, e)] (put_one k s ks))"
  shows "achieves_in T up (and_then (cache_set R ser k x) (\<lambda>_. and_then (expire R k ttl) (\<lambda>_. ok old))) P ks"
  unfolding achieves_and_then achieves_Ok
proof (rule achieves_narrow [OF achieves_cache_set])
  have "hashy (put_one k s ks) EXPIRY_KEYS"
    using assms(2,3) by (intro well_typed_hashy well_typed_put_one cache_inv_parts)
  then show "achieves_in T up (expire R k ttl) (\<lambda>_. P old) (put_one k s ks)"
    using assms(5,6) post by (intro achieves_expire) auto
qed (use assms cache_inv_parts(1) in auto)

lemma put_expiry_entry:
  assumes "object_key k"
  shows "expiry_of (put_expiry [(k, e)] ks) = (expiry_of ks)(k \<mapsto> e)"
  by (simp add: expiry_of_def put_expiry_def fun_eq_iff)

lemma expiry_put_one: "object_key k \<Longrightarrow> expiry_of (put_one k s ks) = expiry_of ks"
  by (simp add: expiry_of_def)

section \<open>Messages\<close>

lemma message_key_storage [simp]: "storage_key (message_key c m) = message_key c m"
  by (rule parts_of_inj) (simp add: parts_storage_key key_simps)

definition stored_message :: "runtime \<Rightarrow> message \<Rightarrow> string \<Rightarrow> string \<Rightarrow> keyspace \<Rightarrow> keyspace" where
  "stored_message R d s e ks =
     (let k = message_key (ms_channel_id d) (ms_id d) in put_expiry [(k, e)] (put_one k s ks))"

lemma achieves_message_create:
  assumes "runtime_ok C R" "cache_inv ks" "state_message C" "ser_message R d = Inr s"
    and "\<And>t. T t \<Longrightarrow> sane_time t"
    and "\<And>e. ends T R (state_message_ttl C) e \<Longrightarrow> P None (stored_message R d s e ks)"
  shows "achieves_in T True (on_message_create C R d) P ks"
  unfolding on_message_create_def Let_def
  using assms by (auto simp: runtime_ok_def stored_message_def Let_def intro!: achieves_store_expire)

lemma stored_message_parts:
  fixes d :: message
  defines "k \<equiv> message_key (ms_channel_id d) (ms_id d)"
  shows "stored_message R d s e ks k = Some (RStr s)"
    "expiry_of (stored_message R d s e ks) = (expiry_of ks)(k \<mapsto> e)"
    "cache_inv ks \<Longrightarrow> cache_inv (stored_message R d s e ks)"
  by (simp_all add: stored_message_def Let_def k_def put_expiry_other put_one_object
      object_not_expiry put_expiry_entry expiry_put_one cache_inv_put_expiry cache_inv_put_one)

text \<open>
  \<open>MessageCreate\<close> with message caching on stores the message and the time at which its
  time to live ends.
\<close>

lemma message_create_stores:
  assumes "redis_contract True S view" "runtime_ok C R" "cache_inv (view w)"
    and "state_message C" "ser_message R d = Inr s"
  defines "k \<equiv> message_key (ms_channel_id d) (ms_id d)"
  shows "\<exists>w' e. run S (update C R b (MessageCreate d)) w = (Ok None, w') \<and>
    ends sane_time R (state_message_ttl C) e \<and> view w' k = Some (RStr s) \<and>
    expiry_of (view w') = (expiry_of (view w))(k \<mapsto> e)"
proof -
  have "achieves True (on_message_create C R d) (\<lambda>old ks. \<exists>e. old = None \<and>
      ends sane_time R (state_message_ttl C) e \<and> ks k = Some (RStr s) \<and>
      expiry_of ks = (expiry_of (view w))(k \<mapsto> e)) (view w)"
    using assms(2-5) unfolding k_def
    by (intro achieves_message_create) (auto simp: stored_message_parts)
  from run_up [OF assms(1) this] show ?thesis
    by (metis update.simps(13))
qed

text \<open>
  What the code relies on of the date library: adding a duration adds its milliseconds, and a
  date that was formatted parses as the same date.
\<close>

definition dates_exact :: "runtime \<Rightarrow> bool" where
  "dates_exact R \<longleftrightarrow> (\<forall>t ms e. dt_add R t ms = Some e \<longrightarrow> e = t + ms * 1000000) \<and>
     (\<forall>t s. ser_datetime R t = Ok s \<longrightarrow> de_datetime R s = Inr t)"

lemma ends_expires:
  assumes "dates_exact R" "ends (clock_within a b) R ttl e"
  shows "b + ttl_millis ttl * 1000000 < t \<Longrightarrow> expires_by R t e"
    "t \<le> a + ttl_millis ttl * 1000000 \<Longrightarrow> \<not> expires_by R t e"
  using assms by (fastforce simp: ends_def expires_by_def dates_exact_def clock_within_def)+

lemma clock_within_contract:
  "redis_contract up S view \<Longrightarrow> (\<And>w. lo \<le> fst (sv_now S w) \<and> fst (sv_now S w) \<le> hi) \<Longrightarrow>
    contract_in (clock_within lo hi) up S view"
  by (simp add: contract_in_def clock_within_def)

lemma job_after:
  assumes "redis_contract True S view" "\<And>w. lo \<le> fst (sv_now S w) \<and> fst (sv_now S w) \<le> hi"
    and "visits_once (hash_order R)" "dates_exact R" "cache_inv (view w)"
    and "object_key k" "expiry_of (view w) k = Some e" "ends (clock_within a b) R ttl e"
  shows "\<exists>w'. run S (expire_job R) w = (Ok (), w') \<and>
    (hi \<le> a + ttl_millis ttl * 1000000 \<longrightarrow> view w' k = view w k) \<and>
    (b + ttl_millis ttl * 1000000 < lo \<longrightarrow> view w' k = None)"
proof -
  obtain w' keys where w': "run S (expire_job R) w = (Ok (), w')"
      "\<forall>k e. fmlookup (hash_at (view w) EXPIRY_KEYS) k = Some e \<and> expires_by R lo e \<longrightarrow> k \<in> set keys"
      "\<forall>k \<in> set keys. \<exists>e. fmlookup (hash_at (view w) EXPIRY_KEYS) k = Some e \<and> expires_by R hi e"
      "\<forall>x. object_key x \<longrightarrow> view w' x = (if x \<in> set keys then None else view w x)"
    using job_expires [OF assms(1,2,3,5)] by blast
  have "fmlookup (hash_at (view w) EXPIRY_KEYS) k = Some e"
    using assms(7) by (simp add: expiry_of_def)
  with w' assms(6) have "expires_by R lo e \<Longrightarrow> view w' k = None" "\<not> expires_by R hi e \<Longrightarrow> view w' k = view w k"
    by auto
  with w'(1) ends_expires [OF assms(4,8)] show ?thesis
    by blast
qed

lemma stored_then_job:
  assumes "redis_contract True S view" "\<And>w. a \<le> fst (sv_now S w) \<and> fst (sv_now S w) \<le> b"
    and "redis_contract True S' view" "\<And>w. lo \<le> fst (sv_now S' w) \<and> fst (sv_now S' w) \<le> hi"
    and "runtime_ok C R" "dates_exact R" "cache_inv (view w)"
    and "state_message C" "ser_message R d = Inr s"
  defines "k \<equiv> message_key (ms_channel_id d) (ms_id d)"
    and "ttl \<equiv> ttl_millis (state_message_ttl C) * 1000000"
  shows "\<exists>w1 w2. run S (update C R bid (MessageCreate d)) w = (Ok None, w1) \<and>
    run S' (expire_job R) w1 = (Ok (), w2) \<and>
    (hi \<le> a + ttl \<longrightarrow> view w2 k = Some (RStr s)) \<and> (b + ttl < lo \<longrightarrow> view w2 k = None)"
proof -
  have "achieves_in (clock_within a b) True (on_message_create C R d) (\<lambda>old ks. old = None \<and>
      (\<exists>e. ends (clock_within a b) R (state_message_ttl C) e \<and> ks = stored_message R d s e (view w))) (view w)"
    using assms(5,7-9) by (intro achieves_message_create) (auto simp: clock_within_def)
  from run_up [OF clock_within_contract [OF assms(1,2)] this] obtain w1 e where
    w1: "run S (update C R bid (MessageCreate d)) w = (Ok None, w1)"
      "ends (clock_within a b) R (state_message_ttl C) e" "view w1 = stored_message R d s e (view w)"
    by (metis update.simps(13))
  have "expiry_of (view w1) k = Some e" "view w1 k = Some (RStr s)" "cache_inv (view w1)" "object_key k"
      "visits_once (hash_order R)"
    using stored_message_parts [where R = R and d = d and s = s and e = e and ks = "view w"] assms(5,7)
    by (simp_all add: w1(3) k_def runtime_ok_def)
  then show ?thesis
    using w1(1) job_after [OF assms(3,4) _ assms(6) _ _ _ w1(2), of w1 k] unfolding ttl_def by fastforce
qed

text \<open>
  C25: a message cached while the clock is between \<open>a\<close> and \<open>b\<close> survives a job that ends
  before its time to live has passed since \<open>a\<close>, and is gone after a job that begins when it
  has passed since \<open>b\<close>.
\<close>

theorem message_lifetime:
  assumes "redis_contract True S view" "\<And>w. a \<le> fst (sv_now S w) \<and> fst (sv_now S w) \<le> b"
    and "redis_contract True S' view" "\<And>w. lo \<le> fst (sv_now S' w) \<and> fst (sv_now S' w) \<le> hi"
    and "runtime_ok C R" "dates_exact R" "cache_inv (view w)"
    and "state_message C" "ser_message R d = Inr s"
  defines "k \<equiv> message_key (ms_channel_id d) (ms_id d)"
    and "ttl \<equiv> ttl_millis (state_message_ttl C) * 1000000"
  shows "\<exists>w1 w2. run S (update C R bid (MessageCreate d)) w = (Ok None, w1) \<and>
    run S' (expire_job R) w1 = (Ok (), w2) \<and>
    (hi \<le> a + ttl \<longrightarrow> view w2 k = Some (RStr s)) \<and> (b + ttl < lo \<longrightarrow> view w2 k = None)"
  unfolding k_def ttl_def by (rule stored_then_job [OF assms(1-9)])

lemma ttl_negative:
  assumes "2 ^ 63 \<le> uint ttl"
  shows "ttl_millis ttl < 0"
proof -
  have "sint ttl = (uint ttl + 2 ^ 63) mod 2 ^ 64 - 2 ^ 63"
    by (simp add: sint_uint signed_take_bit_eq_take_bit_shift take_bit_eq_mod)
  moreover have "(uint ttl + 2 ^ 63) mod 2 ^ 64 = uint ttl + 2 ^ 63 - 2 ^ 64"
    using assms uint_lt2p [of ttl] minus_mod_self2 [of "uint ttl + 2 ^ 63" "2 ^ 64"]
      mod_pos_pos_trivial [of "uint ttl + 2 ^ 63 - 2 ^ 64" "2 ^ 64"] by simp
  ultimately show ?thesis
    using uint_lt2p [of ttl] by (simp add: ttl_millis_def)
qed

text \<open>Each field that the update carries replaces the cached one, the others stay.\<close>

lemma assign_fields:
  fixes m :: message
  shows
  "assign_some a (\<lambda>x m. m\<lparr>ms_attachments := x\<rparr>) m = m\<lparr>ms_attachments := case_option (ms_attachments m) id a\<rparr>"
  "assign_some b (\<lambda>x m. m\<lparr>ms_content := x\<rparr>) m = m\<lparr>ms_content := case_option (ms_content m) id b\<rparr>"
  "assign_some c (\<lambda>x m. m\<lparr>ms_embeds := x\<rparr>) m = m\<lparr>ms_embeds := case_option (ms_embeds m) id c\<rparr>"
  "assign_some d (\<lambda>x m. m\<lparr>ms_mention_everyone := x\<rparr>) m = m\<lparr>ms_mention_everyone := case_option (ms_mention_everyone m) id d\<rparr>"
  "assign_some e (\<lambda>x m. m\<lparr>ms_mention_roles := x\<rparr>) m = m\<lparr>ms_mention_roles := case_option (ms_mention_roles m) id e\<rparr>"
  "assign_some f (\<lambda>x m. m\<lparr>ms_mentions := x\<rparr>) m = m\<lparr>ms_mentions := case_option (ms_mentions m) id f\<rparr>"
  "assign_some g (\<lambda>x m. m\<lparr>ms_pinned := x\<rparr>) m = m\<lparr>ms_pinned := case_option (ms_pinned m) id g\<rparr>"
  "assign_some h (\<lambda>x m. m\<lparr>ms_timestamp := x\<rparr>) m = m\<lparr>ms_timestamp := case_option (ms_timestamp m) id h\<rparr>"
  "assign_some i (\<lambda>x m. m\<lparr>ms_tts := x\<rparr>) m = m\<lparr>ms_tts := case_option (ms_tts m) id i\<rparr>"
  "assign_some j (\<lambda>x m. m\<lparr>ms_edited_timestamp := Some x\<rparr>) m =
     m\<lparr>ms_edited_timestamp := case_option (ms_edited_timestamp m) Some j\<rparr>"
  by (simp_all add: assign_some_def split: option.split)

lemma merge_message_fields:
  "ms_id (merge_message d m) = ms_id m"
  "ms_channel_id (merge_message d m) = ms_channel_id m"
  "ms_attachments (merge_message d m) = case_option (ms_attachments m) id (mu_attachments d)"
  "ms_content (merge_message d m) = case_option (ms_content m) id (mu_content d)"
  "ms_edited_timestamp (merge_message d m) =
     case_option (ms_edited_timestamp m) Some (mu_edited_timestamp d)"
  "ms_embeds (merge_message d m) = case_option (ms_embeds m) id (mu_embeds d)"
  "ms_mention_everyone (merge_message d m) =
     case_option (ms_mention_everyone m) id (mu_mention_everyone d)"
  "ms_mention_roles (merge_message d m) = case_option (ms_mention_roles m) id (mu_mention_roles d)"
  "ms_mentions (merge_message d m) = case_option (ms_mentions m) id (mu_mentions d)"
  "ms_pinned (merge_message d m) = case_option (ms_pinned m) id (mu_pinned d)"
  "ms_timestamp (merge_message d m) = case_option (ms_timestamp m) id (mu_timestamp d)"
  "ms_tts (merge_message d m) = case_option (ms_tts m) id (mu_tts d)"
  "ms_rest (merge_message d m) = ms_rest m"
  by (simp_all add: merge_message_def Let_def assign_fields cong del: option.case_cong_weak)

text \<open>The update of an update: later fields win over earlier ones.\<close>

definition or_else :: "'a option \<Rightarrow> 'a option \<Rightarrow> 'a option" where
  "or_else x y = (case x of Some a \<Rightarrow> Some a | None \<Rightarrow> y)"

definition combine :: "message_update \<Rightarrow> message_update \<Rightarrow> message_update" where
  "combine d d' = \<lparr>
     mu_id = mu_id d, mu_channel_id = mu_channel_id d,
     mu_attachments = or_else (mu_attachments d') (mu_attachments d),
     mu_content = or_else (mu_content d') (mu_content d),
     mu_edited_timestamp = or_else (mu_edited_timestamp d') (mu_edited_timestamp d),
     mu_embeds = or_else (mu_embeds d') (mu_embeds d),
     mu_mention_everyone = or_else (mu_mention_everyone d') (mu_mention_everyone d),
     mu_mention_roles = or_else (mu_mention_roles d') (mu_mention_roles d),
     mu_mentions = or_else (mu_mentions d') (mu_mentions d),
     mu_pinned = or_else (mu_pinned d') (mu_pinned d),
     mu_timestamp = or_else (mu_timestamp d') (mu_timestamp d),
     mu_tts = or_else (mu_tts d') (mu_tts d) \<rparr>"

text \<open>
  C32: the merge of an update into the cached message, field by field: each of the ten fields that
  the update carries replaces the cached one and no other changes, the identifiers and the rest of
  the message never do; and merging two updates one after the other is merging their combination,
  in which the fields of the later update win.
\<close>

theorem merge_message_spec:
  "merge_message d m = \<lparr>
     ms_id = ms_id m, ms_channel_id = ms_channel_id m,
     ms_attachments = (case mu_attachments d of Some x \<Rightarrow> x | None \<Rightarrow> ms_attachments m),
     ms_content = (case mu_content d of Some x \<Rightarrow> x | None \<Rightarrow> ms_content m),
     ms_edited_timestamp = (case mu_edited_timestamp d of Some x \<Rightarrow> Some x | None \<Rightarrow> ms_edited_timestamp m),
     ms_embeds = (case mu_embeds d of Some x \<Rightarrow> x | None \<Rightarrow> ms_embeds m),
     ms_mention_everyone = (case mu_mention_everyone d of Some x \<Rightarrow> x | None \<Rightarrow> ms_mention_everyone m),
     ms_mention_roles = (case mu_mention_roles d of Some x \<Rightarrow> x | None \<Rightarrow> ms_mention_roles m),
     ms_mentions = (case mu_mentions d of Some x \<Rightarrow> x | None \<Rightarrow> ms_mentions m),
     ms_pinned = (case mu_pinned d of Some x \<Rightarrow> x | None \<Rightarrow> ms_pinned m),
     ms_timestamp = (case mu_timestamp d of Some x \<Rightarrow> x | None \<Rightarrow> ms_timestamp m),
     ms_tts = (case mu_tts d of Some x \<Rightarrow> x | None \<Rightarrow> ms_tts m),
     ms_rest = ms_rest m \<rparr> \<and>
   merge_message d' (merge_message d m) = merge_message (combine d d') m"
proof (rule conjI; rule message.equality)
qed (simp_all add: merge_message_fields combine_def or_else_def split: option.split)

text \<open>
  C31: \<open>MessageUpdate\<close> merges the update into the cached message, stores the result and
  starts its time to live anew; it returns the message before the update when old states are
  enabled. A message that is not cached stays so, and nothing changes.
\<close>

theorem message_update_merges:
  assumes "redis_contract True S view" "runtime_ok C R" "cache_inv (view w)" "state_message C"
    and "ser_message R (merge_message d m) = Inr s'" "to_value R (ser_message R) m = Ok v"
    and "de_message R s = Inr m"
  defines "k \<equiv> message_key (mu_channel_id d) (mu_id d)"
  assumes "view w k = None \<or> view w k = Some (RStr s)"
  shows "\<exists>w' old. run S (update C R b (MessageUpdate d)) w = (Ok old, w') \<and>
    (if view w k = None then old = None \<and> view w' = view w
     else old = (if state_old C then Some v else None) \<and> view w' k = Some (RStr s') \<and>
       (\<exists>e. ends sane_time R (state_message_ttl C) e \<and>
            expiry_of (view w') = (expiry_of (view w))(k \<mapsto> e)))"
proof -
  have store: "achieves True (and_then (cache_set R (ser_message R) k (merge_message d m)) (\<lambda>_.
        and_then (expire R k (state_message_ttl C)) (\<lambda>_. ok old)))
      (\<lambda>old' ks. old' = old \<and> ks k = Some (RStr s') \<and> (\<exists>e. ends sane_time R (state_message_ttl C) e \<and>
            expiry_of ks = (expiry_of (view w))(k \<mapsto> e))) (view w)" for old
    using assms(2-5) by (auto simp: k_def runtime_ok_def put_expiry_entry expiry_put_one put_expiry_other
        put_one_object object_not_expiry intro!: achieves_store_expire)
  have "achieves True (on_message_update C R d) (\<lambda>old ks.
     if view w k = None then old = None \<and> ks = view w
     else old = (if state_old C then Some v else None) \<and> ks k = Some (RStr s') \<and>
       (\<exists>e. ends sane_time R (state_message_ttl C) e \<and>
            expiry_of ks = (expiry_of (view w))(k \<mapsto> e))) (view w)"
    using assms(9)
  proof
    assume "view w k = None"
    then show ?thesis
      using assms(4) by (simp add: on_message_update_def Let_def wp_simps stringy_def string_at_def
          flip: k_def)
  next
    assume some: "view w k = Some (RStr s)"
    then have "stringy (view w) k" "string_at (view w) k = Some s"
      by (simp_all add: stringy_def)
    then show ?thesis
      using assms(4,6,7) some store
      by (simp add: on_message_update_def Let_def achieves_and_then [of _ _ "cache_get _ _"]
          achieves_cache_get value_old_def wp_simps del: string_at_Some flip: k_def)
  qed
  from run_up [OF assms(1) this] show ?thesis
    by (metis update.simps(16))
qed

section \<open>Times to live that are not wanted\<close>

lemma member_key_storage [simp]: "storage_key (member_key g u) = member_key g u"
  by (rule parts_of_inj) (simp add: parts_storage_key key_simps)

text \<open>
  C39: with member caching off the member of the bot is cached without a time to live, so that no
  job removes it, but the first \<open>MemberUpdate\<close> of the bot gives it one: once that has
  passed, the job removes the bot from the cache.
\<close>

theorem bot_member_expires:
  assumes "redis_contract True S view" "\<And>w. a \<le> fst (sv_now S w) \<and> fst (sv_now S w) \<le> b"
    and "redis_contract True S' view" "\<And>w. lo \<le> fst (sv_now S' w) \<and> fst (sv_now S' w) \<le> hi"
    and "runtime_ok C R" "dates_exact R" "cache_inv (view w)"
    and "\<not> state_member C" "us_id (mbu_user d) = bid"
  defines "k \<equiv> member_key (mbu_guild_id d) bid"
  assumes "view w k = Some (RStr s)" "de_member R s = Inr m" "expiry_of (view w) k = None"
    and "to_value R (ser_member R) m = Ok v" "ser_member R (merge_member d m) = Inr s'"
    and "b + ttl_millis (state_member_ttl C) * 1000000 < lo"
  shows "(\<exists>w0. run S' (expire_job R) w = (Ok (), w0) \<and> view w0 k = Some (RStr s)) \<and>
    (\<exists>w1 w2 old. run S (update C R bid (MemberUpdate d)) w = (Ok old, w1) \<and>
      view w1 k = Some (RStr s') \<and> run S' (expire_job R) w1 = (Ok (), w2) \<and> view w2 k = None)"
proof (rule conjI)
  have k: "object_key k" "storage_key k = k" "expiring k" and order: "visits_once (hash_order R)"
    using assms(5) by (simp_all add: k_def runtime_ok_def)
  show "\<exists>w0. run S' (expire_job R) w = (Ok (), w0) \<and> view w0 k = Some (RStr s)"
    using job_expires [OF assms(3,4) order assms(7)] k(1) assms(11,13) by (fastforce simp: expiry_of_def)
  let ?P = "\<lambda>old ks. ks k = Some (RStr s') \<and> cache_inv ks \<and>
    (\<exists>e. expiry_of ks k = Some e \<and> ends (clock_within a b) R (state_member_ttl C) e)"
  have "stringy (view w) k" "string_at (view w) k = Some s"
    using assms(11) by (simp_all add: stringy_def)
  moreover have "achieves_in (clock_within a b) True (and_then (cache_set R (ser_member R) k (merge_member d m))
      (\<lambda>_. and_then (expire R k (state_member_ttl C)) (\<lambda>_. ok old))) ?P (view w)" for old
    using assms(5,7,15) k
    by (intro achieves_store_expire) (auto simp: runtime_ok_def clock_within_def put_expiry_other object_not_expiry
        put_one_object put_expiry_entry intro!: cache_inv_put_expiry cache_inv_put_one)
  ultimately have "achieves_in (clock_within a b) True (on_member_update C R bid d) ?P (view w)"
    using assms(8,9,12,14)
    by (simp add: on_member_update_def Let_def cache_get_def value_old_def wp_simps del: string_at_Some flip: k_def)
  from run_up [OF clock_within_contract [OF assms(1,2)] this] obtain old w1 e where
    w1: "run S (update C R bid (MemberUpdate d)) w = (Ok old, w1)" "view w1 k = Some (RStr s')"
      "cache_inv (view w1)" "expiry_of (view w1) k = Some e" "ends (clock_within a b) R (state_member_ttl C) e"
    by (metis update.simps(11))
  from job_after [OF assms(3,4) order assms(6) w1(3) k(1) w1(4,5)]
  show "\<exists>w1 w2 old. run S (update C R bid (MemberUpdate d)) w = (Ok old, w1) \<and>
      view w1 k = Some (RStr s') \<and> run S' (expire_job R) w1 = (Ok (), w2) \<and> view w2 k = None"
    using w1(1,2) assms(16) by blast
qed

text \<open>
  What \<open>MessageCreate\<close> does with any time to live: the message is stored first; then the end of
  its time is computed from a reading of the clock, and only if that is a date that can be written
  is the expiry stored. Else the event fails, and the message stays without one.
\<close>

lemma message_create_cases:
  assumes "redis_contract True S view" "visits_once (hash_order R)" "cache_inv (view w)"
    and "state_message C" "ser_message R d = Inr s" "\<And>w. a \<le> fst (sv_now S w) \<and> fst (sv_now S w) \<le> b"
  shows "\<exists>t w1. sane_time t \<and> a \<le> t \<and> t \<le> b \<and>
    (case dt_add R t (ttl_millis (state_message_ttl C)) of
       None \<Rightarrow> run S (update C R bid (MessageCreate d)) w = (Panic ''resulting value is out of range'', w1) \<and>
         view w1 = put_one (message_key (ms_channel_id d) (ms_id d)) s (view w)
     | Some end \<Rightarrow> (case ser_datetime R end of
         Ok e \<Rightarrow> run S (update C R bid (MessageCreate d)) w = (Ok None, w1) \<and>
           view w1 = stored_message R d s e (view w)
       | Err x \<Rightarrow> run S (update C R bid (MessageCreate d)) w = (Err x, w1) \<and>
           view w1 = put_one (message_key (ms_channel_id d) (ms_id d)) s (view w)
       | Panic m \<Rightarrow> run S (update C R bid (MessageCreate d)) w = (Panic m, w1) \<and>
           view w1 = put_one (message_key (ms_channel_id d) (ms_id d)) s (view w)))"
proof -
  let ?k = "message_key (ms_channel_id d) (ms_id d)"
  have "achieves True (cache_set R (ser_message R) ?k d) (\<lambda>_ ks. ks = put_one ?k s (view w)) (view w)"
    using assms(2-5) by (intro achieves_cache_set cache_inv_parts) auto
  then obtain w' where w': "run S (cache_set R (ser_message R) ?k d) w = (Ok (), w')"
      "view w' = put_one ?k s (view w)"
    using run_up_unit [OF assms(1)] by blast
  obtain t w2 where t: "sv_now S w' = (t, w2)"
    by fastforce
  then have w2: "sane_time t" "view w2 = view w'" "a \<le> t" "t \<le> b"
    using assms(1) assms(6) [of w'] unfolding contract_in_def by (metis fst_conv snd_conv)+
  have "hashy (view w2) EXPIRY_KEYS"
    using assms(3) by (simp add: w2(2) w'(2) well_typed_hashy well_typed_put_one cache_inv_parts)
  then have "achieves True (conn_write (HSET EXPIRY_KEYS [(?k, e)])) (\<lambda>_ ks. ks = stored_message R d s e (view w)) (view w2)" for e
    by (simp add: wp_simps stored_message_def Let_def put_expiry_def w2(2) w'(2))
  then have "\<exists>w3. run S (conn_write (HSET EXPIRY_KEYS [(?k, e)])) w2 = (Ok (), w3) \<and>
      view w3 = stored_message R d s e (view w)" for e
    by (rule run_up_unit [OF assms(1)])
  then obtain f where f: "run S (conn_write (HSET EXPIRY_KEYS [(?k, e)])) w2 = (Ok (), f e)"
      "view (f e) = stored_message R d s e (view w)" for e
    by metis
  have upd: "run S (update C R bid (MessageCreate d)) w =
      run S (and_then (Done (add_datetime R t (ttl_millis (state_message_ttl C)))) (\<lambda>end.
        and_then (Done (ser_datetime R end)) (\<lambda>e.
          and_then (conn_write (HSET EXPIRY_KEYS [(?k, e)])) (\<lambda>_. ok None)))) w2"
    using assms(4) w' t
    by (simp add: on_message_create_def Let_def run_and_then expire_def expire_all_def now_def
        split: option.split res.split prod.split)
  show ?thesis
  proof (cases "dt_add R t (ttl_millis (state_message_ttl C))")
    case None
    then show ?thesis
      unfolding upd by (intro exI [of _ t]) (simp add: w2 w'(2))
  next
    case (Some "end")
    then show ?thesis
      unfolding upd
      by (cases "ser_datetime R end"; intro exI [of _ t]) (simp_all add: w2 w'(2) f run_and_then)
  qed
qed

text \<open>
  C35: a time to live of \<open>2 ^ 63\<close> milliseconds or more, cast to \<open>i64\<close>, is negative. If
  the clock reading plus this negative time is a date that can be written, the message has already
  expired when it is stored and the next job removes it; if it lies before the first date, the
  addition panics, or the text of the date fails, and the message stays without an expiry.
\<close>

theorem huge_ttl_lost:
  assumes "redis_contract True S view" "\<And>w. a \<le> fst (sv_now S w) \<and> fst (sv_now S w) \<le> b"
    and "redis_contract True S' view" "\<And>w. b \<le> fst (sv_now S' w) \<and> fst (sv_now S' w) \<le> hi"
    and "visits_once (hash_order R)" "dates_exact R" "cache_inv (view w)"
    and "state_message C" "ser_message R d = Inr s" "2 ^ 63 \<le> uint (state_message_ttl C)"
  defines "k \<equiv> message_key (ms_channel_id d) (ms_id d)"
  shows "\<exists>t r w1. a \<le> t \<and> t \<le> b \<and> run S (update C R bid (MessageCreate d)) w = (r, w1) \<and>
    (case dt_add R t (ttl_millis (state_message_ttl C)) of
       None \<Rightarrow> r = Panic ''resulting value is out of range'' \<and>
         view w1 k = Some (RStr s) \<and> expiry_of (view w1) = expiry_of (view w)
     | Some end \<Rightarrow> end < t \<and>
         (if \<exists>e. ser_datetime R end = Ok e
          then r = Ok None \<and> (\<exists>w2. run S' (expire_job R) w1 = (Ok (), w2) \<and> view w2 k = None)
          else (\<forall>v. r \<noteq> Ok v) \<and> view w1 k = Some (RStr s) \<and> expiry_of (view w1) = expiry_of (view w)))"
proof -
  have neg: "ttl_millis (state_message_ttl C) < 0"
    by (rule ttl_negative [OF assms(10)])
  obtain t w1 where t: "sane_time t" "a \<le> t" "t \<le> b"
    and w1: "case dt_add R t (ttl_millis (state_message_ttl C)) of
       None \<Rightarrow> run S (update C R bid (MessageCreate d)) w = (Panic ''resulting value is out of range'', w1) \<and>
         view w1 = put_one k s (view w)
     | Some end \<Rightarrow> (case ser_datetime R end of
         Ok e \<Rightarrow> run S (update C R bid (MessageCreate d)) w = (Ok None, w1) \<and> view w1 = stored_message R d s e (view w)
       | Err x \<Rightarrow> run S (update C R bid (MessageCreate d)) w = (Err x, w1) \<and> view w1 = put_one k s (view w)
       | Panic m \<Rightarrow> run S (update C R bid (MessageCreate d)) w = (Panic m, w1) \<and> view w1 = put_one k s (view w))"
    using message_create_cases [OF assms(1,5,7,8,9,2), of bid] unfolding k_def by blast
  have lost: "\<exists>w2. run S' (expire_job R) w1 = (Ok (), w2) \<and> view w2 k = None"
    if e: "dt_add R t (ttl_millis (state_message_ttl C)) = Some end" "ser_datetime R end = Ok e"
      and v: "view w1 = stored_message R d s e (view w)" for e "end"
  proof -
    have "ends (clock_within a b) R (state_message_ttl C) e"
      using t e by (auto simp: ends_def clock_within_def)
    moreover have "b + ttl_millis (state_message_ttl C) * 1000000 < b"
      using neg by simp
    ultimately show ?thesis
      using job_after [OF assms(3,4,5,6) _ _ _ \<open>ends _ _ _ _\<close>, of w1 k]
        stored_message_parts [where R = R and d = d and s = s and e = e and ks = "view w"] assms(7)
      by (auto simp: v k_def)
  qed
  have "end < t" if "dt_add R t (ttl_millis (state_message_ttl C)) = Some end" for "end"
    using that assms(6) neg by (fastforce simp: dates_exact_def)
  moreover have "put_one k s (view w) k = Some (RStr s)" "expiry_of (put_one k s (view w)) = expiry_of (view w)"
    by (simp_all add: k_def put_one_object expiry_put_one)
  ultimately show ?thesis
    using t w1 lost
    by (intro exI [of _ t] exI [of _ "fst (run S (update C R bid (MessageCreate d)) w)"] exI [of _ w1])
      (auto split: option.splits res.splits)
qed

text \<open>
  A time to live that leads beyond the dates that can be represented panics in the addition,
  after the object was stored: the message stays without a time to live.
\<close>

lemma ttl_panics:
  assumes "redis_contract True S view" "visits_once (hash_order R)" "cache_inv (view w)"
    and "state_message C" "ser_message R d = Inr s"
    and "\<And>t. sane_time t \<Longrightarrow> dt_add R t (ttl_millis (state_message_ttl C)) = None"
  shows "\<exists>w'. run S (update C R b (MessageCreate d)) w = (Panic ''resulting value is out of range'', w') \<and>
    view w' (message_key (ms_channel_id d) (ms_id d)) = Some (RStr s) \<and>
    expiry_of (view w') = expiry_of (view w)"
proof -
  have "sane_time (fst (sv_now S w))" for w
    using assms(1) by (simp add: contract_in_def)
  then have "0 \<le> fst (sv_now S w) \<and> fst (sv_now S w) \<le> 221845392000000000000" for w
    by (simp add: sane_time_def order_less_imp_le)
  from message_create_cases [OF assms(1-5) this, of b] show ?thesis
    using assms(6) by (auto simp: put_one_object expiry_put_one)
qed

end
