(* ===== verification/CacheWitness.thy ===== *)
theory CacheWitness
  imports Objects
begin

text \<open>
  The properties of the cache at a concrete server, runtime, configuration and database. The
  database holds a guild channel, a role, a member and a message, each stored with its index
  entries.
\<close>

section \<open>The database\<close>

definition demo_objects :: "(string \<times> string) list" where
  "demo_objects =
     [(guild_channel_key 1 7, doc_text ''channel'' 7), (role_key 1 8, doc_text ''role'' 8),
      (member_key 1 5, doc_text ''member'' 5), (message_key 7 3, doc_text ''hi'' 3)]"

definition demo_db :: keyspace where
  "demo_db = put_all demo_objects Map.empty"

lemma channel_key_kinds [simp]:
  "kind_of (guild_channel_key g c) = CHANNEL_KEY" "kind_of (private_channel_key c) = CHANNEL_KEY"
  by (simp_all add: kind_of_def key_simps)

lemma demo_objects_keys: "\<forall>(k, s) \<in> set demo_objects. object_key k"
  by (simp add: demo_objects_def)

lemma demo_inv: "cache_inv demo_db"
  unfolding demo_db_def using demo_objects_keys
  by (intro cache_only.put_all_keeps [THEN conjunct1]) (auto simp: cache_inv_empty)

lemma demo_typed: "well_typed demo_db"
  by (rule cache_inv_parts [OF demo_inv])

lemma demo_docs: "docs demo_runtime demo_db"
  unfolding demo_db_def using demo_objects_keys
proof (intro documents.put_all_keeps [THEN conjunct2])
  have "doc_of demo_runtime (guild_channel_key 1 7) (doc_text ''channel'' 7)"
    using doc_ofI(1) [of demo_runtime "demo_channel None 7" "doc_text ''channel'' 7" "Some 1" 7]
    by (simp add: demo_runtime_def demo_channel_def channel_key_def)
  moreover have "doc_of demo_runtime (role_key 1 8) (doc_text ''role'' 8)"
    by (rule doc_ofI(3) [of _ "demo_role 8"]) (simp add: demo_runtime_def demo_role_def)
  moreover have "doc_of demo_runtime (member_key 1 5) (doc_text ''member'' 5)"
    by (rule doc_ofI(5) [of _ "demo_member 1 5"]) (simp add: demo_runtime_def demo_member_def demo_user_def)
  moreover have "doc_of demo_runtime (message_key 7 3) (doc_text ''hi'' 3)"
    by (rule doc_ofI(2) [of _ "demo_message 7 3"]) (simp add: demo_runtime_def demo_message_def)
  ultimately show "\<forall>(k, s) \<in> set demo_objects. object_key k \<and> doc_of demo_runtime k s"
    by (simp add: demo_objects_def)
qed (simp_all add: cache_inv_empty docs_def)

lemma demo_enabled: "only_enabled demo_config 1 demo_db"
  unfolding demo_db_def using demo_objects_keys
  by (intro enabled.put_all_keeps [THEN conjunct2])
    (auto simp: cache_inv_empty only_enabled_def demo_objects_def allowed_def demo_config_def)

lemma demo_admissible: "admissible True C demo_runtime (docs demo_runtime)"
  by (simp add: admissible_def demo_runtime_ok demo_order)

text \<open>Every event succeeds on this database, at the server that answers.\<close>

lemma demo_run: "\<exists>old ks'. run (ref_server 0) (update C demo_runtime b ev) demo_db = (Ok old, ks')"
proof -
  have "achieves True (update C demo_runtime b ev) (\<lambda>_ ks. cache_inv ks \<and> docs demo_runtime ks) demo_db"
    by (rule documents.update_keeps [OF demo_admissible demo_inv demo_docs]) simp_all
  then show ?thesis
    by (metis ref_run)
qed

lemma kinds_apart: "kind_of a \<noteq> kind_of b \<Longrightarrow> a \<noteq> b"
  by auto

lemma demo_at:
  "demo_db (message_key 7 3) = Some (RStr (doc_text ''hi'' 3))"
  "demo_db (private_channel_key 7) = Some (RStr (doc_text ''channel'' 7))"
proof -
  have "private_channel_key 7 \<noteq> member_key 1 5" "private_channel_key 7 \<noteq> message_key 7 3"
      "private_channel_key 7 \<noteq> storage_key (role_key 1 8)"
    by (rule kinds_apart, simp)+
  then show "demo_db (private_channel_key 7) = Some (RStr (doc_text ''channel'' 7))"
    by (simp add: demo_db_def demo_objects_def put_one_object)
qed (simp add: demo_db_def demo_objects_def put_one_object)

lemma demo_guild_index: "private_channel_key 7 |\<in>| set_at demo_db (guild_index 1)"
  by (simp add: demo_db_def demo_objects_def set_at_scope_put key_simps scope_kind_def kind_of_def)

section \<open>\<open>update\<close>\<close>

theorem update_invariant_witness:
  "\<exists>old ks'. run (ref_server 0) (update demo_config demo_runtime 1 (GuildDelete 1 False)) demo_db =
     (Ok old, ks') \<and> cache_inv ks'"
  using demo_run update_invariant [where view = "\<lambda>ks. ks", OF ref_server_down demo_order demo_inv] by blast

theorem update_succeeds_witness:
  "\<exists>old ks'. run (ref_server 0) (update demo_config demo_runtime 1 (GuildCreate (demo_guild 1))) demo_db =
     (Ok old, ks') \<and> cache_inv ks' \<and> docs demo_runtime ks'"
  using update_succeeds [where view = "\<lambda>ks. ks", OF ref_server_up demo_runtime_ok demo_inv demo_docs] .

theorem update_frame_witness:
  "\<exists>old ks'. run (ref_server 0) (update demo_config demo_runtime 1 (RoleDelete 1 8)) demo_db =
     (Ok old, ks') \<and> ks' (message_key 7 3) = demo_db (message_key 7 3)"
proof -
  obtain old ks' where r: "run (ref_server 0) (update demo_config demo_runtime 1 (RoleDelete 1 8)) demo_db = (Ok old, ks')"
    using demo_run by blast
  have "storage_key (role_key 1 8) \<noteq> message_key 7 3"
    by (metis kind_of_keys(2,3) kind_storage_key kinds_differ(19))
  then have "ks' (message_key 7 3) = demo_db (message_key 7 3)"
    by (intro update_frame [where view = "\<lambda>ks. ks", OF ref_server_down demo_order demo_inv r]) auto
  with r show ?thesis
    by blast
qed

theorem update_only_enabled_witness:
  "\<exists>old ks'. run (ref_server 0) (update demo_config demo_runtime 1 (GuildCreate (demo_guild 1))) demo_db =
     (Ok old, ks') \<and> only_enabled demo_config 1 ks'"
  using demo_run update_only_enabled [where view = "\<lambda>ks. ks", OF ref_server_down demo_order demo_inv demo_enabled] by blast

section \<open>Batches, storing and reading back\<close>

lemma demo_role_ser: "ser_role demo_runtime (demo_role 8) = Inr (doc_text ''role'' 8)"
  by (simp add: demo_runtime_def demo_role_def)

theorem set_all_refines_witness:
  "\<exists>ks' skvs. run (ref_server 0) (set_all demo_runtime (ser_role demo_runtime) [(role_key 1 8, demo_role 8)]) demo_db =
     (Ok (), ks') \<and> serialised (ser_role demo_runtime) [(role_key 1 8, demo_role 8)] skvs \<and> ks' = put_all skvs demo_db"
proof -
  have "achieves True (set_all demo_runtime (ser_role demo_runtime) [(role_key 1 8, demo_role 8)]) (\<lambda>_ _. True) demo_db"
    using demo_role_ser by (intro achieves_set_all demo_order demo_typed) auto
  then obtain ks' where r: "run (ref_server 0) (set_all demo_runtime (ser_role demo_runtime) [(role_key 1 8, demo_role 8)]) demo_db = (Ok (), ks')"
    by (metis (full_types) old.unit.exhaust ref_run)
  show ?thesis
    using set_all_refines [where view = "\<lambda>ks. ks", OF ref_server_down demo_order demo_typed _ r] r by auto
qed

theorem del_all_refines_witness:
  "\<exists>ks'. run (ref_server 0) (del_all demo_runtime [role_key 1 8, member_key 1 5]) demo_db = (Ok (), ks') \<and>
     ks' = remove_all [role_key 1 8, member_key 1 5] demo_db"
proof -
  have "achieves True (del_all demo_runtime [role_key 1 8, member_key 1 5]) (\<lambda>_ _. True) demo_db"
    by (intro achieves_del_all demo_order demo_typed) auto
  then obtain ks' where r: "run (ref_server 0) (del_all demo_runtime [role_key 1 8, member_key 1 5]) demo_db = (Ok (), ks')"
    by (metis (full_types) old.unit.exhaust ref_run)
  show ?thesis
    using del_all_refines [where view = "\<lambda>ks. ks", OF ref_server_down demo_order demo_typed _ r] r by auto
qed

lemma doc_id_text: "list_all (\<lambda>c. \<not> is_digit c) kd \<Longrightarrow> doc_id (doc_text kd i) = i"
proof -
  assume kd: "list_all (\<lambda>c. \<not> is_digit c) kd"
  have sep: "\<not> is_digit CHR ''{''" "\<not> is_digit CHR '':''" "\<not> is_digit CHR ''}''"
    by (simp_all add: is_digit_def)
  obtain c cs where n: "show_u64 i = c # cs" "is_digit c"
    using show_nat_digits [of "unat i"] by (cases "show_u64 i") (auto simp: show_u64_def)
  have "dropWhile (\<lambda>c. \<not> is_digit c) (kd @ '':'' @ show_u64 i @ ''}'') = show_u64 i @ ''}''"
    using kd sep n by (induction kd) auto
  then show ?thesis
    using sep take_digits [of "show_u64 i" "unat i" "CHR ''}''" "[]"]
      parse_show_u64 [of i, unfolded show_u64_def]
    by (simp add: doc_id_def doc_text_def show_u64_def [of i])
qed

lemma set_get_witness:
  "\<exists>ks'. run (ref_server 0) (and_then (cache_set demo_runtime (ser_message demo_runtime) (message_key 1 9) (demo_message 1 9))
     (\<lambda>_. cache_get (de_message demo_runtime) (message_key 1 9))) demo_db = (Ok (Some (demo_message 1 9)), ks')"
proof -
  have "doc_id (doc_text ''hi'' 9) = 9"
    by (rule doc_id_text) (simp add: is_digit_def)
  then show ?thesis
    by (intro set_get [where view = "\<lambda>ks. ks", OF ref_server_up demo_order demo_typed])
      (simp_all add: demo_runtime_def demo_message_def)
qed

lemma set_get_guild_channel_witness:
  "\<exists>ks'. run (ref_server 0) (and_then (cache_set demo_runtime (ser_channel demo_runtime) (guild_channel_key 1 9) (demo_channel (Some 1) 9))
     (\<lambda>_. cache_get (de_channel demo_runtime) (guild_channel_key 1 9))) demo_db = (Ok None, ks') \<and>
     ks' (private_channel_key 9) = Some (RStr (doc_text ''channel'' 9))"
  by (rule set_get_guild_channel [where view = "\<lambda>ks. ks", OF ref_server_up demo_order demo_inv])
    (simp add: demo_runtime_def demo_channel_def)

theorem guild_channel_old_lost_witness:
  "\<exists>ks'. run (ref_server 0) (update demo_config demo_runtime 1 (ChannelUpdate (demo_channel (Some 1) 7))) demo_db = (Ok None, ks')"
proof -
  obtain old ks' where r: "run (ref_server 0) (update demo_config demo_runtime 1 (ChannelUpdate (demo_channel (Some 1) 7))) demo_db = (Ok old, ks')"
    using demo_run by blast
  have "old = None"
    by (rule guild_channel_old_lost [where view = "\<lambda>ks. ks", OF ref_server_down demo_order demo_inv _ _ r,
          where g = 1 and d = "demo_channel (Some 1) 7", THEN conjunct1]) (simp_all add: demo_channel_def)
  with r show ?thesis
    by blast
qed

section \<open>Guilds\<close>

theorem guild_delete_clears_witness:
  "\<exists>ks'. run (ref_server 0) (update demo_config demo_runtime 1 (GuildDelete 1 False)) demo_db =
     (Ok (cached_value demo_runtime demo_db (guild_key 1)), ks') \<and> ks' (private_channel_key 7) = None"
  using guild_delete_clears [where view = "\<lambda>ks. ks", OF ref_server_up demo_runtime_ok demo_inv demo_docs, of demo_config 1 1 False]
    demo_guild_index by blast

theorem guild_delete_stale_channels_witness:
  "\<exists>old ks'. run (ref_server 0) (update demo_config demo_runtime 1 (GuildDelete 1 False)) demo_db = (Ok old, ks') \<and>
     ks' (private_channel_key 7) = None \<and> private_channel_key 7 |\<in>| set_at ks' (guild_index 1)"
proof -
  obtain old ks' where r: "run (ref_server 0) (update demo_config demo_runtime 1 (GuildDelete 1 False)) demo_db = (Ok old, ks')"
    using demo_run by blast
  have "kind_of (private_channel_key 7) = CHANNEL_KEY"
    by (simp add: kind_of_def key_simps)
  with r show ?thesis
    using guild_delete_stale_channels [where view = "\<lambda>ks. ks", OF ref_server_up demo_runtime_ok demo_inv demo_docs demo_guild_index _ r]
    by blast
qed

theorem guild_create_replaces_witness:
  "\<exists>ks'. run (ref_server 0) (update demo_config demo_runtime 1 (GuildCreate (demo_guild 1))) demo_db =
     (Ok (cached_value demo_runtime demo_db (guild_key 1)), ks') \<and>
     ks' (guild_key 1) = Some (RStr (doc_text ''guild'' 1))"
proof -
  have "last_item (guild_items demo_config 1 (demo_guild 1)) (guild_key 1) = Some (GuildI (bare_guild (demo_guild 1)))"
    using last_item_guild [of demo_config 1 "demo_guild 1"] by (simp add: demo_guild_def)
  moreover have "ser_item demo_runtime (GuildI (bare_guild (demo_guild 1))) = Inr (doc_text ''guild'' 1)" "gd_id (demo_guild 1) = 1"
    by (simp_all add: demo_runtime_def bare_guild_def demo_guild_def)
  ultimately show ?thesis
    using guild_create_replaces [where view = "\<lambda>ks. ks", OF ref_server_up demo_runtime_ok demo_inv demo_docs, of demo_config 1 "demo_guild 1"]
    by fastforce
qed

section \<open>The job\<close>

lemma ref_clock: "fst (sv_now (ref_server t) ks) = t"
  by (simp add: ref_server_def)

lemma ref_server_at: "sane_time t \<Longrightarrow> redis_contract True (ref_server t) (\<lambda>ks. ks)"
  by (rule ref_server_contract)

text \<open>The database with an expiry that has passed and one that has not.\<close>

definition demo_expiring :: keyspace where
  "demo_expiring = put_expiry [(member_key 1 5, ''100''), (message_key 7 3, ''900'')] demo_db"

lemma demo_expiring_inv: "cache_inv demo_expiring"
  unfolding demo_expiring_def by (rule cache_inv_put_expiry [OF demo_inv]) simp

lemma demo_members_apart: "member_key a b \<noteq> message_key c d" "message_key c d \<noteq> member_key a b"
  by (rule kinds_apart, simp)+

lemma demo_expires:
  "expires_by demo_runtime 500 (show_nat 100)" "\<not> expires_by demo_runtime 500 (show_nat 900)"
  by (simp_all add: expires_by_def de_datetime_def demo_runtime_def)

lemma show_demo: "show_nat 100 = ''100''" "show_nat 900 = ''900''"
  by code_simp+

lemma demo_hash:
  "fmlookup (hash_at demo_expiring EXPIRY_KEYS) (member_key 1 5) = Some ''100''"
  "fmlookup (hash_at demo_expiring EXPIRY_KEYS) (message_key 7 3) = Some ''900''"
  by (simp_all add: demo_expiring_def put_expiry_def demo_members_apart)

theorem job_expires_witness:
  "\<exists>ks'. run (ref_server 500) (expire_job demo_runtime) demo_expiring = (Ok (), ks') \<and>
     ks' (member_key 1 5) = None \<and> ks' (message_key 7 3) = demo_expiring (message_key 7 3)"
proof -
  have sane: "sane_time 500"
    by (simp add: sane_time_def)
  have clock: "500 \<le> fst (sv_now (ref_server 500) w) \<and> fst (sv_now (ref_server 500) w) \<le> 500" for w
    by (simp add: ref_clock)
  obtain ks' keys where job: "run (ref_server 500) (expire_job demo_runtime) demo_expiring = (Ok (), ks')"
      "\<forall>k e. fmlookup (hash_at demo_expiring EXPIRY_KEYS) k = Some e \<and> expires_by demo_runtime 500 e \<longrightarrow> k \<in> set keys"
      "\<forall>k \<in> set keys. \<exists>e. fmlookup (hash_at demo_expiring EXPIRY_KEYS) k = Some e \<and> expires_by demo_runtime 500 e"
      "\<forall>x. object_key x \<longrightarrow> ks' x = (if x \<in> set keys then None else demo_expiring x)"
    using job_expires [where view = "\<lambda>ks. ks", OF ref_server_at [OF sane] clock demo_order demo_expiring_inv] by blast
  have "member_key 1 5 \<in> set keys"
    using job(2) demo_hash(1) demo_expires(1) by (simp add: show_demo)
  moreover have "message_key 7 3 \<notin> set keys"
    using job(3) demo_hash(2) demo_expires(2) by (auto simp: show_demo)
  ultimately show ?thesis
    using job(1,4) by (intro exI [of _ ks']) simp
qed

definition demo_shard :: "string \<Rightarrow> shard_info" where
  "demo_shard s = \<lparr>sh_stage = Connected, sh_recent = [40, 60], sh_received = Some 1000,
     sh_session_id = Some s, sh_seq = 12\<rparr>"

definition demo_infos :: "(snapshot \<times> snapshot) list" where
  "demo_infos = [([(1, demo_shard ''b''), (0, demo_shard ''a'')], [(0, demo_shard ''a''), (1, demo_shard ''b'')])]"

lemma demo_dates_ok: "dates_ok demo_runtime snap"
  by (simp add: dates_ok_def demo_runtime_def)

theorem cache_job_dumps_witness:
  "\<exists>ks'. run (ref_server 0) (cache_job demo_runtime demo_infos) demo_db = (Ok (), ks') \<and> (cache_inv ks' \<and>
    (\<exists>statuses sessions s s'. dumped demo_runtime demo_infos statuses sessions \<and>
       ser_statuses demo_runtime statuses = Inr s \<and> ks' STATUSES_KEY = Some (RStr s) \<and>
       ser_sessions demo_runtime sessions = Inr s' \<and> ks' SESSIONS_KEY = Some (RStr s')))"
proof (rule cache_job_dumps [where view = "\<lambda>ks. ks", OF ref_server_up demo_order demo_inv])
  show "\<forall>(first, second) \<in> set demo_infos. dates_ok demo_runtime first"
    by (simp add: demo_dates_ok)
qed (simp_all add: demo_runtime_def)

section \<open>Messages\<close>

lemma demo_message_ser: "ser_message demo_runtime (demo_message 7 i) = Inr (doc_text ''hi'' i)"
  by (simp add: demo_runtime_def demo_message_def)

lemma demo_state_message: "state_message demo_config"
  by (simp add: demo_config_def)

lemma message_create_stores_witness:
  "\<exists>ks' e. run (ref_server 0) (update demo_config demo_runtime 1 (MessageCreate (demo_message 7 4))) demo_db = (Ok None, ks') \<and>
    ends sane_time demo_runtime (state_message_ttl demo_config) e \<and>
    ks' (message_key 7 4) = Some (RStr (doc_text ''hi'' 4)) \<and>
    expiry_of ks' = (expiry_of demo_db)(message_key 7 4 \<mapsto> e)"
  using message_create_stores [where view = "\<lambda>ks. ks", OF ref_server_up demo_runtime_ok demo_inv
      demo_state_message demo_message_ser, of 1 4]
  by (simp add: demo_message_def)

definition demo_edit :: message_update where
  "demo_edit = \<lparr>mu_id = 3, mu_channel_id = 7, mu_attachments = None, mu_content = Some ''bye'',
     mu_edited_timestamp = None, mu_embeds = None, mu_mention_everyone = None, mu_mention_roles = None,
     mu_mentions = None, mu_pinned = Some True, mu_timestamp = None, mu_tts = None\<rparr>"

theorem message_update_merges_witness:
  "\<exists>ks' old. run (ref_server 0) (update demo_config demo_runtime 1 (MessageUpdate demo_edit)) demo_db = (Ok old, ks') \<and>
    old \<noteq> None \<and> ks' (message_key 7 3) = Some (RStr (doc_text ''bye'' 3))"
proof -
  have parsed: "de_message demo_runtime (doc_text ''hi'' 3) = Inr (demo_message 1 3)"
    using doc_id_text [of "''hi''" 3] by (simp add: demo_runtime_def is_digit_def)
  have ser: "ser_message demo_runtime (merge_message demo_edit (demo_message 1 3)) = Inr (doc_text ''bye'' 3)"
    by (simp add: demo_runtime_def merge_message_fields demo_edit_def) (simp add: demo_message_def)
  have val: "to_value demo_runtime (ser_message demo_runtime) (demo_message 1 3) = Ok (JString (doc_text ''hi'' 3))"
    by (simp add: demo_runtime_def to_value_def demo_message_def)
  have key: "message_key (mu_channel_id demo_edit) (mu_id demo_edit) = message_key 7 3"
    by (simp add: demo_edit_def)
  show ?thesis
    using message_update_merges [where view = "\<lambda>ks. ks", OF ref_server_up demo_runtime_ok demo_inv
        demo_state_message ser val parsed, of 1] demo_at(1)
    by (simp add: key demo_config_def) blast
qed

lemma demo_dates_exact: "dates_exact demo_runtime"
  unfolding dates_exact_def using demo_dates by (simp add: demo_runtime_def)

theorem message_lifetime_witness:
  "\<exists>ks1 ks2. run (ref_server 0) (update demo_config demo_runtime 1 (MessageCreate (demo_message 7 4))) demo_db = (Ok None, ks1) \<and>
    run (ref_server 60000000001) (expire_job demo_runtime) ks1 = (Ok (), ks2) \<and> ks2 (message_key 7 4) = None"
proof -
  have sane: "sane_time 60000000001"
    by (simp add: sane_time_def)
  have "0 \<le> fst (sv_now (ref_server 0) w) \<and> fst (sv_now (ref_server 0) w) \<le> 0"
    "60000000001 \<le> fst (sv_now (ref_server 60000000001) w) \<and> fst (sv_now (ref_server 60000000001) w) \<le> 60000000001" for w
    by (simp_all add: ref_clock)
  from message_lifetime [where view = "\<lambda>ks. ks", OF ref_server_up this(1) ref_server_at [OF sane] this(2)
      demo_runtime_ok demo_dates_exact demo_inv demo_state_message demo_message_ser, of 1 4]
  show ?thesis
    by (auto simp: demo_config_def demo_message_def ttl_millis_def)
qed

lemma demo_message_ids: "ms_channel_id (demo_message c m) = c" "ms_id (demo_message c m) = m"
  by (simp_all add: demo_message_def)

theorem huge_ttl_lost_witness:
  "\<exists>ks1 ks2. run (ref_server 0) (update (demo_config\<lparr>state_message_ttl := - 1\<rparr>) demo_runtime 1
      (MessageCreate (demo_message 7 4))) demo_db = (Ok None, ks1) \<and>
    run (ref_server 0) (expire_job demo_runtime) ks1 = (Ok (), ks2) \<and> ks2 (message_key 7 4) = None"
proof -
  let ?C = "demo_config\<lparr>state_message_ttl := - 1\<rparr>"
  have "0 \<le> fst (sv_now (ref_server 0) w) \<and> fst (sv_now (ref_server 0) w) \<le> 0" for w
    by (simp add: ref_clock)
  moreover have "state_message ?C" "(2::int) ^ 63 \<le> uint (state_message_ttl ?C)"
    by (simp_all add: demo_config_def unsigned_minus_1_eq_mask mask_eq_exp_minus_1)
  ultimately obtain t r ks1 where "run (ref_server 0) (update ?C demo_runtime 1 (MessageCreate (demo_message 7 4))) demo_db = (r, ks1)"
      "case dt_add demo_runtime t (ttl_millis (state_message_ttl ?C)) of
         None \<Rightarrow> r = Panic ''resulting value is out of range'' \<and>
           ks1 (message_key 7 4) = Some (RStr (doc_text ''hi'' 4)) \<and> expiry_of ks1 = expiry_of demo_db
       | Some end \<Rightarrow> end < t \<and>
           (if \<exists>e. ser_datetime demo_runtime end = Ok e
            then r = Ok None \<and> (\<exists>ks2. run (ref_server 0) (expire_job demo_runtime) ks1 = (Ok (), ks2) \<and>
              ks2 (message_key 7 4) = None)
            else (\<forall>v. r \<noteq> Ok v) \<and> ks1 (message_key 7 4) = Some (RStr (doc_text ''hi'' 4)) \<and>
              expiry_of ks1 = expiry_of demo_db)"
    using huge_ttl_lost [where view = "\<lambda>ks. ks", OF ref_server_up _ ref_server_up _ demo_order
        demo_dates_exact demo_inv _ demo_message_ser, of 0 0 0 ?C 1 4]
    unfolding demo_message_ids by blast
  then show ?thesis
    by (auto simp: demo_runtime_def ser_datetime_def)
qed

section \<open>Times to live that are not wanted\<close>

text \<open>Member 5 of guild 1 is the bot.\<close>

definition demo_nick :: member_update where
  "demo_nick = \<lparr>mbu_guild_id = 1, mbu_user = demo_user 5, mbu_joined_at = JNull, mbu_nick = Some ''nick'',
     mbu_premium_since = None, mbu_roles = []\<rparr>"

lemma demo_member_at: "demo_db (member_key 1 5) = Some (RStr (doc_text ''member'' 5))"
proof -
  have "member_key 1 5 \<noteq> message_key 7 3"
    by (rule kinds_apart) simp
  then show ?thesis
    by (simp add: demo_db_def demo_objects_def put_one_object)
qed

lemma demo_no_expiry: "expiry_of demo_db k = None"
  by (simp add: demo_db_def demo_objects_def expiry_put_one) (simp add: expiry_of_def hash_at_def)

theorem bot_member_expires_witness:
  "\<exists>ks0 ks1 ks2 old. run (ref_server 60000000001) (expire_job demo_runtime) demo_db = (Ok (), ks0) \<and>
    ks0 (member_key 1 5) \<noteq> None \<and>
    run (ref_server 0) (update (demo_config\<lparr>state_member := False\<rparr>) demo_runtime 5 (MemberUpdate demo_nick)) demo_db = (Ok old, ks1) \<and>
    ks1 (member_key 1 5) \<noteq> None \<and>
    run (ref_server 60000000001) (expire_job demo_runtime) ks1 = (Ok (), ks2) \<and> ks2 (member_key 1 5) = None"
proof -
  let ?C = "demo_config\<lparr>state_member := False\<rparr>"
  have sane: "sane_time 60000000001"
    by (simp add: sane_time_def)
  have clock: "0 \<le> fst (sv_now (ref_server 0) w) \<and> fst (sv_now (ref_server 0) w) \<le> 0"
    "60000000001 \<le> fst (sv_now (ref_server 60000000001) w) \<and> fst (sv_now (ref_server 60000000001) w) \<le> 60000000001" for w
    by (simp_all add: ref_clock)
  have d: "mbu_guild_id demo_nick = 1" "us_id (mbu_user demo_nick) = 5"
    by (simp_all add: demo_nick_def demo_user_def)
  have parsed: "de_member demo_runtime (doc_text ''member'' 5) = Inr (demo_member 1 5)"
    using doc_id_text [of "''member''" 5] by (simp add: demo_runtime_def is_digit_def)
  have ser: "ser_member demo_runtime m = Inr (doc_text ''member'' (us_id (mb_user m)))" for m
    by (simp add: demo_runtime_def)
  have val: "\<exists>v. to_value demo_runtime (ser_member demo_runtime) m = Ok v" for m
    by (simp add: demo_runtime_def to_value_def)
  show ?thesis
    using bot_member_expires [where view = "\<lambda>ks. ks" and bid = 5 and d = demo_nick and C = ?C,
        OF ref_server_up clock(1) ref_server_at [OF sane] clock(2) demo_runtime_ok demo_dates_exact demo_inv _ d(2) _ parsed
          demo_no_expiry _ ser] demo_member_at val d(1)
    by (fastforce simp: demo_config_def ttl_millis_def)
qed

text \<open>A calendar that ends.\<close>

definition short_runtime :: runtime where
  "short_runtime = demo_runtime\<lparr>dt_add := (\<lambda>t ms. None)\<rparr>"

lemma ttl_panics_witness:
  "\<exists>ks'. run (ref_server 0) (update demo_config short_runtime 1 (MessageCreate (demo_message 7 4))) demo_db =
      (Panic ''resulting value is out of range'', ks') \<and>
    ks' (message_key 7 4) = Some (RStr (doc_text ''hi'' 4)) \<and> expiry_of ks' = expiry_of demo_db"
proof -
  have "visits_once (hash_order short_runtime)" "ser_message short_runtime (demo_message 7 4) = Inr (doc_text ''hi'' 4)"
    using demo_order demo_message_ser by (simp_all add: short_runtime_def)
  from ttl_panics [where view = "\<lambda>ks. ks", OF ref_server_up this(1) demo_inv demo_state_message this(2), of 1]
  show ?thesis
    by (simp add: short_runtime_def demo_message_def)
qed

end
