(* ===== verification/Cluster.thy ===== *)
theory Cluster
  imports Jobs
begin

text \<open>
  \<open>get_clusters\<close> of \<open>src/cluster.rs\<close>: which sessions are resumed and which range of shards
  each cluster gets. Building a cluster is \<open>twilight_gateway\<close>: the outcome of the builder, of
  \<open>Intents::from_bits\<close> and of \<open>UpdatePresencePayload::new\<close> are the fields of \<open>gateway\<close>.
  The arithmetic is that of \<open>u64\<close>: with \<open>checks\<close> (a debug build) an overflow panics,
  without (a release build) it wraps around.
\<close>

section \<open>Arithmetic of \<open>u64\<close>\<close>

definition checked :: "bool \<Rightarrow> bool \<Rightarrow> u64 \<Rightarrow> u64 res" where
  "checked checks fits r =
     (if checks \<and> \<not> fits then Panic ''arithmetic overflow'' else Ok r)"

definition add_u64 :: "bool \<Rightarrow> u64 \<Rightarrow> u64 \<Rightarrow> u64 res" where
  "add_u64 checks a b = checked checks (unat a + unat b < 2 ^ 64) (a + b)"

definition sub_u64 :: "bool \<Rightarrow> u64 \<Rightarrow> u64 \<Rightarrow> u64 res" where
  "sub_u64 checks a b = checked checks (b \<le> a) (a - b)"

definition div_u64 :: "u64 \<Rightarrow> u64 \<Rightarrow> u64 res" where
  "div_u64 a b = (if b = 0 then Panic ''attempt to divide by zero'' else Ok (a div b))"

definition rem_u64 :: "u64 \<Rightarrow> u64 \<Rightarrow> u64 res" where
  "rem_u64 a b =
     (if b = 0 then Panic ''attempt to calculate the remainder with a divisor of zero''
      else Ok (a mod b))"

definition bind_res :: "'a res \<Rightarrow> ('a \<Rightarrow> 'b res) \<Rightarrow> 'b res" where
  "bind_res r f = (case r of Ok a \<Rightarrow> f a | Err e \<Rightarrow> Err e | Panic m \<Rightarrow> Panic m)"

lemma bind_res_simps [simp]:
  "bind_res (Ok a) f = f a" "bind_res (Err e) f = Err e" "bind_res (Panic m) f = Panic m"
  by (simp_all add: bind_res_def)

section \<open>Shard ranges\<close>

definition shard_count :: "bool \<Rightarrow> config \<Rightarrow> u64 res" where
  "shard_count checks C =
     bind_res (sub_u64 checks (shards_end C) (shards_start C)) (\<lambda>d. add_u64 checks d 1)"

text \<open>The last shard of cluster \<open>i\<close>, when \<open>last_index\<close> is the first.\<close>

definition range_end :: "bool \<Rightarrow> u64 \<Rightarrow> u64 \<Rightarrow> u64 \<Rightarrow> u64 \<Rightarrow> u64 res" where
  "range_end checks base extra last_index i =
     (if i < extra then add_u64 checks last_index base
      else bind_res (add_u64 checks last_index base) (\<lambda>s. sub_u64 checks s 1))"

section \<open>Sessions to resume\<close>

fun parse_resumes :: "sessions \<Rightarrow> (u64 \<times> session_info) list \<Rightarrow> (u64 \<times> session_info) list res" where
  "parse_resumes [] resumes = Ok resumes"
| "parse_resumes ((key, value) # rest) resumes =
     (case parse_u64 key of
        None \<Rightarrow> Panic ''called Result::unwrap() on an Err value''
      | Some shard \<Rightarrow> parse_resumes rest (insert_entry shard value resumes))"

definition get_resumes :: "config \<Rightarrow> runtime \<Rightarrow> (u64 \<times> session_info) list task" where
  "get_resumes C R =
     (if \<not> resume C then ok []
      else and_then (cache_get (de_u64 R) SHARDS_KEY) (\<lambda>shards.
        if shards = Some (shards_total C) then
          and_then (cache_get (de_sessions R) SESSIONS_KEY) (\<lambda>sessions.
            Done (parse_resumes (case sessions of Some s \<Rightarrow> s | None \<Rightarrow> []) []))
        else ok []))"

section \<open>Building the clusters\<close>

record cluster_scheme =
  cs_from :: u64
  cs_to :: u64
  cs_total :: u64
  cs_resumes :: "(u64 \<times> session_info) list"

datatype shard_queue = LocalQueue u64 | LargeBotQueue u64 u64

definition choose_queue :: "config \<Rightarrow> shard_queue" where
  "choose_queue C =
     (if shards_concurrency C = 1 then LocalQueue (shards_wait C)
      else LargeBotQueue (shards_concurrency C) (shards_wait C))"

record 'c gateway =
  gw_intents :: "u64 \<Rightarrow> bool"
  gw_presence :: "config \<Rightarrow> bool"
  gw_build :: "config \<Rightarrow> shard_queue \<Rightarrow> cluster_scheme \<Rightarrow> string + 'c"

definition build_cluster :: "'c gateway \<Rightarrow> config \<Rightarrow> cluster_scheme \<Rightarrow> 'c res" where
  "build_cluster G C s =
     (if \<not> gw_intents G (intents C) then Panic ''called Option::unwrap() on a None value''
      else if \<not> gw_presence G C then Panic ''called Result::unwrap() on an Err value''
      else (case gw_build G C (choose_queue C) s of Inl e \<Rightarrow> Err (ClusterStart e) | Inr c \<Rightarrow> Ok c))"

text \<open>The loop over the clusters, from cluster \<open>i\<close> on; \<open>n\<close> clusters are left.\<close>

fun build_loop ::
  "bool \<Rightarrow> 'c gateway \<Rightarrow> config \<Rightarrow> (u64 \<times> session_info) list \<Rightarrow> u64 \<Rightarrow> u64 \<Rightarrow> nat \<Rightarrow> u64 \<Rightarrow> u64 \<Rightarrow>
     (cluster_scheme \<times> 'c) list res" where
  "build_loop checks G C resumes base extra 0 i last_index = Ok []"
| "build_loop checks G C resumes base extra (Suc n) i last_index =
     bind_res (range_end checks base extra last_index i) (\<lambda>index.
       let s = \<lparr>cs_from = last_index, cs_to = index, cs_total = shards_total C, cs_resumes = resumes\<rparr> in
       bind_res (build_cluster G C s) (\<lambda>cluster.
         bind_res (add_u64 checks index 1) (\<lambda>last_index.
           bind_res (build_loop checks G C resumes base extra n (i + 1) last_index) (\<lambda>rest.
             Ok ((s, cluster) # rest)))))"

record cluster_info =
  ci_clusters :: u64
  ci_shards :: u64
  ci_resumes :: u64

definition build_clusters ::
  "bool \<Rightarrow> 'c gateway \<Rightarrow> config \<Rightarrow> (u64 \<times> session_info) list \<Rightarrow>
     ((cluster_scheme \<times> 'c) list \<times> cluster_info) res" where
  "build_clusters checks G C resumes =
     bind_res (shard_count checks C) (\<lambda>shards.
       bind_res (div_u64 shards (clusters C)) (\<lambda>base.
         bind_res (rem_u64 shards (clusters C)) (\<lambda>extra.
           bind_res (build_loop checks G C resumes base extra (unat (clusters C)) 0 (shards_start C))
             (\<lambda>cs. Ok (cs, \<lparr>ci_clusters = clusters C, ci_shards = shards,
                           ci_resumes = of_nat (length resumes)\<rparr>)))))"

definition get_clusters ::
  "bool \<Rightarrow> 'c gateway \<Rightarrow> config \<Rightarrow> runtime \<Rightarrow> ((cluster_scheme \<times> 'c) list \<times> cluster_info) task" where
  "get_clusters checks G C R =
     and_then (get_resumes C R) (\<lambda>resumes. Done (build_clusters checks G C resumes))"

section \<open>The ranges\<close>

text \<open>The shards of a range, as numbers; a range that ends before it starts has none.\<close>

definition range_shards :: "cluster_scheme \<Rightarrow> nat list" where
  "range_shards s = [unat (cs_from s) ..< Suc (unat (cs_to s))]"

text \<open>How many shards cluster \<open>i\<close> of \<open>k\<close> gets of \<open>n\<close>.\<close>

definition share :: "nat \<Rightarrow> nat \<Rightarrow> nat \<Rightarrow> nat" where
  "share n k i = n div k + (if i < n mod k then 1 else 0)"

definition shares :: "nat \<Rightarrow> nat \<Rightarrow> nat \<Rightarrow> nat" where
  "shares n k i = i * (n div k) + min i (n mod k)"

lemma shares_Suc: "shares n k (Suc i) = shares n k i + share n k i"
  by (simp add: shares_def share_def min_def)

lemma shares_0 [simp]: "shares n k 0 = 0"
  by (simp add: shares_def)

lemma shares_all: "0 < k \<Longrightarrow> shares n k k = n"
proof -
  assume "0 < k"
  then have "min k (n mod k) = n mod k"
    using mod_less_divisor [of k n] by simp
  then show ?thesis
    by (simp add: shares_def)
qed

lemma shares_mono: "i \<le> j \<Longrightarrow> shares n k i \<le> shares n k j"
  by (simp add: shares_def add_mono)

lemma share_pos: "0 < k \<Longrightarrow> k \<le> n \<Longrightarrow> 0 < share n k i"
  by (simp add: share_def div_greater_zero_iff)

text \<open>One step: a range of \<open>share\<close> shards that starts where the last one ended.\<close>

lemma range_end_share:
  fixes base extra i last_index :: u64
  assumes k: "0 < k" "k \<le> n" and base: "unat base = n div k" "unat extra = n mod k"
    and fits: "unat last_index + share n k (unat i) \<le> 2 ^ 64"
    and checks: "checks \<Longrightarrow> unat last_index + share n k (unat i) < 2 ^ 64"
  shows "\<exists>e. range_end checks base extra last_index i = Ok e \<and>
    unat e = unat last_index + share n k (unat i) - 1"
proof -
  let ?L = "unat last_index" and ?s = "share n k (unat i)"
  have pos: "0 < ?s"
    by (rule share_pos [OF k])
  have b: "base = of_nat (n div k)" "last_index = of_nat ?L"
    by (simp_all flip: base(1))
  have to_nat: "unat (of_nat (?L + ?s - 1) :: u64) = ?L + ?s - 1"
    using fits pos by (subst unat_of_nat) simp
  show ?thesis
  proof (cases "i < extra")
    case True
    then have s: "?s = n div k + 1"
      by (simp add: share_def word_less_nat_alt base(2))
    have "last_index + base = of_nat (?L + ?s - 1)"
      by (simp add: s b(1))
    moreover have "?L + unat base < 2 ^ 64"
      using fits by (simp add: s base(1))
    ultimately show ?thesis
      using True to_nat by (simp add: range_end_def add_u64_def checked_def)
  next
    case False
    then have s: "?s = n div k"
      by (simp add: share_def word_less_nat_alt base(2))
    have sum: "last_index + base = of_nat (?L + ?s)"
      by (simp add: s b(1))
    have "last_index + base - 1 = of_nat (?L + ?s - 1)"
      using pos by (simp add: sum of_nat_diff)
    moreover have "unat (last_index + base) = ?L + ?s" if checks
      using checks [OF that] unfolding sum by (subst unat_of_nat) simp
    then have "1 \<le> last_index + base" if checks
      using that pos by (simp add: word_le_nat_alt)
    ultimately show ?thesis
      using False to_nat checks s base(1)
      by (auto simp: range_end_def add_u64_def sub_u64_def checked_def)
  qed
qed

lemma build_loop_ranges:
  fixes base extra i last_index :: u64
  assumes k: "0 < k" "k \<le> n" and base: "unat base = n div k" "unat extra = n mod k"
    and fits: "start + n \<le> 2 ^ 64" "checks \<Longrightarrow> start + n < 2 ^ 64"
    and built: "\<And>s. \<exists>c. build_cluster G C s = Ok c"
    and at: "j + m = k" "0 < m \<Longrightarrow> unat i = j" "0 < m \<Longrightarrow> unat last_index = start + shares n k j"
  shows "\<exists>cs. build_loop checks G C resumes base extra m i last_index = Ok cs \<and>
    map (\<lambda>(s, c). (unat (cs_from s), unat (cs_to s))) cs =
      map (\<lambda>j. (start + shares n k j, start + shares n k (Suc j) - 1)) [j ..< k] \<and>
    (\<forall>(s, c) \<in> set cs. cs_total s = shards_total C \<and> cs_resumes s = resumes)"
  using at
proof (induction m arbitrary: i j last_index)
  case 0
  then show ?case
    by simp
next
  case (Suc m)
  have last: "unat last_index = start + shares n k j" and i: "unat i = j" and j: "j < k"
    using Suc.prems by auto
  have next_le: "shares n k (Suc j) \<le> n"
    using shares_mono [of "Suc j" k n k] shares_all [OF k(1), of n] j by simp
  let ?to = "start + shares n k (Suc j) - 1"
  have pos: "0 < share n k j"
    by (rule share_pos [OF k])
  obtain e where e: "range_end checks base extra last_index i = Ok e" "unat e = ?to"
    using range_end_share [OF k base, of last_index i checks] fits next_le last i
    by (fastforce simp: shares_Suc add.assoc)
  have inc: "checks \<Longrightarrow> unat e + 1 < 2 ^ 64"
    using e(2) fits(2) next_le pos by (simp add: shares_Suc)
  have step: "unat (e + 1) = start + shares n k (Suc j)" if "0 < m"
  proof -
    have "Suc j < k"
      using that Suc.prems(1) by simp
    then have "shares n k (Suc j) + share n k (Suc j) \<le> n"
      using shares_mono [of "Suc (Suc j)" k n k] shares_all [OF k(1), of n]
      by (simp add: shares_Suc [of n k "Suc j"])
    then have "?to + 1 < 2 ^ 64"
      using fits(1) share_pos [OF k, of "Suc j"] pos by (simp add: shares_Suc)
    then show ?thesis
      using e(2) pos by (simp add: unat_word_ariths shares_Suc)
  qed
  have idx: "unat (i + 1) = Suc j" if "0 < m"
    using that Suc.prems(1) i k fits(1) by (simp add: unat_word_ariths)
  obtain c where c: "build_cluster G C \<lparr>cs_from = last_index, cs_to = e, cs_total = shards_total C,
      cs_resumes = resumes\<rparr> = Ok c"
    using built by blast
  obtain cs where "build_loop checks G C resumes base extra m (i + 1) (e + 1) = Ok cs"
      "map (\<lambda>(s, c). (unat (cs_from s), unat (cs_to s))) cs =
        map (\<lambda>j. (start + shares n k j, start + shares n k (Suc j) - 1)) [Suc j ..< k]"
      "\<forall>(s, c) \<in> set cs. cs_total s = shards_total C \<and> cs_resumes s = resumes"
    using Suc.IH [of "Suc j" "i + 1" "e + 1"] Suc.prems(1) idx step by auto
  with e c inc last j show ?case
    by (simp add: Let_def add_u64_def checked_def upt_conv_Cons)
qed

lemma concat_shares:
  "concat (map (\<lambda>j. [a + shares n k j ..< a + shares n k (Suc j)]) [0 ..< m]) = [a ..< a + shares n k m]"
proof (induction m)
  case (Suc m)
  have "a + shares n k m \<le> a + shares n k (Suc m)"
    by (simp add: shares_Suc)
  with Suc show ?case
    using upt_add_eq_append [of a "a + shares n k m" "shares n k (Suc m) - shares n k m"]
    by (simp add: shares_Suc add.assoc)
qed simp

definition shard_number :: "config \<Rightarrow> nat" where
  "shard_number C = unat (shards_end C) - unat (shards_start C) + 1"

definition shards_fit :: "bool \<Rightarrow> config \<Rightarrow> bool" where
  "shards_fit checks C \<longleftrightarrow> shards_start C \<le> shards_end C \<and> shard_number C < 2 ^ 64 \<and>
     (checks \<longrightarrow> unat (shards_end C) + 1 < 2 ^ 64)"

lemma shards_fit_count:
  assumes "shards_fit checks C"
  obtains n where "shard_count checks C = Ok n" "unat n = shard_number C"
    "unat (shards_start C) + shard_number C = Suc (unat (shards_end C))"
proof
  let ?d = "shards_end C - shards_start C"
  have le: "unat (shards_start C) \<le> unat (shards_end C)" and fit: "unat ?d + 1 < 2 ^ 64"
    using assms by (simp_all add: shards_fit_def shard_number_def word_le_nat_alt unat_sub)
  then show "shard_count checks C = Ok (?d + 1)"
    using assms by (simp add: shard_count_def sub_u64_def add_u64_def checked_def shards_fit_def)
  show "unat (?d + 1) = shard_number C"
    using assms fit by (simp add: shards_fit_def shard_number_def unat_word_ariths unat_sub)
  show "unat (shards_start C) + shard_number C = Suc (unat (shards_end C))"
    using le by (simp add: shard_number_def)
qed

lemma build_clusters_ranges:
  assumes "shards_fit checks C" "clusters C \<noteq> 0" "unat (clusters C) \<le> shard_number C"
    and "\<And>s. \<exists>c. build_cluster G C s = Ok c"
  shows "\<exists>cs info. build_clusters checks G C resumes = Ok (cs, info) \<and>
    length cs = unat (clusters C) \<and>
    concat (map (\<lambda>(s, c). range_shards s) cs) = [unat (shards_start C) ..< Suc (unat (shards_end C))] \<and>
    map (\<lambda>(s, c). length (range_shards s)) cs =
      map (share (shard_number C) (unat (clusters C))) [0 ..< unat (clusters C)]"
proof -
  let ?k = "unat (clusters C)" and ?n = "shard_number C" and ?a = "unat (shards_start C)"
  obtain n where n: "shard_count checks C = Ok n" "unat n = ?n" "?a + ?n = Suc (unat (shards_end C))"
    using shards_fit_count [OF assms(1)] .
  have k: "0 < ?k" "?k \<le> ?n"
    using assms(2,3) by (simp_all add: unat_gt_0)
  have base: "unat (n div clusters C) = ?n div ?k" "unat (n mod clusters C) = ?n mod ?k"
    by (simp_all add: unat_div unat_mod n(2))
  have fits: "?a + ?n \<le> 2 ^ 64" "checks \<Longrightarrow> ?a + ?n < 2 ^ 64"
    using assms(1) n(3) unat_lt2p_64 [of "shards_end C"] by (simp_all add: shards_fit_def)
  obtain cs where cs: "build_loop checks G C resumes (n div clusters C) (n mod clusters C) ?k 0 (shards_start C) = Ok cs"
      "map (\<lambda>(s, c). (unat (cs_from s), unat (cs_to s))) cs =
        map (\<lambda>j. (?a + shares ?n ?k j, ?a + shares ?n ?k (Suc j) - 1)) [0 ..< ?k]"
    using build_loop_ranges [where checks = checks and k = ?k and n = ?n and start = ?a and j = 0 and m = ?k and i = 0
        and last_index = "shards_start C" and resumes = resumes, OF k base fits assms(4)] by auto
  have pos: "0 < share ?n ?k j" for j
    by (rule share_pos [OF k])
  have ends: "Suc (?a + shares ?n ?k (Suc j) - Suc 0) = ?a + shares ?n ?k (Suc j)" for j
    using pos [of j] by (simp add: shares_Suc)
  have "map (\<lambda>(s, c). range_shards s) cs = map ((\<lambda>(f, t). [f ..< Suc t]) \<circ> (\<lambda>(s, c). (unat (cs_from s), unat (cs_to s)))) cs"
    by (simp add: range_shards_def comp_def case_prod_beta)
  also have "\<dots> = map (\<lambda>(f, t). [f ..< Suc t]) (map (\<lambda>j. (?a + shares ?n ?k j, ?a + shares ?n ?k (Suc j) - 1)) [0 ..< ?k])"
    by (simp only: map_map [symmetric] cs(2))
  also have "\<dots> = map (\<lambda>j. [?a + shares ?n ?k j ..< ?a + shares ?n ?k (Suc j)]) [0 ..< ?k]"
    using ends by (simp add: comp_def del: upt_Suc)
  finally have ranges: "map (\<lambda>(s, c). range_shards s) cs = map (\<lambda>j. [?a + shares ?n ?k j ..< ?a + shares ?n ?k (Suc j)]) [0 ..< ?k]" .
  have "map (\<lambda>(s, c). length (range_shards s)) cs = map length (map (\<lambda>(s, c). range_shards s) cs)"
    by (simp add: case_prod_beta comp_def)
  then have sizes: "map (\<lambda>(s, c). length (range_shards s)) cs = map (share ?n ?k) [0 ..< ?k]"
    unfolding ranges by (simp add: shares_Suc comp_def)
  have "length cs = ?k"
    using arg_cong [OF cs(2), of length] by simp
  moreover have "concat (map (\<lambda>(s, c). range_shards s) cs) = [?a ..< Suc (unat (shards_end C))]"
    unfolding ranges concat_shares shares_all [OF k(1)] n(3) ..
  ultimately show ?thesis
    using cs(1) n(1) assms(2) sizes by (simp add: build_clusters_def div_u64_def rem_u64_def)
qed

text \<open>
  C15: with at least one cluster and no more clusters than shards, the clusters get the
  configured shards: their ranges, in order, list every shard from \<open>shards_start\<close> to
  \<open>shards_end\<close> once, and their sizes differ by at most one. This holds up to the last
  \<open>u64\<close> in a release build.
\<close>

theorem cluster_ranges:
  assumes "shards_fit checks C" "clusters C \<noteq> 0" "unat (clusters C) \<le> shard_number C"
    and "\<And>s. \<exists>c. build_cluster G C s = Ok c"
  shows "\<exists>cs info. build_clusters checks G C resumes = Ok (cs, info) \<and>
    length cs = unat (clusters C) \<and>
    concat (map (\<lambda>(s, c). range_shards s) cs) = [unat (shards_start C) ..< Suc (unat (shards_end C))] \<and>
    map (\<lambda>(s, c). length (range_shards s)) cs =
      map (share (shard_number C) (unat (clusters C))) [0 ..< unat (clusters C)]"
  by (rule build_clusters_ranges [OF assms])

text \<open>
  No clusters is a panic, the division of the shards by zero, in a debug build and in a
  release build, whatever the other settings.
\<close>

lemma no_clusters_panic:
  assumes "clusters C = 0"
  shows "\<exists>m. build_clusters checks G C resumes = Panic m"
  using assms
  by (auto simp: build_clusters_def div_u64_def shard_count_def sub_u64_def add_u64_def checked_def)

text \<open>With more clusters than shards the first get one each, the others an inverted range.\<close>

lemma build_loop_inverted:
  fixes i extra last_index :: u64
  assumes built: "\<And>s. \<exists>c. build_cluster G C s = Ok c"
    and at: "unat extra \<le> unat i" "unat i + m < 2 ^ 64"
  shows "\<exists>cs. build_loop False G C resumes 0 extra m i last_index = Ok cs \<and>
    map (\<lambda>(s, c). (cs_from s, cs_to s)) cs = replicate m (last_index, last_index - 1)"
  using at
proof (induction m arbitrary: i)
  case (Suc m)
  obtain c where c: "build_cluster G C \<lparr>cs_from = last_index, cs_to = last_index - 1,
      cs_total = shards_total C, cs_resumes = resumes\<rparr> = Ok c"
    using built by blast
  have "unat (i + 1) = Suc (unat i)"
    using Suc.prems(2) by (simp add: unat_word_ariths)
  with Suc.IH [of "i + 1"] Suc.prems c show ?case
    by (auto simp: range_end_def add_u64_def sub_u64_def checked_def word_less_nat_alt)
qed simp

lemma build_loop_surplus:
  fixes i extra last_index :: u64
  assumes built: "\<And>s. \<exists>c. build_cluster G C s = Ok c"
    and at: "unat i + p = unat extra" "unat extra + m < 2 ^ 64"
  shows "\<exists>cs. build_loop False G C resumes 0 extra (p + m) i last_index = Ok cs \<and>
    map (\<lambda>(s, c). (cs_from s, cs_to s)) cs =
      map (\<lambda>j. (last_index + of_nat j, last_index + of_nat j)) [0 ..< p] @
      replicate m (last_index + of_nat p, last_index + of_nat p - 1)"
  using at
proof (induction p arbitrary: i last_index)
  case 0
  then show ?case
    using build_loop_inverted [OF built, of extra i m resumes last_index] by simp
next
  case (Suc p)
  obtain c where c: "build_cluster G C \<lparr>cs_from = last_index, cs_to = last_index,
      cs_total = shards_total C, cs_resumes = resumes\<rparr> = Ok c"
    using built by blast
  have i: "unat (i + 1) + p = unat extra" "i < extra"
    using Suc.prems unat_lt2p_64 [of extra] by (simp_all add: unat_word_ariths word_less_nat_alt)
  obtain cs where cs: "build_loop False G C resumes 0 extra (p + m) (i + 1) (last_index + 1) = Ok cs"
    "map (\<lambda>(s, c). (cs_from s, cs_to s)) cs =
      map (\<lambda>j. (last_index + 1 + of_nat j, last_index + 1 + of_nat j)) [0 ..< p] @
      replicate m (last_index + 1 + of_nat p, last_index + 1 + of_nat p - 1)"
    using Suc.IH [OF i(1) Suc.prems(2)] by blast
  have "map (\<lambda>j. (last_index + of_nat j, last_index + of_nat j)) [0 ..< Suc p] =
      (last_index, last_index) # map (\<lambda>j. (last_index + 1 + of_nat j, last_index + 1 + of_nat j)) [0 ..< p]"
    by (subst upt_conv_Cons) (simp_all add: map_Suc_upt [symmetric] comp_def add.assoc del: upt_Suc)
  with cs c i(2) show ?case
    by (simp add: range_end_def add_u64_def checked_def Let_def add.assoc del: upt_Suc)
qed

text \<open>
  With more clusters than shards a release build starts one cluster for every shard, and
  each cluster that is left over with the inverted range from \<open>shards_end + 1\<close> to
  \<open>shards_end\<close>.
\<close>

lemma surplus_clusters:
  assumes "shards_fit False C" "shard_number C < unat (clusters C)"
    and "\<And>s. \<exists>c. build_cluster G C s = Ok c"
  shows "\<exists>cs info. build_clusters False G C resumes = Ok (cs, info) \<and>
    map (\<lambda>(s, c). (cs_from s, cs_to s)) cs =
      map (\<lambda>j. (shards_start C + of_nat j, shards_start C + of_nat j)) [0 ..< shard_number C] @
      replicate (unat (clusters C) - shard_number C) (shards_end C + 1, shards_end C)"
proof -
  let ?n = "shard_number C"
  obtain n where n: "shard_count False C = Ok n" "unat n = ?n" "unat (shards_start C) + ?n = Suc (unat (shards_end C))"
    using shards_fit_count [OF assms(1)] .
  have less: "n < clusters C" "clusters C \<noteq> 0"
    using assms(2) n(2) by (auto simp: word_less_nat_alt)
  have "n div clusters C = 0" "n mod clusters C = n"
    using less(1) by (simp_all add: word_unat_eq_iff unat_div unat_mod word_less_nat_alt)
  moreover obtain cs where "build_loop False G C resumes 0 n (?n + (unat (clusters C) - ?n)) 0 (shards_start C) = Ok cs"
      "map (\<lambda>(s, c). (cs_from s, cs_to s)) cs =
      map (\<lambda>j. (shards_start C + of_nat j, shards_start C + of_nat j)) [0 ..< ?n] @
      replicate (unat (clusters C) - ?n) (shards_start C + of_nat ?n, shards_start C + of_nat ?n - 1)"
    using build_loop_surplus [OF assms(3), of 0 ?n n "unat (clusters C) - ?n" resumes "shards_start C"]
      assms(2) n(2) unat_lt2p_64 [of "clusters C"] by auto
  moreover have "shards_start C + of_nat ?n = shards_end C + 1"
    using arg_cong [OF n(3), of "of_nat :: nat \<Rightarrow> u64"] by (simp add: add.commute)
  ultimately show ?thesis
    using n(1) less assms(2) by (simp add: build_clusters_def div_u64_def rem_u64_def)
qed

section \<open>Resuming\<close>

lemma parse_resumes_shown:
  assumes "\<forall>(k, v) \<in> set ss. \<exists>n. k = show_u64 n"
  shows "\<exists>rs. parse_resumes ss m = Ok rs \<and>
    (\<forall>n. map_of rs n = (case map_of (rev ss) (show_u64 n) of Some v \<Rightarrow> Some v | None \<Rightarrow> map_of m n))"
  using assms
proof (induction ss m rule: parse_resumes.induct)
  case (2 key v rest m)
  then obtain n where "key = show_u64 n"
    by auto
  with 2 show ?case
    by (auto simp: map_of_insert_entry map_add_def split: option.splits) (metis option.distinct(1))+
qed simp

text \<open>
  A key of the stored sessions that is not a shard number is a panic.
\<close>

lemma bad_session_panics:
  assumes "(key, v) \<in> set ss" "parse_u64 key = None"
  shows "\<exists>m. parse_resumes ss rs = Panic m"
  using assms
  by (induction ss rs rule: parse_resumes.induct) (auto split: option.split)

end
