(* ===== verification/Utils.thy ===== *)
theory Utils
  imports Cluster
begin

text \<open>
  \<open>src/utils.rs\<close>: the declaration of the exchange and the queues, and the posts to the
  Discord log channels; with the effects of the service on the outside that the event handlers
  share. RabbitMQ and Discord are services outside the repository: \<open>broker\<close> and
  \<open>outside\<close> are parameters, what the code relies on of the broker is \<open>broker_contract\<close>.
\<close>

section \<open>Colours\<close>

definition CONNECT_COLOR :: u64 where "CONNECT_COLOR = 0x00FF00"
definition DISCONNECT_COLOR :: u64 where "DISCONNECT_COLOR = 0xFF0000"
definition READY_COLOR :: u64 where "READY_COLOR = 0x00FF00"
definition RESUME_COLOR :: u64 where "RESUME_COLOR = 0x1E90FF"
definition JOIN_COLOR :: u64 where "JOIN_COLOR = 0x00FF00"
definition LEAVE_COLOR :: u64 where "LEAVE_COLOR = 0xFF0000"

section \<open>Effects\<close>

text \<open>The fields of an \<open>Embed\<close> that are set, the time stamp left aside.\<close>

record embed =
  eb_color :: "32 word"
  eb_title :: string
  eb_description :: "string option"

text \<open>
  A gauge and the labels it is set for. What the service does to the outside, in order: log
  lines, an increment of the counter with the labels, a gauge that is set, a publication
  (exchange, routing key, body), a post to a Discord channel, and for the incoming deliveries the
  acknowledgement, a command to a shard of a cluster (its position) and the shutdown of a shard.
  \<open>Aborted\<close> is a panic: it ends the task, and the process in a build whose panics abort.
\<close>

datatype gauge = Gauge string "string list" int

datatype effect =
    Info string
  | Warn string
  | Error string
  | Count string "string list"
  | SetGauge gauge
  | Publish string string string
  | Post u64 embed
  | Ack u64
  | Command nat u64 string
  | Shutdown nat u64
  | Aborted string

text \<open>
  The build and the answers of the outside. \<open>ou_unwinds\<close>: whether a panic unwinds and ends
  its task only, as in Cargo's debug profile, or aborts the process, as the release profile in
  \<open>Cargo.toml\<close> says. An error is its debug text; \<open>None\<close> is success.
  \<open>ou_session\<close> is the session of a shard as \<open>Cluster::shard\<close> and \<open>Shard::info\<close> tell
  it, \<open>ou_has_shard\<close> whether a cluster has the shard.
\<close>

record outside =
  ou_unwinds :: bool
  ou_embed_ok :: "embed \<Rightarrow> bool"
  ou_post :: "u64 \<Rightarrow> embed \<Rightarrow> string option"
  ou_publish :: "string \<Rightarrow> string \<Rightarrow> string \<Rightarrow> string option"
  ou_session :: "u64 \<Rightarrow> string option option"
  ou_has_shard :: "nat \<Rightarrow> u64 \<Rightarrow> bool"
  ou_send :: "nat \<Rightarrow> u64 \<Rightarrow> string \<Rightarrow> string option"

section \<open>Posts to Discord\<close>

text \<open>
  The spawned task: a message that \<open>twilight_http\<close> refuses is dropped, a post that fails is
  logged. Its effects may come later than those that follow it in the list.
\<close>

definition post_embed :: "outside \<Rightarrow> u64 \<Rightarrow> embed \<Rightarrow> effect list" where
  "post_embed E chan e =
     (if ou_embed_ok E e
      then Post chan e # (case ou_post E chan e of
             Some err \<Rightarrow> [Warn (''Failed to post message to Discord: '' @ err)] | None \<Rightarrow> [])
      else [])"

definition log_discord :: "config \<Rightarrow> outside \<Rightarrow> u64 \<Rightarrow> string \<Rightarrow> effect list" where
  "log_discord C E color msg =
     (if log_channel C = 0 then []
      else post_embed E (log_channel C)
        \<lparr>eb_color = ucast color, eb_title = msg, eb_description = None\<rparr>)"

definition log_discord_guild :: "config \<Rightarrow> outside \<Rightarrow> u64 \<Rightarrow> string \<Rightarrow> string \<Rightarrow> effect list" where
  "log_discord_guild C E color title msg =
     (if log_guild_channel C = 0 then []
      else post_embed E (log_guild_channel C)
        \<lparr>eb_color = ucast color, eb_title = title, eb_description = Some msg\<rparr>)"

section \<open>The broker\<close>

datatype exchange_kind = Topic

datatype amqp =
    ExchangeDeclare string exchange_kind bool
  | QueueDeclare string bool
  | QueueBind string string string
  | BasicPublish string string string

text \<open>The flag of a declaration is \<open>durable\<close>; all the other flags are false in the code.\<close>

type_synonym 'b broker = "amqp \<Rightarrow> 'b \<Rightarrow> (string + unit) \<times> 'b"

fun send_all :: "'b broker \<Rightarrow> amqp list \<Rightarrow> 'b \<Rightarrow> unit res \<times> 'b" where
  "send_all B [] b = (Ok (), b)"
| "send_all B (c # cs) b =
     (case B c b of (Inl e, b') \<Rightarrow> (Err (Lapin e), b') | (Inr _, b') \<Rightarrow> send_all B cs b')"

definition declare_queues :: "config \<Rightarrow> 'b broker \<Rightarrow> 'b \<Rightarrow> unit res \<times> 'b" where
  "declare_queues C B =
     send_all B
       ([ExchangeDeclare EXCHANGE Topic True, QueueDeclare QUEUE_SEND True] @
        (if default_queue C
         then [QueueDeclare QUEUE_RECV True, QueueBind QUEUE_RECV EXCHANGE ''#'']
         else []))"

text \<open>
  What a broker holds: its durable topic exchanges, its durable queues with their messages
  (routing key and body, oldest first), its bindings.
\<close>

record broker_state =
  bs_exchanges :: "string set"
  bs_queues :: "string \<Rightarrow> (string \<times> string) list option"
  bs_bindings :: "(string \<times> string \<times> string) set"

text \<open>The pattern \<open>#\<close> matches every routing key; of the others nothing is said.\<close>

definition routed :: "(string \<Rightarrow> string \<Rightarrow> bool) \<Rightarrow> broker_state \<Rightarrow> string \<Rightarrow> string \<Rightarrow> string \<Rightarrow> bool" where
  "routed match b exchange key q \<longleftrightarrow>
     (\<exists>pattern. (q, exchange, pattern) \<in> bs_bindings b \<and> (pattern = ''#'' \<or> match pattern key))"

fun amqp_effect :: "(string \<Rightarrow> string \<Rightarrow> bool) \<Rightarrow> amqp \<Rightarrow> broker_state \<Rightarrow> broker_state" where
  "amqp_effect match (ExchangeDeclare x kind durable) b =
     (if durable then b\<lparr>bs_exchanges := insert x (bs_exchanges b)\<rparr> else b)"
| "amqp_effect match (QueueDeclare q durable) b =
     (if durable \<and> bs_queues b q = None then b\<lparr>bs_queues := (bs_queues b)(q \<mapsto> [])\<rparr> else b)"
| "amqp_effect match (QueueBind q x pattern) b =
     b\<lparr>bs_bindings := insert (q, x, pattern) (bs_bindings b)\<rparr>"
| "amqp_effect match (BasicPublish x key body) b =
     b\<lparr>bs_queues := (\<lambda>q. case bs_queues b q of
          Some ms \<Rightarrow> Some (if routed match b x key q then ms @ [(key, body)] else ms)
        | None \<Rightarrow> None)\<rparr>"

definition broker_contract ::
  "(string \<Rightarrow> string \<Rightarrow> bool) \<Rightarrow> 'b broker \<Rightarrow> ('b \<Rightarrow> broker_state) \<Rightarrow> bool" where
  "broker_contract match B view \<longleftrightarrow>
     (\<forall>c b b'. B c b = (Inr (), b') \<longrightarrow> view b' = amqp_effect match c (view b))"

lemma send_all_view:
  assumes "broker_contract match B view" "send_all B cs b = (Ok (), b')"
  shows "view b' = fold (amqp_effect match) cs (view b)"
  using assms(2)
proof (induction cs arbitrary: b)
  case (Cons c cs)
  then obtain b1 where "B c b = (Inr (), b1)" "send_all B cs b1 = (Ok (), b')"
    by (auto split: prod.splits sum.splits)
  with Cons.IH assms(1) show ?case
    by (auto simp: broker_contract_def)
qed simp

text \<open>What the service needs of the broker before it starts.\<close>

definition declared :: "config \<Rightarrow> broker_state \<Rightarrow> bool" where
  "declared C b \<longleftrightarrow>
     EXCHANGE \<in> bs_exchanges b \<and> bs_queues b QUEUE_SEND \<noteq> None \<and>
     (default_queue C \<longrightarrow> bs_queues b QUEUE_RECV \<noteq> None \<and>
        (QUEUE_RECV, EXCHANGE, ''#'') \<in> bs_bindings b)"

lemma declare_queues_view:
  assumes "broker_contract match B view" "declare_queues C B b = (Ok (), b')"
  shows "declared C (view b') \<and> (\<forall>q ms. bs_queues (view b) q = Some ms \<longrightarrow> bs_queues (view b') q = Some ms)"
  using send_all_view [OF assms(1) assms(2) [unfolded declare_queues_def]]
  by (auto simp: declared_def EXCHANGE_def QUEUE_SEND_def QUEUE_RECV_def)

lemmas declared_after = declare_queues_view [THEN conjunct1]

text \<open>
  When \<open>declare_queues\<close> returns \<open>Ok\<close> the exchange and the queues of the
  configuration are declared and bound, and no message that was in a queue is lost.
\<close>

lemma declare_queues_declares:
  assumes "broker_contract match B view" "declare_queues C B b = (Ok (), b')"
  shows "declared C (view b') \<and> (\<forall>q ms. bs_queues (view b) q = Some ms \<longrightarrow> bs_queues (view b') q = Some ms)"
  by (rule declare_queues_view [OF assms])

lemma publish_recv:
  assumes "declared C b" "default_queue C"
  shows "bs_queues (amqp_effect match (BasicPublish EXCHANGE key body) b) QUEUE_RECV =
      Some (the (bs_queues b QUEUE_RECV) @ [(key, body)])"
    and "declared C (amqp_effect match (BasicPublish EXCHANGE key body) b)"
  using assms by (auto simp: declared_def routed_def split: option.split)

end
