(* ===== verification/Handler.thy ===== *)
theory Handler
  imports Utils CacheSafety
begin

text \<open>
  \<open>src/handler.rs\<close>. The loop of \<open>outgoing\<close> updates the cache for \<open>Ready\<close>
  (\<open>update_at_once\<close>) and spawns a task for every event (\<open>handle_event\<close>), which updates
  the cache, counts and logs the event and publishes the payloads of the gateway; the loop itself,
  with the tasks of several events under way at once, is \<open>receive_event\<close> and
  \<open>finish_proc\<close> of the theory \<open>Service\<close>. \<open>incoming\<close> passes the deliveries of the
  queue on to the shards.
\<close>

section \<open>Reacting to an event\<close>

definition shard_msg :: "u64 \<Rightarrow> string \<Rightarrow> string" where
  "shard_msg shard msg = ''[Shard '' @ show_u64 shard @ ''] '' @ msg"

definition show_bool :: "bool \<Rightarrow> string" where
  "show_bool b = (if b then ''true'' else ''false'')"

text \<open>The \<open>name\<close> labels of the counter vectors of \<open>src/metrics.rs\<close>.\<close>

definition GATEWAY_EVENTS :: string where "GATEWAY_EVENTS = ''gateway_events''"
definition SHARD_EVENTS :: string where "SHARD_EVENTS = ''gateway_shard_events''"
definition GUILD_EVENTS :: string where "GUILD_EVENTS = ''gateway_guild_events''"

definition react_resumed :: "config \<Rightarrow> outside \<Rightarrow> u64 \<Rightarrow> effect list" where
  "react_resumed C E shard =
     [Info (shard_msg shard (case ou_session E shard of
        Some session \<Rightarrow>
          ''Resumed (session: '' @ (case session of Some s \<Rightarrow> s | None \<Rightarrow> '''') @ '')''
      | None \<Rightarrow> ''Resumed''))] @
     log_discord C E RESUME_COLOR (shard_msg shard ''Resumed'') @ [Count SHARD_EVENTS [''Resumed'']]"

definition react_disconnected ::
  "config \<Rightarrow> outside \<Rightarrow> u64 \<Rightarrow> nat option \<Rightarrow> string option \<Rightarrow> effect list" where
  "react_disconnected C E shard code reason =
     [Info (shard_msg shard (case code of
        Some c \<Rightarrow>
          (let why = (case reason of Some r \<Rightarrow> r | None \<Rightarrow> '''') in
           if why \<noteq> '''' then ''Disconnected (code: '' @ show_nat c @ '', reason: '' @ why @ '')''
           else ''Disconnected (code: '' @ show_nat c @ '')'')
      | None \<Rightarrow> ''Disconnected''))] @
     log_discord C E DISCONNECT_COLOR (shard_msg shard ''Disconnected'') @
     [Count SHARD_EVENTS [''Disconnected'']]"

definition react_guild_create ::
  "config \<Rightarrow> outside \<Rightarrow> guild \<Rightarrow> json option \<Rightarrow> effect list" where
  "react_guild_create C E d old =
     (if old = None
      then Count GUILD_EVENTS [''Join''] #
        log_discord_guild C E JOIN_COLOR ''Guild Join'' (gd_name d @ '' ('' @ show_u64 (gd_id d) @ '')'')
      else [])"

fun as_str :: "json \<Rightarrow> string option" where
  "as_str (JString s) = Some s"
| "as_str _ = None"

definition str_field :: "(string \<times> json) list \<Rightarrow> string \<Rightarrow> string \<Rightarrow> string" where
  "str_field obj name otherwise =
     (case Option.bind (map_of obj name) as_str of Some s \<Rightarrow> s | None \<Rightarrow> otherwise)"

definition react_guild_delete :: "config \<Rightarrow> outside \<Rightarrow> bool \<Rightarrow> json option \<Rightarrow> effect list" where
  "react_guild_delete C E unavailable old =
     (if \<not> unavailable then
        Count GUILD_EVENTS [''Leave''] #
        (case (case old of Some v \<Rightarrow> v | None \<Rightarrow> JObject []) of
           JObject obj \<Rightarrow>
             log_discord_guild C E LEAVE_COLOR ''Guild Leave''
               (str_field obj ''name'' ''Unknown'' @ '' ('' @ str_field obj ''id'' ''0'' @ '')'')
         | _ \<Rightarrow> [Aborted ''called Option::unwrap() on a None value''])
      else [])"

definition react_payload ::
  "runtime \<Rightarrow> outside \<Rightarrow> u64 \<Rightarrow> string \<Rightarrow> json option \<Rightarrow> effect list" where
  "react_payload R E shard bytes old =
     (case de_payload R bytes of
        Inr payload \<Rightarrow>
          (case pi_t payload of
             Some kind \<Rightarrow>
               Count GATEWAY_EVENTS [kind, show_u64 shard] #
               (case ser_payload R (payload\<lparr>pi_old := old\<rparr>) of
                  Inr body \<Rightarrow>
                    Publish EXCHANGE kind body #
                    (case ou_publish E EXCHANGE kind body of
                       Some err \<Rightarrow> [Warn (shard_msg shard (''Failed to publish event: '' @ err))]
                     | None \<Rightarrow> [])
                | Inl err \<Rightarrow> [Warn (shard_msg shard (''Failed to serialize payload: '' @ err))])
           | None \<Rightarrow> [])
      | Inl err \<Rightarrow> [Warn (shard_msg shard (''Could not decode payload: '' @ err))])"

fun react :: "config \<Rightarrow> runtime \<Rightarrow> outside \<Rightarrow> u64 \<Rightarrow> json option \<Rightarrow> event \<Rightarrow> effect list" where
  "react C R E shard old (GatewayHello interval) =
     [Info (shard_msg shard (''Hello (heartbeat interval: '' @ show_u64 interval @ '')''))]"
| "react C R E shard old (GatewayInvalidateSession resumable) =
     [Info (shard_msg shard (''Invalid Session (resumable: '' @ show_bool resumable @ '')''))]"
| "react C R E shard old (Ready u gs session) =
     [Info (shard_msg shard (''Ready (session: '' @ session @ '')''))] @
       log_discord C E READY_COLOR (shard_msg shard ''Ready'') @ [Count SHARD_EVENTS [''Ready'']]"
| "react C R E shard old Resumed = react_resumed C E shard"
| "react C R E shard old ShardConnected =
     [Info (shard_msg shard ''Connected'')] @
       log_discord C E CONNECT_COLOR (shard_msg shard ''Connected'') @ [Count SHARD_EVENTS [''Connected'']]"
| "react C R E shard old (ShardConnecting gateway) =
     [Info (shard_msg shard (''Connecting (url: '' @ gateway @ '')'')), Count SHARD_EVENTS [''Connecting'']]"
| "react C R E shard old (ShardDisconnected code reason) = react_disconnected C E shard code reason"
| "react C R E shard old ShardIdentifying =
     [Info (shard_msg shard ''Identifying''), Count SHARD_EVENTS [''Identifying'']]"
| "react C R E shard old ShardReconnecting =
     [Info (shard_msg shard ''Reconnecting''), Count SHARD_EVENTS [''Reconnecting'']]"
| "react C R E shard old (ShardResuming seq) =
     [Info (shard_msg shard (''Resuming (sequence: '' @ show_u64 seq @ '')'')),
         Count SHARD_EVENTS [''Resuming'']]"
| "react C R E shard old (GuildCreate d) = react_guild_create C E d old"
| "react C R E shard old (GuildDelete g unavailable) = react_guild_delete C E unavailable old"
| "react C R E shard old (ShardPayload bytes) = react_payload R E shard bytes old"
| "react C R E shard old _ = []"

section \<open>Outgoing events\<close>

text \<open>\<open>event.kind()\<close>, as far as the handler asks for it.\<close>

fun is_ready :: "event \<Rightarrow> bool" where
  "is_ready (Ready u gs session) = True"
| "is_ready _ = False"

fun is_payload :: "event \<Rightarrow> bool" where
  "is_payload (ShardPayload bytes) = True"
| "is_payload _ = False"

definition update_failed :: "u64 \<Rightarrow> api_error \<Rightarrow> effect" where
  "update_failed shard err =
     Warn (shard_msg shard (''Failed to update state: '' @ debug_error err))"

text \<open>The part before the task is spawned: \<open>Ready\<close> updates the cache at once.\<close>

definition update_at_once ::
  "config \<Rightarrow> runtime \<Rightarrow> outside \<Rightarrow> u64 \<Rightarrow> u64 \<Rightarrow> event \<Rightarrow> effect list task" where
  "update_at_once C R E bot_id shard event =
     (if state_enabled C \<and> is_ready event
      then then_result (update C R bot_id event) (\<lambda>r.
        case r of Inl err \<Rightarrow> ok [update_failed shard err] | Inr _ \<Rightarrow> ok [])
      else ok [])"

definition handle_event ::
  "config \<Rightarrow> runtime \<Rightarrow> outside \<Rightarrow> u64 \<Rightarrow> u64 \<Rightarrow> event \<Rightarrow> effect list task" where
  "handle_event C R E bot_id shard event =
     and_then
       (if state_enabled C \<and> \<not> is_payload event \<and> \<not> is_ready event
        then then_result (update C R bot_id event) (\<lambda>r.
          case r of Inr value \<Rightarrow> ok (value, []) | Inl err \<Rightarrow> ok (None, [update_failed shard err]))
        else ok (None, []))
       (\<lambda>(old, failed). ok (failed @ react C R E shard old event))"

text \<open>
  The end of the spawned task. Where panics unwind, the runtime catches the panic; else the
  process is aborted.
\<close>

fun abort_of :: "effect list \<Rightarrow> string option" where
  "abort_of [] = None"
| "abort_of (Aborted m # es) = Some m"
| "abort_of (_ # es) = abort_of es"

fun task_result :: "outside \<Rightarrow> effect list res \<Rightarrow> effect list res" where
  "task_result E (Ok es) =
     (case abort_of es of Some m \<Rightarrow> if ou_unwinds E then Ok es else Panic m | None \<Rightarrow> Ok es)"
| "task_result E (Panic m) = (if ou_unwinds E then Ok [Aborted m] else Panic m)"
| "task_result E (Err e) = Err e"

primrec spawned_task :: "outside \<Rightarrow> effect list task \<Rightarrow> effect list task" where
  "spawned_task E (Done r) = Done (task_result E r)"
| "spawned_task E (ReadString k c) = ReadString k (\<lambda>r. spawned_task E (c r))"
| "spawned_task E (ReadStrings ks c) = ReadStrings ks (\<lambda>r. spawned_task E (c r))"
| "spawned_task E (ReadMembers k c) = ReadMembers k (\<lambda>r. spawned_task E (c r))"
| "spawned_task E (ReadCard k c) = ReadCard k (\<lambda>r. spawned_task E (c r))"
| "spawned_task E (ReadHash k c) = ReadHash k (\<lambda>r. spawned_task E (c r))"
| "spawned_task E (Write w c) = Write w (\<lambda>r. spawned_task E (c r))"
| "spawned_task E (Now c) = Now (\<lambda>t. spawned_task E (c t))"

section \<open>Incoming deliveries\<close>

text \<open>A delivery: the error of the consumer, or the delivery tag and the data.\<close>

type_synonym delivery = "string + (u64 \<times> string)"

text \<open>Missing data is the JSON value \<open>null\<close>; data that does not serialise is empty.\<close>

definition command_body :: "runtime \<Rightarrow> delivery_info \<Rightarrow> string" where
  "command_body R payload =
     (case ser_json R (case di_data payload of Some v \<Rightarrow> v | None \<Rightarrow> JNull) of
        Inr bytes \<Rightarrow> bytes
      | Inl _ \<Rightarrow> '''')"

definition deliver_payload ::
  "runtime \<Rightarrow> outside \<Rightarrow> nat \<Rightarrow> delivery_info \<Rightarrow> effect list res" where
  "deliver_payload R E n payload =
     (case find (\<lambda>i. ou_has_shard E i (di_shard payload)) [0 ..< n] of
        Some i \<Rightarrow>
          (case di_op payload of
             Send \<Rightarrow>
               (let command = command_body R payload in
                Ok (Command i (di_shard payload) command #
                  (case ou_send E i (di_shard payload) command of
                     Some err \<Rightarrow> [Warn (''Failed to send gateway command: '' @ err)] | None \<Rightarrow> [])))
           | Reconnect \<Rightarrow>
               (if ou_has_shard E i (di_shard payload)
                then Ok [Info (''Shutting down shard '' @ show_u64 (di_shard payload)),
                         Shutdown i (di_shard payload)]
                else Panic ''called Option::unwrap() on a None value''))
      | None \<Rightarrow> Ok [Warn (''Delivery received for invalid shard: '' @ show_u64 (di_shard payload))])"

fun handle_delivery :: "runtime \<Rightarrow> outside \<Rightarrow> nat \<Rightarrow> delivery \<Rightarrow> effect list res" where
  "handle_delivery R E n (Inl err) = Ok [Warn (''Failed to consume delivery: '' @ err)]"
| "handle_delivery R E n (Inr (tag, data)) =
     bind_res
       (case de_delivery R data of
          Inr payload \<Rightarrow> deliver_payload R E n payload
        | Inl err \<Rightarrow> Ok [Warn (''Failed to deserialize payload: '' @ err)])
       (\<lambda>effects. Ok (Ack tag # effects))"

fun deliver_all :: "runtime \<Rightarrow> outside \<Rightarrow> nat \<Rightarrow> delivery list \<Rightarrow> effect list res" where
  "deliver_all R E n [] = Ok []"
| "deliver_all R E n (d # ds) =
     bind_res (handle_delivery R E n d) (\<lambda>first.
       bind_res (deliver_all R E n ds) (\<lambda>rest. Ok (first @ rest)))"

text \<open>\<open>basic_consume\<close> gives an error or the deliveries of the consumer, \<open>n\<close> clusters.\<close>

definition incoming :: "runtime \<Rightarrow> outside \<Rightarrow> nat \<Rightarrow> string + delivery list \<Rightarrow> effect list res" where
  "incoming R E n consumer =
     (case consumer of
        Inl err \<Rightarrow> Ok [Warn (''Failed to consume delivery channel: '' @ err)]
      | Inr ds \<Rightarrow> deliver_all R E n ds)"

end
