(* ===== verification/Queue.thy ===== *)
theory Queue
  imports Cluster
begin

text \<open>
  The shard queues of \<open>src/cluster.rs\<close>: \<open>LocalQueue\<close> with one waiter task,
  \<open>LargeBotQueue\<close> with one waiter per bucket. A shard that wants to identify sends a
  one-shot sender to the channel of its bucket and waits; the waiter of the bucket receives the
  senders in order, answers each and sleeps. The tasks run concurrently: a step of the relation
  is one action of one task, or time passing. \<open>sleep\<close> ends at the earliest when its
  duration has passed, and a waiter may be scheduled any time later.
\<close>

section \<open>State and steps\<close>

text \<open>A request: its number, the shard, and the time (milliseconds) at which it was sent.\<close>

record request =
  rq_ticket :: nat
  rq_shard :: u64
  rq_time :: nat

datatype waiter_pc = Receiving | Sleeping nat

text \<open>
  A bucket: the channel, the waiter, and the answered requests with the time of the answer and
  whether the shard still waited for it (otherwise the send fails, which is only logged).
\<close>

record bucket =
  bk_pending :: "request list"
  bk_pc :: waiter_pc
  bk_served :: "(nat \<times> request \<times> bool) list"

record queue =
  qs_now :: nat
  qs_gone :: "nat set"
  qs_asked :: "request list"
  qs_buckets :: "bucket list"

definition bucket_count :: "shard_queue \<Rightarrow> nat" where
  "bucket_count q = (case q of LocalQueue w \<Rightarrow> 1 | LargeBotQueue n w \<Rightarrow> unat n)"

text \<open>\<open>Duration::from_secs\<close>, in milliseconds.\<close>

definition wait_of :: "shard_queue \<Rightarrow> nat" where
  "wait_of q = 1000 * (case q of LocalQueue w \<Rightarrow> unat w | LargeBotQueue n w \<Rightarrow> unat w)"

definition bucket_of :: "shard_queue \<Rightarrow> u64 \<Rightarrow> nat res" where
  "bucket_of q shard =
     (case q of
        LocalQueue w \<Rightarrow> Ok 0
      | LargeBotQueue n w \<Rightarrow> bind_res (rem_u64 shard n) (\<lambda>b. Ok (unat b)))"

definition empty_bucket :: bucket where
  "empty_bucket = \<lparr>bk_pending = [], bk_pc = Receiving, bk_served = []\<rparr>"

definition new_queue :: "nat \<Rightarrow> queue" where
  "new_queue buckets =
     \<lparr>qs_now = 0, qs_gone = {}, qs_asked = [], qs_buckets = replicate buckets empty_bucket\<rparr>"

definition on_bucket :: "nat \<Rightarrow> (bucket \<Rightarrow> bucket) \<Rightarrow> queue \<Rightarrow> queue" where
  "on_bucket b f s = s\<lparr>qs_buckets := (qs_buckets s)[b := f (qs_buckets s ! b)]\<rparr>"

definition send_request :: "request \<Rightarrow> bucket \<Rightarrow> bucket" where
  "send_request r b = b\<lparr>bk_pending := bk_pending b @ [r]\<rparr>"

definition queue_request :: "(u64 \<Rightarrow> nat res) \<Rightarrow> u64 \<Rightarrow> queue \<Rightarrow> queue res" where
  "queue_request bucket shard s =
     bind_res (bucket shard) (\<lambda>b.
       let r = \<lparr>rq_ticket = length (qs_asked s), rq_shard = shard, rq_time = qs_now s\<rparr> in
       if b < length (qs_buckets s)
       then Ok ((on_bucket b (send_request r) s)\<lparr>qs_asked := qs_asked s @ [r]\<rparr>)
       else Panic ''index out of bounds'')"

definition waiter_recv :: "nat \<Rightarrow> nat \<Rightarrow> nat set \<Rightarrow> bucket \<Rightarrow> bucket" where
  "waiter_recv d time gone b =
     (case (bk_pc b, bk_pending b) of
        (Receiving, r # rest) \<Rightarrow>
          b\<lparr>bk_pending := rest, bk_pc := Sleeping (time + d),
            bk_served := bk_served b @ [(time, r, rq_ticket r \<notin> gone)]\<rparr>
      | _ \<Rightarrow> b)"

definition waiter_wake :: "nat \<Rightarrow> bucket \<Rightarrow> bucket" where
  "waiter_wake time b =
     (case bk_pc b of
        Sleeping u \<Rightarrow> if u \<le> time then b\<lparr>bk_pc := Receiving\<rparr> else b
      | Receiving \<Rightarrow> b)"

inductive queue_step :: "(u64 \<Rightarrow> nat res) \<Rightarrow> nat \<Rightarrow> queue \<Rightarrow> queue \<Rightarrow> bool" for bucket d where
  tick: "queue_step bucket d s (s\<lparr>qs_now := qs_now s + n\<rparr>)"
| ask: "queue_request bucket shard s = Ok s' \<Longrightarrow> queue_step bucket d s s'"
| give_up: "queue_step bucket d s (s\<lparr>qs_gone := insert t (qs_gone s)\<rparr>)"
| serve: "b < length (qs_buckets s) \<Longrightarrow>
    queue_step bucket d s (on_bucket b (waiter_recv d (qs_now s) (qs_gone s)) s)"
| wake: "b < length (qs_buckets s) \<Longrightarrow>
    queue_step bucket d s (on_bucket b (waiter_wake (qs_now s)) s)"

abbreviation queue_reaches :: "(u64 \<Rightarrow> nat res) \<Rightarrow> nat \<Rightarrow> queue \<Rightarrow> queue \<Rightarrow> bool" where
  "queue_reaches bucket d \<equiv> (queue_step bucket d)\<^sup>*\<^sup>*"

section \<open>When a waiter answers\<close>

text \<open>
  The earliest answers: to requests that arrive at the given times, by a waiter that is ready at
  \<open>ready\<close> and is never late.
\<close>

fun earliest :: "nat \<Rightarrow> nat \<Rightarrow> nat list \<Rightarrow> nat list" where
  "earliest d ready [] = []"
| "earliest d ready (a # as) = (let t = max a ready in t # earliest d (t + d) as)"

lemma length_earliest [simp]: "length (earliest d ready as) = length as"
  by (induction as arbitrary: ready) (auto simp: Let_def)

definition ready_after :: "nat \<Rightarrow> nat \<Rightarrow> nat list \<Rightarrow> nat" where
  "ready_after d ready as = (if as = [] then ready else last (earliest d ready as) + d)"

lemma earliest_snoc:
  "earliest d ready (as @ [a]) = earliest d ready as @ [max a (ready_after d ready as)]"
proof (induction as arbitrary: ready)
  case (Cons x xs)
  show ?case
    using Cons [of "max x ready + d"] by (cases xs) (auto simp: ready_after_def Let_def)
qed (simp add: ready_after_def)

lemma fold_max_ge:
  fixes x :: nat
  assumes "x \<in> insert y (set xs)"
  shows "x \<le> fold max xs y"
  using assms by (simp add: Max.set_eq_fold [symmetric])

text \<open>The closed form: each request waits for its arrival and for all before it.\<close>

lemma earliest_nth:
  "i < length as \<Longrightarrow> earliest d ready as ! i =
     fold max (map (\<lambda>j. as ! j + (i - j) * d) [0 ..< Suc i]) (ready + i * d)"
proof (induction as arbitrary: i ready)
  case (Cons a as)
  show ?case
  proof (cases i)
    case (Suc k)
    let ?t = "max a ready"
    have "[0 ..< Suc i] = 0 # map Suc [0 ..< Suc k]"
      by (simp add: Suc upt_conv_Cons map_Suc_upt del: upt_Suc)
    then have "map (\<lambda>j. (a # as) ! j + (i - j) * d) [0 ..< Suc i] =
        (a + i * d) # map (\<lambda>j. as ! j + (k - j) * d) [0 ..< Suc k]"
      by (simp add: Suc comp_def del: upt_Suc)
    moreover have "max (a + i * d) (ready + i * d) = (?t + d) + k * d"
      by (auto simp: Suc max_def)
    ultimately show ?thesis
      using Cons by (simp add: Suc Let_def del: upt_Suc)
  qed (simp add: Let_def)
qed simp

section \<open>The invariant\<close>

lemma list_all2_last:
  assumes "xs \<noteq> []" "list_all2 P (earliest d 0 (map f xs)) ys"
  shows "P (last (earliest d 0 (map f xs))) (last ys)"
proof -
  let ?es = "earliest d 0 (map f xs)"
  have len: "length ?es = length ys" "0 < length ys"
    using list_all2_lengthD [OF assms(2)] assms(1) by auto
  then have "P (?es ! (length ys - 1)) (ys ! (length ys - 1))"
    by (intro list_all2_nthD [OF assms(2)]) simp
  moreover have "?es \<noteq> []" "ys \<noteq> []"
    using len by (metis length_greater_0_conv)+
  ultimately show ?thesis
    using len by (simp add: last_conv_nth)
qed

definition served_times :: "bucket \<Rightarrow> nat list" where
  "served_times b = map fst (bk_served b)"

definition served_requests :: "bucket \<Rightarrow> request list" where
  "served_requests b = map (fst \<circ> snd) (bk_served b)"

definition asked_in :: "(u64 \<Rightarrow> nat res) \<Rightarrow> nat \<Rightarrow> request list \<Rightarrow> request list" where
  "asked_in bucket b rs = filter (\<lambda>r. bucket (rq_shard r) = Ok b) rs"

definition spaced :: "nat \<Rightarrow> nat list \<Rightarrow> bool" where
  "spaced d ts \<longleftrightarrow> sorted_wrt (\<lambda>s t. s + d \<le> t) ts"

definition waiter_ok :: "nat \<Rightarrow> nat \<Rightarrow> bucket \<Rightarrow> bool" where
  "waiter_ok d time b \<longleftrightarrow>
     (\<forall>t \<in> set (served_times b). t \<le> time \<and>
        (case bk_pc b of Receiving \<Rightarrow> t + d \<le> time | Sleeping u \<Rightarrow> t + d \<le> u)) \<and>
     (case bk_pc b of Receiving \<Rightarrow> True | Sleeping u \<Rightarrow> u \<le> time + d)"

definition bucket_ok :: "nat \<Rightarrow> nat \<Rightarrow> request list \<Rightarrow> bucket \<Rightarrow> bool" where
  "bucket_ok d time asked b \<longleftrightarrow>
     served_requests b @ bk_pending b = asked \<and> (\<forall>r \<in> set asked. rq_time r \<le> time) \<and>
     spaced d (served_times b) \<and> waiter_ok d time b \<and>
     list_all2 (\<le>) (earliest d 0 (map rq_time (served_requests b))) (served_times b)"

definition queue_inv :: "(u64 \<Rightarrow> nat res) \<Rightarrow> nat \<Rightarrow> nat \<Rightarrow> queue \<Rightarrow> bool" where
  "queue_inv bucket buckets d s \<longleftrightarrow>
     length (qs_buckets s) = buckets \<and>
     (\<forall>b < buckets. bucket_ok d (qs_now s) (asked_in bucket b (qs_asked s)) (qs_buckets s ! b))"

lemma bucket_ok_empty: "bucket_ok d time [] empty_bucket"
  by (simp add: bucket_ok_def empty_bucket_def served_requests_def served_times_def spaced_def
      waiter_ok_def)

lemma bucket_ok_later:
  assumes "bucket_ok d time asked b" "time \<le> later"
  shows "bucket_ok d later asked b"
proof -
  have "waiter_ok d later b"
    using assms by (auto simp: bucket_ok_def waiter_ok_def split: waiter_pc.splits intro: order.trans)
  with assms show ?thesis
    by (auto simp: bucket_ok_def intro: order.trans)
qed

lemma bucket_ok_send:
  assumes "bucket_ok d time asked b" "rq_time r \<le> time"
  shows "bucket_ok d time (asked @ [r]) (send_request r b)"
  using assms
  by (auto simp: bucket_ok_def send_request_def served_requests_def served_times_def waiter_ok_def)

lemma bucket_ok_wake: "bucket_ok d time asked b \<Longrightarrow> bucket_ok d time asked (waiter_wake time b)"
  by (auto simp: bucket_ok_def waiter_wake_def served_requests_def served_times_def waiter_ok_def
      split: waiter_pc.splits)

lemma bucket_ok_recv:
  assumes ok: "bucket_ok d time asked b"
  shows "bucket_ok d time asked (waiter_recv d time gone b)"
proof (cases "bk_pc b = Receiving \<and> bk_pending b \<noteq> []")
  case True
  then obtain r rest where r: "bk_pc b = Receiving" "bk_pending b = r # rest"
    by (cases "bk_pending b") auto
  let ?b = "waiter_recv d time gone b" and ?ts = "served_times b" and ?rs = "served_requests b"
  have b: "served_times ?b = ?ts @ [time]" "served_requests ?b = ?rs @ [r]" "bk_pending ?b = rest"
    "bk_pc ?b = Sleeping (time + d)"
    by (simp_all add: waiter_recv_def r served_times_def served_requests_def)
  have past: "t + d \<le> time" if "t \<in> set ?ts" for t
    using ok that by (auto simp: bucket_ok_def waiter_ok_def r)
  have "ready_after d 0 (map rq_time ?rs) \<le> time"
  proof (cases "?ts = []")
    case False
    then have ne: "?rs \<noteq> []"
      by (auto simp: served_times_def served_requests_def)
    have "list_all2 (\<le>) (earliest d 0 (map rq_time ?rs)) ?ts"
      using ok by (simp add: bucket_ok_def)
    with ne have "last (earliest d 0 (map rq_time ?rs)) \<le> last ?ts"
      by (rule list_all2_last)
    then show ?thesis
      using past [OF last_in_set [OF False]] ne by (simp add: ready_after_def)
  qed (simp add: ready_after_def served_times_def served_requests_def)
  moreover have "rq_time r \<le> time"
    using ok by (auto simp: bucket_ok_def r)
  ultimately have "list_all2 (\<le>) (earliest d 0 (map rq_time (?rs @ [r]))) (?ts @ [time])"
    using ok by (simp add: bucket_ok_def earliest_snoc list_all2_appendI)
  moreover have "spaced d (?ts @ [time])"
    using ok past by (simp add: bucket_ok_def spaced_def sorted_wrt_append)
  moreover have "waiter_ok d time ?b"
    using past by (auto simp: waiter_ok_def b intro: order.trans trans_le_add1 dest: add_leD1)
  ultimately show ?thesis
    using ok by (simp add: bucket_ok_def b r)
next
  case False
  then have "waiter_recv d time gone b = b"
    by (auto simp: waiter_recv_def split: waiter_pc.splits list.splits)
  with ok show ?thesis
    by simp
qed

lemma queue_inv_gone: "queue_inv bucket buckets d s \<Longrightarrow> queue_inv bucket buckets d (s\<lparr>qs_gone := g\<rparr>)"
  by (simp add: queue_inv_def)

lemma queue_inv_bucket:
  assumes "queue_inv bucket buckets d s"
    and "\<And>asked. bucket_ok d (qs_now s) asked (qs_buckets s ! b) \<Longrightarrow>
      bucket_ok d (qs_now s) asked (f (qs_buckets s ! b))"
  shows "queue_inv bucket buckets d (on_bucket b f s)"
proof -
  have "bucket_ok d (qs_now s) (asked_in bucket j (qs_asked s)) (qs_buckets (on_bucket b f s) ! j)"
    if "j < buckets" for j
    using assms that by (cases "j = b") (auto simp: queue_inv_def on_bucket_def)
  then show ?thesis
    using assms(1) by (simp add: queue_inv_def on_bucket_def)
qed

section \<open>The interface\<close>

text \<open>
  What the waiters rely on: a request is sent to a bucket that exists. Everything about the
  order and the times of the answers follows.
\<close>

locale request_queue =
  fixes bucket :: "u64 \<Rightarrow> nat res" and buckets :: nat and d :: nat
  assumes in_range: "bucket shard = Ok b \<Longrightarrow> b < buckets"
begin

lemma inv_new: "queue_inv bucket buckets d (new_queue buckets)"
  by (simp add: queue_inv_def new_queue_def asked_in_def bucket_ok_empty)

lemma inv_request:
  assumes "queue_inv bucket buckets d s" "queue_request bucket shard s = Ok s'"
  shows "queue_inv bucket buckets d s'"
proof -
  let ?r = "\<lparr>rq_ticket = length (qs_asked s), rq_shard = shard, rq_time = qs_now s\<rparr>"
  obtain b where b: "bucket shard = Ok b" "b < buckets"
    and s': "s' = (on_bucket b (send_request ?r) s)\<lparr>qs_asked := qs_asked s @ [?r]\<rparr>"
    using assms in_range
    by (cases "bucket shard") (auto simp: queue_request_def Let_def split: if_splits)
  then show ?thesis
    using assms(1)
    by (auto simp: queue_inv_def on_bucket_def nth_list_update asked_in_def bucket_ok_send)
qed

lemma inv_step: "queue_step bucket d s s' \<Longrightarrow> queue_inv bucket buckets d s \<Longrightarrow> queue_inv bucket buckets d s'"
proof (induction rule: queue_step.induct)
  case (tick s n)
  then show ?case
    by (auto simp: queue_inv_def intro: bucket_ok_later)
qed (auto intro: inv_request queue_inv_bucket bucket_ok_recv bucket_ok_wake queue_inv_gone)

lemma inv_reaches:
  "queue_reaches bucket d (new_queue buckets) s \<Longrightarrow> queue_inv bucket buckets d s"
  by (induction rule: rtranclp_induct) (auto intro: inv_new inv_step)

lemma reached_bucket:
  assumes "queue_reaches bucket d (new_queue buckets) s" "b < buckets"
  shows "bucket_ok d (qs_now s) (asked_in bucket b (qs_asked s)) (qs_buckets s ! b)"
  using inv_reaches [OF assms(1)] assms(2) by (simp add: queue_inv_def)

end

text \<open>The contract of the bucket choice: a request goes to a bucket of the queue.\<close>

lemma bucket_in_range: "bucket_of q shard = Ok b \<Longrightarrow> b < bucket_count q"
  by (cases q)
    (auto simp: bucket_of_def bucket_count_def rem_u64_def unat_mod unat_gt_0 split: if_splits)

interpretation shard_queues: request_queue "bucket_of q" "bucket_count q" "wait_of q" for q
  by unfold_locales (rule bucket_in_range)

definition queue_reached :: "shard_queue \<Rightarrow> queue \<Rightarrow> bool" where
  "queue_reached q s \<longleftrightarrow> queue_reaches (bucket_of q) (wait_of q) (new_queue (bucket_count q)) s"

lemmas reached_bucket = shard_queues.reached_bucket [folded queue_reached_def]

lemma reached_length: "queue_reached q s \<Longrightarrow> length (qs_buckets s) = bucket_count q"
  unfolding queue_reached_def by (drule shard_queues.inv_reaches) (simp add: queue_inv_def)

section \<open>What the queues promise\<close>

text \<open>
  C17: each bucket answers the requests of its shards in the order in which they were sent: at
  any time the answered requests, followed by those in the channel, are all that were sent.
\<close>

theorem queue_fifo:
  assumes "queue_reached q s" "b < bucket_count q"
  shows "served_requests (qs_buckets s ! b) @ bk_pending (qs_buckets s ! b) =
    filter (\<lambda>r. bucket_of q (rq_shard r) = Ok b) (qs_asked s)"
  using reached_bucket [OF assms] by (simp add: bucket_ok_def asked_in_def)

lemma spaced_window:
  assumes "spaced d ts"
  shows "length (filter (\<lambda>t. from \<le> t \<and> t < from + d) ts) \<le> 1"
  using assms
proof (induction ts)
  case (Cons t ts)
  have "filter (\<lambda>u. from \<le> u \<and> u < from + d) ts = []" if "from \<le> t"
    using Cons.prems that by (auto simp: spaced_def filter_empty_conv)
  with Cons show ?case
    by (auto simp: spaced_def)
qed simp

lemma reached_spaced:
  assumes "queue_reached q s" "b \<in> set (qs_buckets s)"
  shows "spaced (wait_of q) (served_times b)"
proof -
  obtain i where "i < bucket_count q" "b = qs_buckets s ! i"
    using assms(2) reached_length [OF assms(1)] unfolding in_set_conv_nth by metis
  then show ?thesis
    using reached_bucket [OF assms(1)] by (simp add: bucket_ok_def)
qed

text \<open>
  C16: in any window that is as long as the configured wait, a queue answers at most as many
  requests as it has buckets: one for \<open>LocalQueue\<close>, \<open>shards_concurrency\<close> for
  \<open>LargeBotQueue\<close>.
\<close>

theorem queue_rate:
  assumes "queue_reached q s"
  shows "length (filter (\<lambda>t. from \<le> t \<and> t < from + wait_of q)
    (concat (map served_times (qs_buckets s)))) \<le> bucket_count q"
proof -
  have "sum_list (map (\<lambda>b. length (filter (\<lambda>t. from \<le> t \<and> t < from + wait_of q) (served_times b)))
      (qs_buckets s)) \<le> sum_list (map (\<lambda>b. 1) (qs_buckets s))"
    by (intro sum_list_mono spaced_window reached_spaced [OF assms])
  then show ?thesis
    by (simp add: filter_concat length_concat comp_def sum_list_triv reached_length [OF assms])
qed

text \<open>
  No request is answered earlier than by a waiter that is never late: the \<open>i\<close>-th
  request of a bucket, sent at time \<open>a i\<close>, waits for \<open>a j + (i - j) * wait\<close> for
  every \<open>j\<close> up to \<open>i\<close>.
\<close>

lemma queue_earliest:
  assumes "queue_reached q s" "b < bucket_count q" "j \<le> i" "i < length (bk_served (qs_buckets s ! b))"
  shows "rq_time (served_requests (qs_buckets s ! b) ! j) + (i - j) * wait_of q \<le>
    served_times (qs_buckets s ! b) ! i"
proof -
  let ?b = "qs_buckets s ! b" and ?d = "wait_of q"
  let ?as = "map rq_time (served_requests ?b)"
  have len: "i < length ?as" "j < length (served_requests ?b)"
    using assms(3,4) by (simp_all add: served_requests_def)
  have "list_all2 (\<le>) (earliest ?d 0 ?as) (served_times ?b)"
    using reached_bucket [OF assms(1,2)] by (simp add: bucket_ok_def)
  then have "earliest ?d 0 ?as ! i \<le> served_times ?b ! i"
    using len(1) by (auto dest: list_all2_nthD)
  moreover have "?as ! j + (i - j) * ?d \<le> earliest ?d 0 ?as ! i"
    unfolding earliest_nth [OF len(1)] using assms(3) by (intro fold_max_ge insertI2) (simp del: upt_Suc)
  ultimately show ?thesis
    using len(2) by simp
qed

text \<open>
  C18: the queue does not get stuck: whatever happened before, the first request in the channel
  of a bucket can be answered by the steps of its waiter alone, within the configured wait.
\<close>

theorem queue_progress:
  assumes "queue_reached q s" "b < bucket_count q" "bk_pending (qs_buckets s ! b) = r # rest"
  shows "\<exists>s'. queue_reaches (bucket_of q) (wait_of q) s s' \<and> qs_now s' \<le> qs_now s + wait_of q \<and>
    qs_asked s' = qs_asked s \<and>
    bk_served (qs_buckets s' ! b) =
      bk_served (qs_buckets s ! b) @ [(qs_now s', r, rq_ticket r \<notin> qs_gone s)]"
proof -
  let ?R = "queue_step (bucket_of q) (wait_of q)" and ?b = "qs_buckets s ! b"
  let ?n = "case bk_pc ?b of Receiving \<Rightarrow> 0 | Sleeping u \<Rightarrow> u - qs_now s"
  define s1 where "s1 = s\<lparr>qs_now := qs_now s + ?n\<rparr>"
  define s2 where "s2 = on_bucket b (waiter_wake (qs_now s1)) s1"
  define s3 where "s3 = on_bucket b (waiter_recv (wait_of q) (qs_now s2) (qs_gone s2)) s2"
  have len: "b < length (qs_buckets s)"
    using assms by (simp add: reached_length)
  have "?n \<le> wait_of q"
    using reached_bucket [OF assms(1,2)]
    by (auto simp: bucket_ok_def waiter_ok_def split: waiter_pc.splits)
  then have "qs_now s3 \<le> qs_now s + wait_of q"
    by (simp add: s3_def s2_def s1_def on_bucket_def)
  moreover have "?R s s1"
    unfolding s1_def by (rule queue_step.tick)
  moreover have "?R s1 s2"
    unfolding s2_def using len by (intro queue_step.wake) (simp add: s1_def)
  moreover have "?R s2 s3"
    unfolding s3_def using len by (intro queue_step.serve) (simp add: s2_def s1_def on_bucket_def)
  moreover have "qs_asked s3 = qs_asked s"
    by (simp add: s3_def s2_def s1_def on_bucket_def)
  moreover have "bk_served (qs_buckets s3 ! b) = bk_served ?b @ [(qs_now s3, r, rq_ticket r \<notin> qs_gone s)]"
    using len assms(3)
    by (cases "bk_pc ?b")
      (simp_all add: s3_def s2_def s1_def on_bucket_def waiter_recv_def waiter_wake_def)
  ultimately show ?thesis
    by (meson converse_rtranclp_into_rtranclp r_into_rtranclp)
qed

text \<open>
  With \<open>shards_concurrency\<close> 0 the queue has no bucket and every request of a shard
  panics; with any other value every request is accepted.
\<close>

lemma queue_accepts:
  "(\<exists>s'. queue_request (bucket_of (choose_queue C)) shard (new_queue (bucket_count (choose_queue C))) = Ok s')
    \<longleftrightarrow> shards_concurrency C \<noteq> 0"
  by (simp add: queue_request_def choose_queue_def bucket_of_def bucket_count_def rem_u64_def
      new_queue_def unat_mod unat_gt_0 Let_def)

end
