(* ===== verification/Dispatch.thy ===== *)
theory Dispatch
  imports Handler Queue GuildLife
begin

text \<open>
  What the event handlers guarantee: what is published of an event, how guilds are counted as
  joined and left, that deliveries are acknowledged and reach the cluster of their shard, and what
  the broker makes of the publications.
\<close>

section \<open>One schedule\<close>

text \<open>
  The schedule in which the task of each event ends before the next event is taken. The program
  does not enforce it: every event gets a task of its own, and all schedules are those of the
  theory \<open>Service\<close>.
\<close>

definition one_event ::
  "config \<Rightarrow> runtime \<Rightarrow> outside \<Rightarrow> u64 \<Rightarrow> u64 \<Rightarrow> event \<Rightarrow> effect list task" where
  "one_event C R E bot_id shard event =
     and_then (update_at_once C R E bot_id shard event) (\<lambda>first.
       and_then (spawned_task E (handle_event C R E bot_id shard event)) (\<lambda>rest. ok (first @ rest)))"

fun one_by_one ::
  "config \<Rightarrow> runtime \<Rightarrow> outside \<Rightarrow> u64 \<Rightarrow> (u64 \<times> event) list \<Rightarrow> effect list task" where
  "one_by_one C R E bot_id [] = ok []"
| "one_by_one C R E bot_id ((shard, event) # events) =
     and_then (one_event C R E bot_id shard event) (\<lambda>first.
       and_then (one_by_one C R E bot_id events) (\<lambda>rest. ok (first @ rest)))"

section \<open>Reading the effects\<close>

fun publications :: "effect list \<Rightarrow> (string \<times> string \<times> string) list" where
  "publications [] = []"
| "publications (Publish x k body # es) = (x, k, body) # publications es"
| "publications (_ # es) = publications es"

fun acks :: "effect list \<Rightarrow> u64 list" where
  "acks [] = []"
| "acks (Ack tag # es) = tag # acks es"
| "acks (_ # es) = acks es"

fun commands :: "effect list \<Rightarrow> (nat \<times> u64 \<times> string) list" where
  "commands [] = []"
| "commands (Command i shard body # es) = (i, shard, body) # commands es"
| "commands (_ # es) = commands es"

definition counted :: "string \<Rightarrow> string list \<Rightarrow> effect list \<Rightarrow> nat" where
  "counted name labels es = count_list es (Count name labels)"

definition crashed :: "effect list \<Rightarrow> bool" where
  "crashed es \<longleftrightarrow> (\<exists>m. Aborted m \<in> set es)"

lemma crashed_simps [simp]:
  "\<not> crashed []" "crashed (e # es) \<longleftrightarrow> (\<exists>m. e = Aborted m) \<or> crashed es"
  "crashed (xs @ ys) \<longleftrightarrow> crashed xs \<or> crashed ys"
  by (auto simp: crashed_def)

lemma publications_app [simp]: "publications (xs @ ys) = publications xs @ publications ys"
  by (induction xs rule: publications.induct) auto

lemma acks_app [simp]: "acks (xs @ ys) = acks xs @ acks ys"
  by (induction xs rule: acks.induct) auto

lemma counted_simps [simp]:
  "counted c ls [] = 0"
  "counted c ls (e # es) = (if e = Count c ls then Suc (counted c ls es) else counted c ls es)"
  "counted c ls (xs @ ys) = counted c ls xs + counted c ls ys"
  by (simp_all add: counted_def count_list_append)

lemma post_embed_quiet [simp]:
  "publications (post_embed E chan e) = []" "acks (post_embed E chan e) = []"
  "commands (post_embed E chan e) = []" "counted c ls (post_embed E chan e) = 0"
  "\<not> crashed (post_embed E chan e)"
  by (auto simp: post_embed_def split: option.split)

lemma log_discord_quiet [simp]:
  "publications (log_discord C E color m) = []" "counted c ls (log_discord C E color m) = 0"
  "\<not> crashed (log_discord C E color m)"
  by (simp_all add: log_discord_def)

lemma log_discord_guild_quiet [simp]:
  "publications (log_discord_guild C E color t m) = []"
  "counted c ls (log_discord_guild C E color t m) = 0"
  "\<not> crashed (log_discord_guild C E color t m)"
  by (simp_all add: log_discord_guild_def)

lemma abort_of_crashed: "abort_of es = None \<longleftrightarrow> \<not> crashed es"
  by (induction es rule: abort_of.induct) auto

lemma task_result_Ok: "task_result E r = Ok es \<Longrightarrow> r = Ok es \<or> (\<exists>m. r = Panic m \<and> es = [Aborted m])"
  by (cases "(E, r)" rule: task_result.cases) (auto split: option.splits if_splits)

lemma task_result_calm [simp]: "\<not> crashed es \<Longrightarrow> task_result E (Ok es) = Ok es"
  by (simp add: abort_of_crashed [THEN iffD2])

lemma run_spawned_task:
  "run S (spawned_task E t) w = (case run S t w of (r, w') \<Rightarrow> (task_result E r, w'))"
  by (induction t arbitrary: w) (auto split: prod.splits)

lemma achieves_spawned_task:
  assumes "achieves True t P ks" "\<And>es ks. P es ks \<Longrightarrow> \<not> crashed es"
  shows "achieves True (spawned_task E t) P ks"
proof -
  have "wp_in T True t (\<lambda>r ks'. case r of Ok a \<Rightarrow> P a ks' | Err _ \<Rightarrow> \<not> True | Panic _ \<Rightarrow> \<not> True) ks \<Longrightarrow>
      wp_in T True (spawned_task E t) (\<lambda>r ks'. case r of Ok a \<Rightarrow> P a ks' | Err _ \<Rightarrow> \<not> True | Panic _ \<Rightarrow> \<not> True) ks" for T
    using assms(2) by (induction t arbitrary: ks) (auto split: res.splits simp del: task_result.simps(1))
  with assms(1) show ?thesis
    unfolding achieves_in_def by blast
qed

section \<open>Publications\<close>

text \<open>The specification: a payload with an event name is published under it, without \<open>old\<close>.\<close>

fun published :: "runtime \<Rightarrow> event \<Rightarrow> (string \<times> string \<times> string) list" where
  "published R (ShardPayload bytes) =
     (case de_payload R bytes of
        Inl _ \<Rightarrow> []
      | Inr p \<Rightarrow>
          (case (pi_t p, ser_payload R (p\<lparr>pi_old := None\<rparr>)) of
             (Some kind, Inr body) \<Rightarrow> [(EXCHANGE, kind, body)]
           | _ \<Rightarrow> []))"
| "published R _ = []"

text \<open>An event without an old state is handled without a panic.\<close>

lemma react_calm: "\<not> crashed (react C R E shard None ev)"
  by (cases ev) (auto simp: react_guild_create_def react_resumed_def react_disconnected_def
      react_guild_delete_def react_payload_def split: option.split sum.split)

lemma react_published:
  assumes "is_payload ev \<Longrightarrow> old = None"
  shows "publications (react C R E shard old ev) = published R ev"
  using assms
  by (cases ev)
    (auto simp: react_resumed_def react_disconnected_def react_guild_create_def
      react_guild_delete_def react_payload_def
      split: if_splits json.splits option.splits sum.splits)

section \<open>The cache over an event\<close>

lemma achieves_conj:
  assumes "achieves_in T up t P ks" "achieves_in T up t Q ks"
  shows "achieves_in T up t (\<lambda>a ks. P a ks \<and> Q a ks) ks"
proof -
  have "wp_in T up t P' ks \<Longrightarrow> wp_in T up t Q' ks \<Longrightarrow> wp_in T up t (\<lambda>r ks. P' r ks \<and> Q' r ks) ks" for P' Q'
    by (induction t arbitrary: ks) auto
  from this [OF assms [unfolded achieves_in_def]] show ?thesis
    unfolding achieves_in_def by (rule wp_mono) (simp split: res.splits)
qed

text \<open>A guild serialises as a JSON object: what \<open>as_object().unwrap()\<close> relies on.\<close>

definition guild_objects :: "runtime \<Rightarrow> bool" where
  "guild_objects R \<longleftrightarrow> (\<forall>k s v. kind_of k = GUILD_KEY \<longrightarrow> doc_of R k s \<longrightarrow> de_value R s = Inr v \<longrightarrow>
     (\<exists>obj. v = JObject obj))"

lemma cached_guild_object:
  assumes "guild_objects R" "docs R ks" "cached_value R ks (guild_key g) = Some v"
  obtains obj where "v = JObject obj"
proof -
  obtain s where "ks (guild_key g) = Some (RStr s)" "de_value R s = Inr v"
    using assms(3) by (auto simp: cached_value_def split: option.splits sum.splits)
  then show ?thesis
    using that assms(1,2) docsD [of R ks "guild_key g" s] unfolding guild_objects_def
    by (metis cached_keys(1) kind_of_keys(1) kind_in_kinds(1))
qed

lemma achieves_ready:
  assumes R: "runtime_ok C R" and inv: "cache_inv ks"
  shows "achieves True (on_ready R u gs) (\<lambda>_ ks'. \<forall>g \<in> set gs. ks' (guild_key (ug_id g)) \<noteq> None) ks"
proof -
  have ho: "visits_once (hash_order R)" and "parses R (ser_user R)" "parses R (ser_unavailable R)"
    using R by (simp_all add: runtime_ok_def serde_parses)
  then have ser: "\<exists>s. ser_user R u = Inr s" "\<exists>s. ser_unavailable R g = Inr s" for g
    using parsesD(1) by metis+
  let ?kvs = "map (\<lambda>g. (guild_key (ug_id g), g)) gs"
  have stored: "put_all skvs ks' (guild_key (ug_id g)) \<noteq> None"
    if skvs: "serialised (ser_unavailable R) ?kvs skvs" and "g \<in> set gs" for skvs ks' g
  proof -
    have "last_item ?kvs (guild_key (ug_id g)) \<noteq> None"
      using that(2) last_item_None [of ?kvs "guild_key (ug_id g)"] by force
    moreover have "\<forall>k \<in> set (map fst skvs). object_key k"
      by (auto simp: serialised_keys [OF skvs])
    ultimately show ?thesis
      using last_item_serialised(2) [OF skvs, of "guild_key (ug_id g)"]
      by (auto simp: put_all_object split: option.split)
  qed
  obtain s where s: "ser_user R u = Inr s"
    using ser(1) by blast
  show ?thesis
    unfolding on_ready_def achieves_and_then achieves_Ok
  proof (rule achieves_cache_set [where ser = "ser_user R" and x = u,
        OF ho bot_user_plain(2) cache_inv_parts(1) [OF inv] s])
    show "achieves True (set_all R (ser_unavailable R) ?kvs)
        (\<lambda>_ ks'. \<forall>g \<in> set gs. ks' (guild_key (ug_id g)) \<noteq> None) (put_one BOT_USER_KEY s ks)"
      using cache_inv_put_one [OF bot_user_plain(2) inv, of s] ser(2) stored
      by (intro achieves_set_all [OF ho]) (auto intro: cache_inv_parts)
  qed
qed

lemma achieves_update:
  assumes "runtime_ok C R" "cache_inv ks" "docs R ks"
  shows "achieves True (update C R b ev) (\<lambda>old ks'. (cache_inv ks' \<and> docs R ks') \<and>
    (\<forall>g u. ev = GuildDelete g u \<longrightarrow> old = cached_value R ks (guild_key g) \<and> ks' (guild_key g) = None) \<and>
    (\<forall>d. ev = GuildCreate d \<longrightarrow> old = cached_value R ks (guild_key (gd_id d))) \<and>
    (\<forall>u gs sess. ev = Ready u gs sess \<longrightarrow> (\<forall>g \<in> set gs. ks' (guild_key (ug_id g)) \<noteq> None))) ks"
    (is "achieves True ?t (\<lambda>old ks'. ?inv ks' \<and> ?del old ks' \<and> ?new old \<and> ?ready ks') ks")
proof (rule achieves_conj [OF _ achieves_conj [OF _ achieves_conj]])
  show "achieves True ?t (\<lambda>_. ?inv) ks"
    using assms by (intro documents.update_keeps) (auto simp: admissible_def runtime_ok_def)
  then have any: "achieves True ?t (\<lambda>_ _. True) ks"
    by (rule achieves_mono) simp
  show "achieves True ?t ?del ks"
  proof (cases "\<exists>g u. ev = GuildDelete g u")
    case True
    then show ?thesis
      using assms by (auto simp: on_guild_delete_def cleared_object intro!: achieves_clear_guild)
  qed (auto intro: achieves_mono [OF any])
  show "achieves True ?t (\<lambda>old _. ?new old) ks"
  proof (cases "\<exists>d. ev = GuildCreate d")
    case True
    then show ?thesis
      using assms by (auto intro!: achieves_guild_create)
  qed (auto intro: achieves_mono [OF any])
  show "achieves True ?t (\<lambda>_. ?ready) ks"
  proof (cases "\<exists>u gs sess. ev = Ready u gs sess")
    case True
    then show ?thesis
      using achieves_ready [OF assms(1,2)] by auto
  qed (auto intro: achieves_mono [OF any])
qed

lemma and_then_ok [simp]: "and_then (ok a) f = f a"
  by (simp add: and_then_def)

lemma and_then_ok_right: "and_then t (\<lambda>a. ok a) = t"
  unfolding and_then_def by (induction t) (auto split: res.splits simp: fun_eq_iff)

fun joins :: "json option \<Rightarrow> event \<Rightarrow> nat" where
  "joins old (GuildCreate d) = (if old = None then 1 else 0)"
| "joins old _ = 0"

fun leaves :: "event \<Rightarrow> nat" where
  "leaves (GuildDelete g unavailable) = (if unavailable then 0 else 1)"
| "leaves _ = 0"

text \<open>The old state with which a \<open>GuildCreate\<close> is handled.\<close>

fun known_as :: "config \<Rightarrow> runtime \<Rightarrow> keyspace \<Rightarrow> event \<Rightarrow> json option" where
  "known_as C R ks (GuildCreate d) =
     (if state_enabled C then cached_value R ks (guild_key (gd_id d)) else None)"
| "known_as C R ks _ = None"

lemma achieves_react:
  assumes R: "guild_objects R" "docs R ks"
    and old: "\<And>g u v. ev = GuildDelete g u \<Longrightarrow> old = Some v \<Longrightarrow> cached_value R ks (guild_key g) = Some v"
  shows "\<not> crashed (react C R E shard old ev) \<and>
    counted GUILD_EVENTS [''Leave''] (react C R E shard old ev) = leaves ev \<and>
    counted GUILD_EVENTS [''Join''] (react C R E shard old ev) = joins old ev"
proof (cases ev)
  case (GuildDelete g u)
  have "\<exists>obj. v = JObject obj" if "old = Some v" for v
    using old [OF GuildDelete that] cached_guild_object [OF R] by metis
  then show ?thesis
    using GuildDelete by (cases old) (auto simp: react_guild_delete_def)
qed (auto simp: react_guild_create_def react_resumed_def react_disconnected_def react_payload_def
    GUILD_EVENTS_def GATEWAY_EVENTS_def SHARD_EVENTS_def split: option.split sum.split)

lemma dispatch_plain:
  assumes "\<not> (state_enabled C \<and> \<not> is_payload ev)"
  shows "one_event C R E b shard ev = ok (react C R E shard None ev)"
  using assms react_calm [of C R E shard ev]
  by (cases ev) (auto simp: one_event_def update_at_once_def handle_event_def and_then_def
      simp del: task_result.simps(1))

definition dispatched ::
  "config \<Rightarrow> runtime \<Rightarrow> keyspace \<Rightarrow> event \<Rightarrow> effect list \<Rightarrow> keyspace \<Rightarrow> bool" where
  "dispatched C R ks ev es ks' \<longleftrightarrow> cache_inv ks' \<and> docs R ks' \<and> \<not> crashed es \<and>
     counted GUILD_EVENTS [''Leave''] es = leaves ev \<and>
     counted GUILD_EVENTS [''Join''] es = joins (known_as C R ks ev) ev \<and>
     (state_enabled C \<longrightarrow>
        (\<forall>g u. ev = GuildDelete g u \<longrightarrow> ks' (guild_key g) = None) \<and>
        (\<forall>u gs sess. ev = Ready u gs sess \<longrightarrow> (\<forall>g \<in> set gs. ks' (guild_key (ug_id g)) \<noteq> None)))"

lemma achieves_dispatch:
  assumes R: "runtime_ok C R" "guild_objects R" and inv: "cache_inv ks" "docs R ks"
  shows "achieves True (one_event C R E b shard ev) (dispatched C R ks ev) ks"
proof (cases "state_enabled C \<and> \<not> is_payload ev")
  case True
  note upd = achieves_update [OF R(1) inv, of b ev]
  have finish: "dispatched C R ks ev (react C R E shard old ev) ks'"
    if h: "(cache_inv ks' \<and> docs R ks') \<and>
      (\<forall>g u. ev = GuildDelete g u \<longrightarrow> old = cached_value R ks (guild_key g) \<and> ks' (guild_key g) = None) \<and>
      (\<forall>d. ev = GuildCreate d \<longrightarrow> old = cached_value R ks (guild_key (gd_id d))) \<and>
      (\<forall>u gs sess. ev = Ready u gs sess \<longrightarrow> (\<forall>g \<in> set gs. ks' (guild_key (ug_id g)) \<noteq> None))" for old ks'
  proof -
    note react = achieves_react [OF R(2) inv(2), of ev old C E shard]
    have "joins old ev = joins (known_as C R ks ev) ev"
      using h True by (cases ev) simp_all
    then show ?thesis
      using h react by (auto simp: dispatched_def)
  qed
  show ?thesis
  proof (cases "is_ready ev")
    case True
    then obtain u gs session where Ready: "ev = Ready u gs session"
      by (cases ev) auto
    then have eq: "one_event C R E b shard ev = and_then (then_result (update C R b ev) (\<lambda>r.
        case r of Inl err \<Rightarrow> ok [update_failed shard err] | Inr _ \<Rightarrow> ok []))
        (\<lambda>first. ok (first @ react C R E shard None ev))"
      using \<open>state_enabled C \<and> \<not> is_payload ev\<close>
      using react_calm [of C R E shard ev]
      by (simp add: one_event_def update_at_once_def handle_event_def and_then_def del: task_result.simps(1))
    have finish: "dispatched C R ks ev (react C R E shard None ev) ks'"
      if "cache_inv ks' \<and> docs R ks' \<and> (\<forall>g \<in> set gs. ks' (guild_key (ug_id g)) \<noteq> None)" for ks'
      using that unfolding Ready by (auto simp: dispatched_def GUILD_EVENTS_def SHARD_EVENTS_def)
    show ?thesis
      unfolding eq achieves_and_then
      by (rule achieves_then_up [OF achieves_mono [OF upd]])
        (simp only: sum.case achieves_Ok append_Nil, rule finish, simp add: Ready, rule TrueI)
  next
    case False
    have "one_event C R E b shard ev = spawned_task E (and_then (then_result (update C R b ev) (\<lambda>r.
        case r of Inr value \<Rightarrow> ok (value, []) | Inl err \<Rightarrow> ok (None, [update_failed shard err])))
        (\<lambda>(old, failed). ok (failed @ react C R E shard old ev)))"
      using False True by (simp add: one_event_def update_at_once_def handle_event_def and_then_ok_right)
    note eq = this
    show ?thesis
      unfolding eq
    proof (rule achieves_spawned_task)
      show "achieves True (and_then (then_result (update C R b ev) (\<lambda>r.
          case r of Inr value \<Rightarrow> ok (value, []) | Inl err \<Rightarrow> ok (None, [update_failed shard err])))
        (\<lambda>(old, failed). ok (failed @ react C R E shard old ev))) (dispatched C R ks ev) ks"
        by (unfold achieves_and_then, rule achieves_then_up [OF achieves_mono [OF upd]], drule finish)
          (simp_all only: sum.case prod.case achieves_Ok achieves_and_then append_Nil)
    qed (simp add: dispatched_def)
  qed
next
  case False
  note react = achieves_react [OF R(2) inv(2), of ev None C E shard, simplified]
  have "joins None ev = joins (known_as C R ks ev) ev"
    using False by (cases ev) simp_all
  moreover have "state_enabled C \<Longrightarrow> is_payload ev"
    using False by blast
  ultimately show ?thesis
    unfolding dispatch_plain [OF False] using inv react by (cases ev) (auto simp: achieves_Ok dispatched_def)
qed

section \<open>Joins and leaves\<close>

text \<open>
  A \<open>GuildCreate\<close> counts as a join exactly when the guild is not in the cache; without the
  state cache every one does.
\<close>

lemma guild_join_counted:
  assumes "redis_contract True S view" "runtime_ok C R" "guild_objects R"
    and "cache_inv (view w)" "docs R (view w)"
  shows "\<exists>es w'. run S (one_event C R E b shard (GuildCreate d)) w = (Ok es, w') \<and>
    counted GUILD_EVENTS [''Join''] es =
      (if state_enabled C \<and> cached_value R (view w) (guild_key (gd_id d)) \<noteq> None then 0 else 1)"
  using achieves_dispatch [OF assms(2-5)] by (rule run_up [OF assms(1)]) (auto simp: dispatched_def)



text \<open>
  C37: a guild that becomes unavailable is removed from the cache, so when the outage ends its
  \<open>GuildCreate\<close> is counted as a join, though the bot never left.
\<close>

theorem outage_counts_join:
  assumes "redis_contract True S view" "runtime_ok C R" "guild_objects R"
    and "cache_inv (view w)" "docs R (view w)"
  shows "\<exists>es w'. run S (one_by_one C R E b [(shard, GuildDelete (gd_id d) True), (shard, GuildCreate d)]) w =
      (Ok es, w') \<and>
    counted GUILD_EVENTS [''Leave''] es = 0 \<and> counted GUILD_EVENTS [''Join''] es = 1"
proof -
  have "achieves True (one_by_one C R E b [(shard, GuildDelete (gd_id d) True), (shard, GuildCreate d)])
      (\<lambda>es _. counted GUILD_EVENTS [''Leave''] es = 0 \<and> counted GUILD_EVENTS [''Join''] es = 1) (view w)"
    unfolding one_by_one.simps achieves_and_then achieves_Ok
  proof (rule achieves_mono [OF achieves_dispatch [OF assms(2-5)]])
    fix es1 ks1
    assume gone: "dispatched C R (view w) (GuildDelete (gd_id d) True) es1 ks1"
    then have inv: "cache_inv ks1" "docs R ks1"
      by (simp_all add: dispatched_def)
    have "known_as C R ks1 (GuildCreate d) = None"
      using gone by (auto simp: dispatched_def cached_value_def string_at_def)
    then show "achieves True (one_event C R E b shard (GuildCreate d))
        (\<lambda>es _. counted GUILD_EVENTS [''Leave''] (es1 @ es @ []) = 0 \<and>
          counted GUILD_EVENTS [''Join''] (es1 @ es @ []) = 1) ks1"
      using gone
      by (intro achieves_mono [OF achieves_dispatch [OF assms(2,3) inv]]) (auto simp: dispatched_def)
  qed
  then show ?thesis
    by (rule run_up [OF assms(1)]) blast
qed

section \<open>Deliveries\<close>

lemma deliver_payload_ok: "\<exists>es. deliver_payload R E n p = Ok es \<and> acks es = []"
proof (cases "find (\<lambda>i. ou_has_shard E i (di_shard p)) [0 ..< n]")
  case (Some i)
  then have "ou_has_shard E i (di_shard p)"
    by (auto simp: find_Some_iff)
  with Some show ?thesis
    by (auto simp: deliver_payload_def Let_def split: delivery_opcode.split option.split)
qed (simp add: deliver_payload_def)

lemma handle_delivery_ok:
  "\<exists>es. handle_delivery R E n d = Ok es \<and> acks es = (case d of Inl _ \<Rightarrow> [] | Inr (tag, data) \<Rightarrow> [tag])"
proof (cases d)
  case (Inr p)
  obtain tag data where p: "p = (tag, data)"
    by (cases p)
  show ?thesis
  proof (cases "de_delivery R data")
    case (Inr q)
    then show ?thesis
      using deliver_payload_ok [of R E n q] \<open>d = Inr p\<close> p by auto
  qed (simp add: Inr p)
qed simp

fun tags :: "delivery list \<Rightarrow> u64 list" where
  "tags [] = []"
| "tags (Inl err # ds) = tags ds"
| "tags (Inr (tag, data) # ds) = tag # tags ds"

text \<open>
  C21: no delivery stops the consumer: whatever the deliveries hold (text that does not decode, a
  shard that does not exist, an error of the connection), all are handled, without a panic, and
  each is acknowledged exactly once, in order.
\<close>

theorem deliveries_acknowledged:
  "\<exists>es. incoming R E n (Inr ds) = Ok es \<and> acks es = tags ds"
proof -
  have "\<exists>es. deliver_all R E n ds = Ok es \<and> acks es = tags ds"
  proof (induction ds)
    case (Cons d ds)
    obtain e1 e2 where "handle_delivery R E n d = Ok e1" "deliver_all R E n ds = Ok e2" "acks e2 = tags ds"
        "acks e1 = (case d of Inl _ \<Rightarrow> [] | Inr (tag, data) \<Rightarrow> [tag])"
      using Cons handle_delivery_ok [of R E n d] by blast
    then show ?case
      by (cases "d # ds" rule: tags.cases) auto
  qed simp
  then show ?thesis
    by (simp add: incoming_def)
qed

text \<open>What \<open>Cluster::shard\<close> finds: the shards of the range the cluster was built with.\<close>

definition knows_ranges :: "outside \<Rightarrow> (cluster_scheme \<times> 'c) list \<Rightarrow> bool" where
  "knows_ranges E cs \<longleftrightarrow>
     (\<forall>i < length cs. \<forall>s. ou_has_shard E i s \<longleftrightarrow> unat s \<in> set (range_shards (fst (cs ! i))))"

lemma concat_distinct_index:
  assumes "distinct (concat xss)" "i < length xss" "j < length xss" "x \<in> set (xss ! i)" "x \<in> set (xss ! j)"
  shows "i = j"
  using assms
proof (induction xss arbitrary: i j)
  case (Cons xs xss)
  then show ?case
    by (cases i; cases j) (simp_all, (blast dest: nth_mem)+)
qed simp

lemma shard_cluster:
  assumes C: "shards_fit checks C" "clusters C \<noteq> 0" "unat (clusters C) \<le> shard_number C"
    and built: "\<And>s. \<exists>c. build_cluster G C s = Ok c" "build_clusters checks G C resumes = Ok (cs, info)"
    and E: "knows_ranges E cs"
  shows "(\<exists>i < length cs. \<forall>j < length cs. ou_has_shard E j s \<longleftrightarrow> j = i) \<longleftrightarrow>
      shards_start C \<le> s \<and> s \<le> shards_end C"
    and "(\<exists>i < length cs. ou_has_shard E i s) \<longleftrightarrow> shards_start C \<le> s \<and> s \<le> shards_end C"
proof -
  let ?rs = "map (\<lambda>(s, c). range_shards s) cs"
  have all: "concat ?rs = [unat (shards_start C) ..< Suc (unat (shards_end C))]"
    using build_clusters_ranges [OF C built(1), of resumes] built(2) by auto
  have has: "ou_has_shard E i s \<longleftrightarrow> unat s \<in> set (?rs ! i)" if "i < length cs" for i
    using E that by (simp add: knows_ranges_def case_prod_beta)
  have "(\<exists>i < length cs. ou_has_shard E i s) \<longleftrightarrow> (\<exists>i < length ?rs. unat s \<in> set (?rs ! i))"
    using has by (simp cong: conj_cong)
  also have "\<dots> \<longleftrightarrow> (\<exists>xs \<in> set ?rs. unat s \<in> set xs)"
    by (metis in_set_conv_nth)
  also have "\<dots> \<longleftrightarrow> unat s \<in> set (concat ?rs)"
    by simp
  also have "\<dots> \<longleftrightarrow> shards_start C \<le> s \<and> s \<le> shards_end C"
    unfolding all by (auto simp: word_le_nat_alt)
  finally show ex: "(\<exists>i < length cs. ou_has_shard E i s) \<longleftrightarrow> shards_start C \<le> s \<and> s \<le> shards_end C" .
  have "i = j" if "i < length cs" "j < length cs" "ou_has_shard E i s" "ou_has_shard E j s" for i j
    using that has concat_distinct_index [of ?rs i j "unat s"] all by simp
  then show "(\<exists>i < length cs. \<forall>j < length cs. ou_has_shard E j s \<longleftrightarrow> j = i) \<longleftrightarrow>
      shards_start C \<le> s \<and> s \<le> shards_end C"
    unfolding ex [symmetric] by metis
qed

text \<open>
  C20: with the clusters that \<open>get_clusters\<close> builds, a command for one of the configured
  shards is acknowledged and then sent, once, to the one cluster that runs the shard.
\<close>

theorem deliveries_routed:
  assumes "shards_fit checks C" "clusters C \<noteq> 0" "unat (clusters C) \<le> shard_number C"
    and "\<And>s. \<exists>c. build_cluster G C s = Ok c" "build_clusters checks G C resumes = Ok (cs, info)"
    and "knows_ranges E cs" "de_delivery R data = Inr p" "di_op p = Send"
    and "shards_start C \<le> di_shard p" "di_shard p \<le> shards_end C"
  shows "\<exists>i es. handle_delivery R E (length cs) (Inr (tag, data)) =
      Ok (Ack tag # Command i (di_shard p) (command_body R p) # es) \<and> commands es = [] \<and>
    i < length cs \<and> (\<forall>j < length cs. ou_has_shard E j (di_shard p) \<longleftrightarrow> j = i)"
proof -
  obtain i where i: "i < length cs" "\<forall>j < length cs. ou_has_shard E j (di_shard p) \<longleftrightarrow> j = i"
    using shard_cluster(1) [OF assms(1-6)] assms(9,10) by blast
  then have "find (\<lambda>i. ou_has_shard E i (di_shard p)) [0 ..< length cs] = Some i"
    by (auto simp: find_Some_iff)
  then show ?thesis
    using i assms(7,8) by (auto simp: deliver_payload_def Let_def split: option.split)
qed

text \<open>
  A delivery for any other shard, of either opcode, is acknowledged and refused with a
  warning; nothing is sent.
\<close>

lemma foreign_shard_refused:
  assumes "shards_fit checks C" "clusters C \<noteq> 0" "unat (clusters C) \<le> shard_number C"
    and "\<And>s. \<exists>c. build_cluster G C s = Ok c" "build_clusters checks G C resumes = Ok (cs, info)"
    and "knows_ranges E cs" "de_delivery R data = Inr p"
    and "\<not> (shards_start C \<le> di_shard p \<and> di_shard p \<le> shards_end C)"
  shows "handle_delivery R E (length cs) (Inr (tag, data)) =
    Ok [Ack tag, Warn (''Delivery received for invalid shard: '' @ show_u64 (di_shard p))]"
proof -
  have "find (\<lambda>i. ou_has_shard E i (di_shard p)) [0 ..< length cs] = None"
    using shard_cluster(2) [OF assms(1-6)] assms(8) by (auto simp: find_None_iff)
  with assms(7) show ?thesis
    by (simp add: deliver_payload_def)
qed

section \<open>From the gateway to the queue\<close>

text \<open>The publications of the effects, as the commands the broker gets.\<close>

definition publishing :: "effect list \<Rightarrow> amqp list" where
  "publishing es = map (\<lambda>(x, key, body). BasicPublish x key body) (publications es)"

lemma published_exchange: "p \<in> set (published R ev) \<Longrightarrow> fst p = EXCHANGE"
  by (cases ev) (auto split: sum.splits option.splits)

lemma fold_publish:
  assumes "declared C b" "default_queue C" "\<forall>p \<in> set ps. fst p = EXCHANGE" "bs_queues b QUEUE_RECV = Some ms"
  shows "bs_queues (fold (amqp_effect match) (map (\<lambda>(x, key, body). BasicPublish x key body) ps) b) QUEUE_RECV =
    Some (ms @ map snd ps)"
  using assms
proof (induction ps arbitrary: b ms)
  case (Cons p ps)
  obtain key body where p: "p = (EXCHANGE, key, body)"
    using Cons.prems(3) by (cases p) auto
  note pub = publish_recv [OF Cons.prems(1,2), of match key body]
  show ?case
    using Cons.IH [OF pub(2) Cons.prems(2) _ pub(1)] Cons.prems(3,4) by (simp add: p)
qed simp

text \<open>What is published reaches the default queue, in the order in which the broker gets it.\<close>

lemma publications_queued:
  assumes "broker_contract match B view" "declare_queues C B b = (Ok (), b1)" "default_queue C"
    and "\<forall>p \<in> set (publications es). fst p = EXCHANGE" "send_all B (publishing es) b1 = (Ok (), b2)"
  shows "bs_queues (view b2) QUEUE_RECV =
    Some (the (bs_queues (view b1) QUEUE_RECV) @ map snd (publications es))"
proof -
  have dec: "declared C (view b1)"
    by (rule declared_after [OF assms(1,2)])
  then obtain ms where "bs_queues (view b1) QUEUE_RECV = Some ms"
    using assms(3) by (auto simp: declared_def)
  then show ?thesis
    using fold_publish [OF dec assms(3,4)] send_all_view [OF assms(1,5)] by (simp add: publishing_def)
qed

end
