(* ===== verification/Interleave.thy ===== *)
theory Interleave
  imports Dispatch
begin

text \<open>
  The loop of \<open>outgoing\<close> spawns a task for each event and the tasks share the connection, so
  their commands interleave. A pool of tasks takes a step when one of them gets the reply to its
  command; new tasks may join at any time. \<open>writes_only P t\<close>: every write of \<open>t\<close>,
  whatever the replies to the commands before it, satisfies \<open>P\<close>; what single writes keep,
  any interleaving keeps.
\<close>

section \<open>Steps\<close>

fun step_task :: "'w server \<Rightarrow> 'a task \<Rightarrow> 'w \<Rightarrow> ('a task \<times> 'w) option" where
  "step_task S (Done r) w = None"
| "step_task S (ReadString k c) w = (case sv_get S k w of (r, w') \<Rightarrow> Some (c r, w'))"
| "step_task S (ReadStrings ks c) w = (case sv_mget S ks w of (r, w') \<Rightarrow> Some (c r, w'))"
| "step_task S (ReadMembers k c) w = (case sv_smembers S k w of (r, w') \<Rightarrow> Some (c r, w'))"
| "step_task S (ReadCard k c) w = (case sv_scard S k w of (r, w') \<Rightarrow> Some (c r, w'))"
| "step_task S (ReadHash k c) w = (case sv_hgetall S k w of (r, w') \<Rightarrow> Some (c r, w'))"
| "step_task S (Write x c) w = (case sv_write S x w of (r, w') \<Rightarrow> Some (c r, w'))"
| "step_task S (Now c) w = (case sv_now S w of (t, w') \<Rightarrow> Some (c t, w'))"

type_synonym ('a, 'w) pool = "'a task list \<times> 'w"

text \<open>\<open>Q\<close>: the tasks that may be spawned.\<close>

inductive pool_step :: "'w server \<Rightarrow> ('a task \<Rightarrow> bool) \<Rightarrow> ('a, 'w) pool \<Rightarrow> ('a, 'w) pool \<Rightarrow> bool" for S Q where
  command: "i < length ts \<Longrightarrow> step_task S (ts ! i) w = Some (t, w') \<Longrightarrow>
    pool_step S Q (ts, w) (ts[i := t], w')"
| spawn: "Q t \<Longrightarrow> pool_step S Q (ts, w) (ts @ [t], w)"

inductive_cases pool_stepE: "pool_step S Q (ts, w) p"

abbreviation pool_reaches :: "'w server \<Rightarrow> ('a task \<Rightarrow> bool) \<Rightarrow> ('a, 'w) pool \<Rightarrow> ('a, 'w) pool \<Rightarrow> bool" where
  "pool_reaches S Q \<equiv> (pool_step S Q)\<^sup>*\<^sup>*"

text \<open>A task that runs alone is one schedule.\<close>

lemma step_run: "step_task S t w = Some (t', w') \<Longrightarrow> run S t w = run S t' w'"
  by (cases t) (auto split: prod.splits)

section \<open>The writes of a task\<close>

primrec writes_only :: "(redis_write \<Rightarrow> bool) \<Rightarrow> 'a task \<Rightarrow> bool" where
  "writes_only P (Done r) = True"
| "writes_only P (ReadString k c) = (\<forall>r. writes_only P (c r))"
| "writes_only P (ReadStrings ks c) = (\<forall>r. writes_only P (c r))"
| "writes_only P (ReadMembers k c) = (\<forall>r. writes_only P (c r))"
| "writes_only P (ReadCard k c) = (\<forall>r. writes_only P (c r))"
| "writes_only P (ReadHash k c) = (\<forall>r. writes_only P (c r))"
| "writes_only P (Write x c) = (P x \<and> (\<forall>r. writes_only P (c r)))"
| "writes_only P (Now c) = (\<forall>t. writes_only P (c t))"

named_theorems writes_intros \<open>the writes of the operations on the cache\<close>

lemma writes_done [writes_intros]: "writes_only P (Done r)"
  by simp

lemma writes_then_result [writes_intros]:
  assumes "writes_only P t" "\<And>r. writes_only P (f r)"
  shows "writes_only P (then_result t f)"
  using assms by (induction t) (auto split: res.split)

lemma writes_and_then [writes_intros]:
  assumes "writes_only P t" "\<And>a. writes_only P (f a)"
  shows "writes_only P (and_then t f)"
  unfolding and_then_def using assms by (intro writes_then_result) (auto split: sum.split)

lemma writes_spawned_task [writes_intros]: "writes_only P t \<Longrightarrow> writes_only P (spawned_task E t)"
  by (induction t) (auto split: res.split)

lemma writes_from_redis [simp]: "writes_only P (from_redis r)"
  by (cases r) auto

lemma writes_reads [writes_intros]:
  "writes_only P (conn_get k)" "writes_only P (conn_mget ks)" "writes_only P (conn_smembers k)"
  "writes_only P (conn_scard k)" "writes_only P (conn_hgetall k)" "writes_only P now"
  by (simp_all add: conn_get_def conn_mget_def conn_smembers_def conn_scard_def conn_hgetall_def now_def)

lemma writes_conn_write: "P x \<Longrightarrow> writes_only P (conn_write x)"
  by (simp add: conn_write_def)

lemma writes_decode_all [writes_intros]: "writes_only P (decode_all de xs)"
  by (induction de xs rule: decode_all.induct) (auto intro!: writes_intros split: sum.split)

lemma writes_cache_reads [writes_intros]:
  "writes_only P (cache_get de k)" "writes_only P (cache_get_all de' ks)" "writes_only P (get_members k)"
  "writes_only P (get_members_len k)" "writes_only P (get_hashmap k)"
  by (auto simp: cache_get_def cache_get_all_def get_members_def get_members_len_def get_hashmap_def
      split: option.split sum.split intro!: writes_intros)

section \<open>Safe writes\<close>

text \<open>
  A write is safe if it stores objects at allowed object keys only, adds object keys to index sets
  only and fields to the expiry hash only.
\<close>

definition storable :: "config \<Rightarrow> u64 \<Rightarrow> string \<Rightarrow> bool" where
  "storable C b k \<longleftrightarrow> object_key k \<and> (cached k \<longrightarrow> allowed C b k)"

fun safe_write :: "config \<Rightarrow> u64 \<Rightarrow> redis_write \<Rightarrow> bool" where
  "safe_write C b (MSET kvs) \<longleftrightarrow> (\<forall>(k, s) \<in> set kvs. storable C b k)"
| "safe_write C b (SADD k ms) \<longleftrightarrow> idx_key k \<and> (\<forall>m \<in> set ms. object_key m)"
| "safe_write C b (HSET k fvs) \<longleftrightarrow> k = EXPIRY_KEYS"
| "safe_write C b (SREM k ms) \<longleftrightarrow> True"
| "safe_write C b (DEL ks) \<longleftrightarrow> True"
| "safe_write C b (HDEL k fs) \<longleftrightarrow> True"

definition pool_inv :: "config \<Rightarrow> u64 \<Rightarrow> keyspace \<Rightarrow> bool" where
  "pool_inv C b ks \<longleftrightarrow> well_typed ks \<and> only_enabled C b ks"

lemma cached_not_index: "cached k \<Longrightarrow> \<not> idx_key k" "cached k \<Longrightarrow> k \<noteq> EXPIRY_KEYS"
  using idx_not_object cached_object object_not_expiry by blast+

lemma mset_fold: "fold (\<lambda>(k, v) ks. ks(k \<mapsto> RStr v)) kvs ks x =
    (case map_of (rev kvs) x of Some v \<Rightarrow> Some (RStr v) | None \<Rightarrow> ks x)"
  by (induction kvs arbitrary: ks) (auto simp: map_add_def split: option.split)

lemma safe_write_keeps:
  assumes "pool_inv C b ks" "safe_write C b x" "write_valid ks x"
  shows "pool_inv C b (apply_write x ks)"
proof (cases x)
  case (MSET kvs)
  have "storable C b k" if "map_of (rev kvs) k = Some s" for k s
    using map_of_SomeD [OF that] assms(2) MSET by auto
  then show ?thesis
    using assms(1) idx_not_object object_not_expiry
    by (auto simp: MSET pool_inv_def well_typed_def only_enabled_def mset_fold storable_def split: option.splits)
next
  case (SADD k ms)
  then show ?thesis
    using assms cached_not_index
    by (auto simp: pool_inv_def well_typed_def only_enabled_def put_set_def split: if_splits)
next
  case (SREM k ms)
  have "idx_key k" if "set_at ks k \<noteq> {||}"
    using that assms(1) well_typedD [of ks k]
    by (auto simp: pool_inv_def set_at_def split: option.splits rval.splits if_splits)
  then consider "set_at ks k = {||}" | "idx_key k"
    by blast
  then show ?thesis
    using assms(1) cached_not_index
    by cases (auto simp: SREM pool_inv_def well_typed_def only_enabled_def put_set_def split: if_splits)
next
  case (DEL keys)
  then show ?thesis
    using assms(1) by (auto simp: pool_inv_def well_typed_def only_enabled_def)
next
  case (HSET k fvs)
  then show ?thesis
    using assms cached_not_index
    by (auto simp: pool_inv_def well_typed_def only_enabled_def put_hash_def split: if_splits)
next
  case (HDEL k fs)
  have "k = EXPIRY_KEYS" if "hash_at ks k \<noteq> fmempty"
    using that assms(1) well_typedD [of ks k]
    by (auto simp: pool_inv_def hash_at_def split: option.splits rval.splits if_splits)
  then consider "hash_at ks k = fmempty" | "k = EXPIRY_KEYS"
    by blast
  then show ?thesis
    using assms(1) cached_not_index
    by cases (auto simp: HDEL pool_inv_def well_typed_def only_enabled_def put_hash_def split: if_splits)
qed

section \<open>The operations write safely\<close>

lemma allowed_bot_user [simp]: "allowed C b BOT_USER_KEY"
  by (auto simp: allowed_def kind_defs BOT_USER_KEY_def kind_of_def parts_of_def)

lemma storable_storage: "storable C b k \<Longrightarrow> storable C b (storage_key k)"
  using allowed_storage object_storage_key by (auto simp: storable_def cached_def storage_bot_user)

lemma writes_sadd_each:
  "\<forall>(k, ms) \<in> set m. P (SADD k ms) \<Longrightarrow> writes_only P (sadd_each m)"
  by (induction m rule: sadd_each.induct) (auto intro!: writes_intros writes_conn_write)

lemma writes_srem_each:
  "\<forall>(k, ms) \<in> set m. P (SREM k ms) \<Longrightarrow> writes_only P (srem_each m)"
  by (induction m rule: srem_each.induct) (auto intro!: writes_intros writes_conn_write)

text \<open>The members that a batch collects for the index \<open>i\<close>, in whatever order they are visited.\<close>

lemma batch_members:
  assumes "visits_once (hash_order R)"
  shows "(\<exists>ms. (i, ms) \<in> set (hash_order R (collect_members keys)) \<and> k \<in> set ms) \<longleftrightarrow>
    (\<exists>k' \<in> set keys. storage_key k' = k \<and> i \<in> set (index_keys k'))"
proof -
  have "(i, ms) \<in> set (hash_order R (collect_members keys)) \<longleftrightarrow> map_of (collect_members keys) i = Some ms" for ms
    by (simp add: visits_once_set [OF assms] distinct_members)
  moreover have "entry_of (collect_members keys) i = entries keys i"
    by (rule entry_of_members)
  ultimately have "(\<exists>ms. (i, ms) \<in> set (hash_order R (collect_members keys)) \<and> k \<in> set ms) \<longleftrightarrow>
      k \<in> set (entries keys i)"
    by (auto simp: entry_of_def split: option.splits)
  then show ?thesis
    by (auto simp: entries_def)
qed

lemma writes_set_all_if:
  assumes "visits_once (hash_order R)"
    and mset: "\<And>skvs. fst ` set skvs \<subseteq> storage_key ` fst ` set kvs \<Longrightarrow> P (MSET skvs)"
    and sadd: "\<And>i ms. (\<And>k. k \<in> set ms \<Longrightarrow> \<exists>k' \<in> fst ` set kvs. storage_key k' = k \<and> i \<in> set (index_keys k')) \<Longrightarrow>
      (\<exists>k' \<in> fst ` set kvs. i \<in> set (index_keys k')) \<Longrightarrow> P (SADD i ms)"
  shows "writes_only P (set_all R ser kvs)"
proof (cases "set_items ser kvs []")
  case (Inr q)
  then obtain skvs where skvs: "serialised ser kvs skvs"
    and q: "q = (storage_items skvs, collect_members (map fst kvs))"
    using set_items_cases [where ser = ser and kvs = kvs and m = "[]"] by (cases q) (auto simp: collect_members_def)
  have "fst ` set (storage_items skvs) = storage_key ` set (map fst skvs)"
    by force
  then have "P (MSET (storage_items skvs))"
    by (intro mset) (simp add: serialised_keys [OF skvs])
  moreover have "P (SADD i ms)" if "(i, ms) \<in> set (hash_order R (collect_members (map fst kvs)))" for i ms
  proof (rule sadd)
    fix k
    assume "k \<in> set ms"
    then show "\<exists>k' \<in> fst ` set kvs. storage_key k' = k \<and> i \<in> set (index_keys k')"
      using batch_members [OF assms(1), of i "map fst kvs" k] that by auto
  next
    have "i \<in> fst ` set (collect_members (map fst kvs))"
      using that by (force simp: visits_once_set [OF assms(1)])
    then show "\<exists>k' \<in> fst ` set kvs. i \<in> set (index_keys k')"
      unfolding keys_members by simp
  qed
  ultimately show ?thesis
    by (auto simp: set_all_def Inr q intro!: writes_intros writes_conn_write writes_sadd_each)
qed (simp add: set_all_def)

lemma writes_del_all_if:
  assumes "visits_once (hash_order R)"
    and del: "P (DEL (map storage_key keys))"
    and srem: "\<And>i ms. (\<And>k. k \<in> set ms \<Longrightarrow> \<exists>k' \<in> set keys. storage_key k' = k \<and> i \<in> set (index_keys k')) \<Longrightarrow>
      P (SREM i ms)"
  shows "writes_only P (del_all R keys)"
proof -
  have "P (SREM i ms)" if "(i, ms) \<in> set (hash_order R (collect_members keys))" for i ms
    using batch_members [OF assms(1), of i keys] that by (intro srem) auto
  with del show ?thesis
    by (auto simp: del_all_def del_items_eq simp flip: collect_members_def intro!: writes_intros writes_conn_write writes_srem_each)
qed

lemma writes_set_all:
  assumes "visits_once (hash_order R)" "\<forall>(k, v) \<in> set kvs. storable C b k"
  shows "writes_only (safe_write C b) (set_all R ser kvs)"
proof (rule writes_set_all_if [OF assms(1)])
  have keys: "storable C b k" if "k \<in> fst ` set kvs" for k
    using assms(2) that by auto
  then have obj: "object_key k" if "k \<in> fst ` set kvs" for k
    using that by (simp add: storable_def)
  show "safe_write C b (MSET skvs)" if skvs: "fst ` set skvs \<subseteq> storage_key ` fst ` set kvs" for skvs
  proof -
    have "storable C b k" if "(k, s) \<in> set skvs" for k s
    proof -
      have "k \<in> storage_key ` fst ` set kvs"
        using subsetD [OF skvs imageI [OF that, of fst]] by simp
      then obtain k' where "k' \<in> fst ` set kvs" "k = storage_key k'" ..
      then show ?thesis
        using keys storable_storage by simp
    qed
    then show ?thesis
      by auto
  qed
  show "safe_write C b (SADD i ms)"
    if ms: "\<And>k. k \<in> set ms \<Longrightarrow> \<exists>k' \<in> fst ` set kvs. storage_key k' = k \<and> i \<in> set (index_keys k')"
      and i: "\<exists>k' \<in> fst ` set kvs. i \<in> set (index_keys k')" for i ms
    using i ms obj index_keys_idx object_storage_key unfolding safe_write.simps by metis
qed

lemma writes_cache_set:
  "visits_once (hash_order R) \<Longrightarrow> storable C b k \<Longrightarrow> writes_only (safe_write C b) (cache_set R ser k x)"
  unfolding cache_set_def by (intro writes_intros writes_set_all) auto

lemma writes_del_all [writes_intros]: "writes_only (safe_write C b) (del_all R ks)"
  by (auto simp: del_all_def intro!: writes_intros writes_conn_write writes_srem_each split: prod.split)

lemma writes_cache_del [writes_intros]: "writes_only (safe_write C b) (cache_del R k)"
  unfolding cache_del_def by (intro writes_intros)

lemma writes_expire_items [writes_intros]: "writes_only P (expire_items R keys)"
  by (induction R keys rule: expire_items.induct) (auto intro!: writes_intros split: option.split)

lemma writes_expire [writes_intros]:
  "writes_only (safe_write C b) (expire_all R keys)" "writes_only (safe_write C b) (expire R k ttl)"
proof -
  show "writes_only (safe_write C b) (expire_all R keys)" for keys
    by (simp add: expire_all_def) (intro writes_intros, simp add: writes_conn_write)
  then show "writes_only (safe_write C b) (expire R k ttl)"
    unfolding expire_def by (intro writes_intros)
qed

lemma writes_when [writes_intros]: "writes_only P t \<Longrightarrow> writes_only P (when_task c t)"
  by (simp add: when_task_def)

lemma writes_old [writes_intros]: "writes_only P (read_old C R k)" "writes_only P (value_old C R ser x)"
  by (auto simp: read_old_def value_old_def intro!: writes_intros)

lemma writes_clear_guild [writes_intros]: "writes_only (safe_write C b) (clear_guild R g)"
  by (auto simp: clear_guild_def intro!: writes_intros split: sum.split)

lemma stores_object: "stores C b ev k \<Longrightarrow> object_key k"
  using guild_items_objects
  by (cases "(C, b, ev, k)" rule: stores.cases) (fastforce split: if_splits)+

lemma stores_storable: "stores C b ev k \<Longrightarrow> storable C b k"
  by (simp add: storable_def stores_allowed stores_object)

lemmas event_defs = on_channel_create_def on_channel_delete_def on_channel_pins_update_def
  on_channel_update_def on_guild_create_def on_guild_delete_def on_guild_emojis_update_def
  on_guild_update_def on_unavailable_guild_def on_member_add_def on_member_remove_def
  on_member_update_def on_member_chunk_def on_message_create_def on_message_delete_def
  on_message_delete_bulk_def on_message_update_def on_presence_update_def on_ready_def
  on_role_create_def on_role_delete_def on_role_update_def on_user_update_def
  on_voice_state_update_def

lemma storable_guild_item: "(k, i) \<in> set (guild_items C b d) \<Longrightarrow> storable C b k"
  by (rule stores_storable [where ev = "GuildCreate d"]) force

lemma storable_keys:
  "storable C b BOT_USER_KEY" "storable C b (guild_key g)" "storable C b (channel_key g' c)"
  "storable C b (role_key g r)" "state_emoji C \<Longrightarrow> storable C b (emoji_key g e)"
  "state_member C \<or> u = b \<Longrightarrow> storable C b (member_key g u)"
  "state_message C \<Longrightarrow> storable C b (message_key c m)"
  "state_presence C \<Longrightarrow> storable C b (presence_key g u)" "state_voice C \<Longrightarrow> storable C b (voice_key g u)"
  by (auto simp: storable_def allowed_def key_simps) 

lemma writes_update:
  assumes "visits_once (hash_order R)"
  shows "writes_only (safe_write C b) (update C R b ev)"
  by (cases ev) (auto simp: event_defs Let_def intro!: writes_intros writes_cache_set [OF assms]
      writes_set_all [OF assms] storable_keys dest: storable_guild_item split: option.split)

lemma storable_plain: "storable C b STATUSES_KEY" "storable C b SESSIONS_KEY"
  using plain_keys(1,2) by (auto simp: storable_def cached_def kind_of_single kinds_def kind_defs plain_defs)

lemma writes_status_of [writes_intros]: "writes_only P (status_of R sh i)"
  by (auto simp: status_of_def intro!: writes_intros split: option.split)

lemma writes_collect_infos [writes_intros]: "writes_only P (collect_infos R infos sts ss)"
proof -
  have "writes_only P (statuses_of R snap)" for snap
    by (induction R snap rule: statuses_of.induct) (auto intro!: writes_intros)
  then show ?thesis
    by (induction R infos sts ss rule: collect_infos.induct) (auto intro!: writes_intros)
qed

lemma writes_expired_keys [writes_intros]: "writes_only P (expired_keys R fvs)"
  by (induction R fvs rule: expired_keys.induct) (auto intro!: writes_intros split: sum.split)

lemma writes_expire_job [writes_intros]: "writes_only (safe_write C b) (expire_job R)"
  by (auto simp: expire_job_def del_hashmap_def intro!: writes_intros writes_conn_write split: sum.split)

lemma writes_cache_job:
  assumes "visits_once (hash_order R)"
  shows "writes_only (safe_write C b) (cache_job R infos)"
  unfolding cache_job_def set_statuses_def
  by (intro writes_intros) (auto intro!: writes_intros writes_cache_set [OF assms] storable_plain)

section \<open>A step of a task\<close>

lemma step_safe:
  assumes "redis_contract False S view" "step_task S t w = Some (t', w')"
    and "writes_only (safe_write C b) t" "pool_inv C b (view w)"
  shows "writes_only (safe_write C b) t' \<and> pool_inv C b (view w')"
proof (cases t)
  case (Write x c)
  obtain r where r: "sv_write S x w = (r, w')" "t' = c r"
    using assms(2) Write by (auto split: prod.splits)
  have "write_reply False (view w) x r (view w')"
    using assms(1) r(1) unfolding contract_in_def by (metis fst_conv snd_conv)
  then show ?thesis
    using assms(3,4) safe_write_keeps Write r(2) by (auto simp: write_reply_def split: sum.splits)
qed (use assms in \<open>auto simp: contract_in_def split: prod.splits, (metis snd_conv)+\<close>)

section \<open>A race\<close>

fun run_schedule :: "'w server \<Rightarrow> nat list \<Rightarrow> ('a, 'w) pool \<Rightarrow> ('a, 'w) pool" where
  "run_schedule S [] p = p"
| "run_schedule S (i # is) (ts, w) =
     (case (if i < length ts then step_task S (ts ! i) w else None) of
        Some (t, w') \<Rightarrow> run_schedule S is (ts[i := t], w')
      | None \<Rightarrow> run_schedule S is (ts, w))"

lemma run_schedule_reaches: "pool_reaches S Q p (run_schedule S is p)"
proof (induction S "is" p rule: run_schedule.induct)
  case (2 S i "is" ts w)
  show ?case
  proof (cases "if i < length ts then step_task S (ts ! i) w else None")
    case (Some p)
    obtain t w' where p: "p = (t, w')"
      by (cases p)
    then have "pool_step S Q (ts, w) (ts[i := t], w')"
      using Some by (intro pool_step.command) (auto split: if_splits)
    then show ?thesis
      using 2 Some p by (auto intro: converse_rtranclp_into_rtranclp)
  qed (use 2 in auto)
qed simp

text \<open>The two tasks of the race, down to their commands, with the runtime of \<open>RefServer\<close>.\<close>

lemma race_runtime:
  "ser_message demo_runtime (demo_message c m) = Inr (doc_text ''hi'' m)"
  "hash_order demo_runtime xs = rev xs" "de_value demo_runtime s = Inr (JString s)"
  "dt_add demo_runtime t ms = Some (t + ms * 1000000)"
  "state_message demo_config" "state_old demo_config" "state_message_ttl demo_config = 60000"
  "ms_channel_id (demo_message c m) = c" "ms_id (demo_message c m) = m"
  by (simp_all add: demo_runtime_def demo_message_def demo_config_def)

lemma race_date: "\<exists>s. ser_datetime demo_runtime t = Ok s"
  by (simp add: demo_runtime_def ser_datetime_def)

lemma and_then_assoc: "and_then (and_then t f) g = and_then t (\<lambda>a. and_then (f a) g)"
  unfolding and_then_def by (induction t) (auto split: res.splits sum.split simp: fun_eq_iff)

lemma message_indexes:
  "index_keys (message_key c m) = [kind_index MESSAGE_KEY, scope_index CHANNEL_KEY (show_u64 c)]"
  "storage_key (message_key c m) = message_key c m"
  "kind_index MESSAGE_KEY \<noteq> scope_index CHANNEL_KEY (show_u64 c)"
  by (simp_all add: index_keys_def key_simps storage_key_def kind_no_colon)

lemma race_create:
  "update demo_config demo_runtime b (MessageCreate (demo_message c m)) =
     and_then (conn_write (MSET [(message_key c m, doc_text ''hi'' m)])) (\<lambda>_.
     and_then (conn_write (SADD (scope_index CHANNEL_KEY (show_u64 c)) [message_key c m])) (\<lambda>_.
     and_then (conn_write (SADD (kind_index MESSAGE_KEY) [message_key c m])) (\<lambda>_.
     and_then (expire demo_runtime (message_key c m) 60000) (\<lambda>_. ok None))))"
  using message_indexes(3) [of c]
  by (simp add: on_message_create_def cache_set_def set_all_def set_members_fold message_indexes
      race_runtime Let_def and_then_assoc)

lemma race_delete:
  "update demo_config demo_runtime b (MessageDelete c m) =
     and_then (cache_get (de_value demo_runtime) (message_key c m)) (\<lambda>old.
     and_then (conn_write (DEL [message_key c m])) (\<lambda>_.
     and_then (conn_write (SREM (scope_index CHANNEL_KEY (show_u64 c)) [message_key c m])) (\<lambda>_.
     and_then (conn_write (SREM (kind_index MESSAGE_KEY) [message_key c m])) (\<lambda>_. ok old))))"
  using message_indexes(3) [of c]
  by (simp add: on_message_delete_def cache_del_def del_all_def del_members_fold message_indexes
      race_runtime Let_def and_then_assoc read_old_def)

lemma step_write:
  assumes "write_valid ks x"
  shows "step_task (ref_server t) (and_then (conn_write x) f) ks = Some (f (), apply_write x ks)"
  using assms by (simp add: and_then_def conn_write_def ref_server_def)

lemma step_get:
  assumes "ks k = Some (RStr s)" "de s = Inr v"
  shows "step_task (ref_server t) (and_then (cache_get de k) f) ks = Some (f (Some v), ks)"
  using assms by (simp add: and_then_def cache_get_def conn_get_def ref_server_def stringy_def string_at_def)

lemma step_expire:
  assumes "hashy ks EXPIRY_KEYS"
  shows "\<exists>s. step_task (ref_server 0) (and_then (expire demo_runtime k ttl) f) ks =
    Some (and_then (conn_write (HSET EXPIRY_KEYS [(k, s)])) f, ks)"
proof -
  obtain s where "ser_datetime demo_runtime (0 + ttl_millis ttl * 1000000) = Ok s"
    using race_date by blast
  then show ?thesis
    by (intro exI [of _ s])
      (simp add: expire_def expire_all_def and_then_assoc now_def race_runtime,
       simp add: and_then_def ref_server_def)
qed

text \<open>The states of the race, from the empty cache on.\<close>

definition race_state :: "u64 \<Rightarrow> u64 \<Rightarrow> nat \<Rightarrow> keyspace" where
  "race_state c m n =
     (let k = message_key c m; i = kind_index MESSAGE_KEY; j = scope_index CHANNEL_KEY (show_u64 c) in
      fold apply_write (take n [MSET [(k, doc_text ''hi'' m)], DEL [k], SREM j [k], SREM i [k],
        SADD j [k], SADD i [k]]) Map.empty)"

lemma race_keys:
  "message_key c m \<noteq> kind_index MESSAGE_KEY" "message_key c m \<noteq> scope_index CHANNEL_KEY (show_u64 c)"
  "kind_index MESSAGE_KEY \<noteq> message_key c m" "scope_index CHANNEL_KEY (show_u64 c) \<noteq> message_key c m"
  "scope_index CHANNEL_KEY (show_u64 c) \<noteq> kind_index MESSAGE_KEY"
  "kind_index MESSAGE_KEY \<noteq> scope_index CHANNEL_KEY (show_u64 c)"
  "message_key c m \<noteq> EXPIRY_KEYS" "kind_index MESSAGE_KEY \<noteq> EXPIRY_KEYS"
  "scope_index CHANNEL_KEY (show_u64 c) \<noteq> EXPIRY_KEYS"
proof -
  have "idx_key (kind_index MESSAGE_KEY)" "idx_key (scope_index CHANNEL_KEY (show_u64 c))"
      "object_key (message_key c m)"
    by simp_all
  then show "message_key c m \<noteq> kind_index MESSAGE_KEY" "message_key c m \<noteq> scope_index CHANNEL_KEY (show_u64 c)"
    "kind_index MESSAGE_KEY \<noteq> message_key c m" "scope_index CHANNEL_KEY (show_u64 c) \<noteq> message_key c m"
    "scope_index CHANNEL_KEY (show_u64 c) \<noteq> kind_index MESSAGE_KEY"
  "kind_index MESSAGE_KEY \<noteq> scope_index CHANNEL_KEY (show_u64 c)"
    "message_key c m \<noteq> EXPIRY_KEYS" "kind_index MESSAGE_KEY \<noteq> EXPIRY_KEYS"
    "scope_index CHANNEL_KEY (show_u64 c) \<noteq> EXPIRY_KEYS"
    using idx_not_object message_indexes(3) object_not_expiry expiry_not_kind(1) by metis+
qed

lemma fun_del_only: "(\<lambda>k. if k = x then None else [x \<mapsto> v] k) = Map.empty"
  by (simp add: fun_eq_iff)

lemma race_states:
  "race_state c m 0 = Map.empty" "race_state c m (Suc 0) = [message_key c m \<mapsto> RStr (doc_text ''hi'' m)]"
  "race_state c m 2 = Map.empty" "race_state c m (Suc (Suc 0)) = Map.empty" "race_state c m 3 = Map.empty" "race_state c m 4 = Map.empty"
  "race_state c m 5 = [scope_index CHANNEL_KEY (show_u64 c) \<mapsto> RSet {|message_key c m|}]"
  "race_state c m 6 = [scope_index CHANNEL_KEY (show_u64 c) \<mapsto> RSet {|message_key c m|},
     kind_index MESSAGE_KEY \<mapsto> RSet {|message_key c m|}]"
  by (simp_all add: race_keys race_state_def Let_def put_set_def set_at_def fun_upd_idem fun_del_only)

lemma race_step:
  assumes "n < 6"
  shows "step_task (ref_server t) (and_then (conn_write ([MSET [(message_key c m, doc_text ''hi'' m)],
      DEL [message_key c m], SREM (scope_index CHANNEL_KEY (show_u64 c)) [message_key c m],
      SREM (kind_index MESSAGE_KEY) [message_key c m], SADD (scope_index CHANNEL_KEY (show_u64 c)) [message_key c m],
      SADD (kind_index MESSAGE_KEY) [message_key c m]] ! n)) f) (race_state c m n) =
    Some (f (), race_state c m (Suc n))"
proof -
  have "n \<in> {0, 1, 2, 3, 4, 5}"
    using assms by auto
  then show ?thesis
    by (elim insertE emptyE)
      (simp_all add: step_write race_states race_keys setty_def,
       simp_all add: race_states race_keys put_set_def set_at_def fun_upd_idem fun_del_only)
qed

text \<open>
  C40: the tasks of a message and of its deletion race: from an empty cache there is an
  interleaving after which both have ended in \<open>Ok\<close>, the message is not in the cache, and
  its key is left in both indexes.
\<close>

theorem delete_race:
  "\<exists>old ks. pool_reaches (ref_server 0) (\<lambda>_. False)
      ([update demo_config demo_runtime b (MessageCreate (demo_message c m)),
        update demo_config demo_runtime b (MessageDelete c m)], Map.empty)
      ([ok None, ok old], ks) \<and>
    ks (message_key c m) = None \<and>
    message_key c m |\<in>| set_at ks (kind_index MESSAGE_KEY) \<and>
    message_key c m |\<in>| set_at ks (scope_index CHANNEL_KEY (show_u64 c))"
proof -
  let ?k = "message_key c m" and ?i = "kind_index MESSAGE_KEY" and ?j = "scope_index CHANNEL_KEY (show_u64 c)"
  let ?ks = "race_state c m 6" and ?d = "doc_text ''hi'' m"
  have hashy: "hashy ?ks EXPIRY_KEYS"
    by (simp add: hashy_def race_states race_keys race_keys [symmetric])
  then obtain s where now: "step_task (ref_server 0) (and_then (expire demo_runtime ?k 60000) (\<lambda>_. ok None)) ?ks =
      Some (and_then (conn_write (HSET EXPIRY_KEYS [(?k, s)])) (\<lambda>_. ok None :: json option task), ?ks)"
    using step_expire by metis
  have last: "write_valid ?ks (HSET EXPIRY_KEYS [(?k, s)])"
    using hashy by simp
  define ks' where "ks' = apply_write (HSET EXPIRY_KEYS [(?k, s)]) ?ks"
  have get: "race_state c m (Suc 0) ?k = Some (RStr ?d)"
    by (simp add: race_states)
  note steps = race_step [of 0, simplified] race_step [of 1, simplified] race_step [of 2, simplified, unfolded numeral_2_eq_2]
    race_step [of 3, simplified] race_step [of 4, simplified] race_step [of 5, simplified]
    step_write [OF last, folded ks'_def] now
    step_get [where ks = "race_state c m (Suc 0)" and k = ?k and de = "de_value demo_runtime", OF get race_runtime(3)]
  have "run_schedule (ref_server 0) [0, 1, 1, 1, 1, 0, 0, 0, 0]
      ([update demo_config demo_runtime b (MessageCreate (demo_message c m)),
        update demo_config demo_runtime b (MessageDelete c m)], race_state c m 0) =
      ([ok None, ok (Some (JString ?d))], ks')"
    unfolding race_create race_delete by (simp add: steps)
  then have "pool_reaches (ref_server 0) (\<lambda>_. False)
      ([update demo_config demo_runtime b (MessageCreate (demo_message c m)),
        update demo_config demo_runtime b (MessageDelete c m)], Map.empty)
      ([ok None, ok (Some (JString ?d))], ks')"
    unfolding race_states(1) by (metis run_schedule_reaches)
  moreover have "ks' ?k = None" "?k |\<in>| set_at ks' ?i" "?k |\<in>| set_at ks' ?j"
    using race_keys by (simp_all add: ks'_def race_states put_hash_def set_at_def)
  ultimately show ?thesis
    by blast
qed

end
