(* ===== verification/Metrics.thy ===== *)
theory Metrics
  imports Utils
begin

text \<open>
  \<open>src/metrics.rs\<close>: the HTTP routes, the metrics, the sizes of the state cache and one
  iteration of \<open>run_jobs\<close>, which sets the gauges. The registry, the text encoder and the HTTP server are
  other crates: their results are parameters.
\<close>

section \<open>The HTTP server\<close>

datatype http_method = GET | OtherMethod string

record response =
  rs_status :: nat
  rs_content_type :: "string option"
  rs_body :: string

text \<open>
  What the other crates answer: the encoded metrics and the content type of the encoder, the
  response builder, the address parser, the server (its error, when it stops), and whether the
  address can be bound.
\<close>

record http =
  ht_encode :: "string + string"
  ht_format_type :: string
  ht_build :: "response \<Rightarrow> string + response"
  ht_parse_ip :: "string \<Rightarrow> string + string"
  ht_can_bind :: "string \<Rightarrow> 16 word \<Rightarrow> bool"
  ht_serve :: "string \<Rightarrow> 16 word \<Rightarrow> string option"

definition build :: "http \<Rightarrow> response \<Rightarrow> response res" where
  "build H r = (case ht_build H r of Inl e \<Rightarrow> Err (HyperHttp e) | Inr r' \<Rightarrow> Ok r')"

definition serve :: "http \<Rightarrow> http_method \<Rightarrow> string \<Rightarrow> response res" where
  \<open>serve H method path =
     (if method = GET \<and> path = ''/metrics'' then
        (case ht_encode H of
           Inl e \<Rightarrow> Err (Prometheus e)
         | Inr buffer \<Rightarrow>
             build H \<lparr>rs_status = 200, rs_content_type = Some (ht_format_type H), rs_body = buffer\<rparr>)
      else if method = GET \<and> path = ''/healthcheck'' then
        build H \<lparr>rs_status = 200, rs_content_type = Some ''application/json'',
          rs_body = ''{"status":"OK"}''\<rparr>
      else build H \<lparr>rs_status = 404, rs_content_type = None, rs_body = ''''\<rparr>)\<close>

text \<open>
  The port is cast to 16 bits; \<open>Server::bind\<close> panics when the address cannot be bound; a
  server that stops without an error is an error too.
\<close>

definition run_server :: "config \<Rightarrow> http \<Rightarrow> unit res" where
  "run_server C H =
     (case ht_parse_ip H (prometheus_host C) of
        Inl e \<Rightarrow> Err (AddrParse e)
      | Inr ip \<Rightarrow>
          (let port = ucast (prometheus_port C) in
           if \<not> ht_can_bind H ip port then Panic ''error binding the address''
           else (case ht_serve H ip port of Some e \<Rightarrow> Err (Hyper e) | None \<Rightarrow> Err Empty)))"

section \<open>The metrics\<close>

text \<open>
  The metrics with their help and label names. A metric is registered when it is used first;
  the registry refuses a second one of the same name, and \<open>unwrap\<close> panics.
\<close>

datatype metric_kind = IntCounterVec | IntGauge | IntGaugeVec

record metric =
  me_kind :: metric_kind
  me_name :: string
  me_help :: string
  me_labels :: "string list"

definition all_metrics :: "metric list" where
  "all_metrics =
     [\<lparr>me_kind = IntCounterVec, me_name = ''gateway_events'',
        me_help = ''Events received through the Discord gateway'', me_labels = [''type'', ''shard'']\<rparr>,
      \<lparr>me_kind = IntCounterVec, me_name = ''gateway_shard_events'',
        me_help = ''Discord shard connection events'', me_labels = [''type'']\<rparr>,
      \<lparr>me_kind = IntCounterVec, me_name = ''gateway_guild_events'',
        me_help = ''Discord guild join and leave events'', me_labels = [''type'']\<rparr>,
      \<lparr>me_kind = IntGauge, me_name = ''gateway_shards'',
        me_help = ''Number of gateway connections with Discord'', me_labels = []\<rparr>,
      \<lparr>me_kind = IntGaugeVec, me_name = ''gateway_statuses'',
        me_help = ''Status of the gateway connections'', me_labels = [''type'']\<rparr>,
      \<lparr>me_kind = IntGaugeVec, me_name = ''gateway_latencies'',
        me_help = ''API latency with the Discord gateway'', me_labels = [''shard'']\<rparr>,
      \<lparr>me_kind = IntGauge, me_name = ''state_guilds'',
        me_help = ''Number of guilds in state cache'', me_labels = []\<rparr>,
      \<lparr>me_kind = IntGauge, me_name = ''state_channels'',
        me_help = ''Number of channels in state cache'', me_labels = []\<rparr>,
      \<lparr>me_kind = IntGauge, me_name = ''state_messages'',
        me_help = ''Number of messages in state cache'', me_labels = []\<rparr>,
      \<lparr>me_kind = IntGauge, me_name = ''state_roles'',
        me_help = ''Number of roles in state cache'', me_labels = []\<rparr>,
      \<lparr>me_kind = IntGauge, me_name = ''state_emojis'',
        me_help = ''Number of emojis in state cache'', me_labels = []\<rparr>,
      \<lparr>me_kind = IntGauge, me_name = ''state_members'',
        me_help = ''Number of members in state cache'', me_labels = []\<rparr>,
      \<lparr>me_kind = IntGauge, me_name = ''state_presences'',
        me_help = ''Number of presences in state cache'', me_labels = []\<rparr>,
      \<lparr>me_kind = IntGauge, me_name = ''state_voices'',
        me_help = ''Number of voices in state cache'', me_labels = []\<rparr>]"

fun register_all :: "metric list \<Rightarrow> metric list \<Rightarrow> metric list res" where
  "register_all registry [] = Ok registry"
| "register_all registry (m # ms) =
     (if me_name m \<in> me_name ` set registry
      then Panic ''called Result::unwrap() on an Err value''
      else register_all (m # registry) ms)"

text \<open>In whatever order the metrics are used first, no registration panics.\<close>

lemma register_distinct:
  assumes "distinct (map me_name ms)" "me_name ` set ms \<inter> me_name ` set registry = {}"
  shows "register_all registry ms = Ok (rev ms @ registry)"
  using assms by (induction registry ms rule: register_all.induct) auto

lemma metrics_register:
  assumes "set ms \<subseteq> set all_metrics" "distinct ms"
  shows "\<exists>registry. register_all [] ms = Ok registry"
proof -
  have "inj_on me_name (set all_metrics)"
    by (simp add: all_metrics_def)
  then have "distinct (map me_name ms)"
    using assms inj_on_subset by (auto simp: distinct_map)
  then show ?thesis
    by (simp add: register_distinct)
qed

text \<open>
  \<open>with_label_values\<close> panics when the number of values is not that of the labels; of the
  counters and gauges that the service uses the numbers agree.
\<close>

definition labelled :: "string \<Rightarrow> string list \<Rightarrow> bool" where
  "labelled name values \<longleftrightarrow> (\<exists>m \<in> set all_metrics. me_name m = name \<and> length (me_labels m) = length values)"

fun effect_labelled :: "effect \<Rightarrow> bool" where
  "effect_labelled (Count name values) = labelled name values"
| "effect_labelled (SetGauge (Gauge name values v)) = labelled name values"
| "effect_labelled _ = True"

lemma labelled_simps:
  "labelled ''gateway_events'' vs \<longleftrightarrow> length vs = 2" "labelled ''gateway_shard_events'' vs \<longleftrightarrow> length vs = 1"
  "labelled ''gateway_guild_events'' vs \<longleftrightarrow> length vs = 1" "labelled ''gateway_shards'' vs \<longleftrightarrow> vs = []"
  "labelled ''gateway_statuses'' vs \<longleftrightarrow> length vs = 1" "labelled ''gateway_latencies'' vs \<longleftrightarrow> length vs = 1"
  "labelled ''state_guilds'' vs \<longleftrightarrow> vs = []" "labelled ''state_channels'' vs \<longleftrightarrow> vs = []"
  "labelled ''state_messages'' vs \<longleftrightarrow> vs = []" "labelled ''state_roles'' vs \<longleftrightarrow> vs = []"
  "labelled ''state_emojis'' vs \<longleftrightarrow> vs = []" "labelled ''state_members'' vs \<longleftrightarrow> vs = []"
  "labelled ''state_presences'' vs \<longleftrightarrow> vs = []" "labelled ''state_voices'' vs \<longleftrightarrow> vs = []"
  by (auto simp: labelled_def all_metrics_def)

section \<open>State statistics\<close>

record state_stats =
  ss_guilds :: u64
  ss_channels :: u64
  ss_messages :: u64
  ss_roles :: u64
  ss_emojis :: u64
  ss_members :: u64
  ss_presences :: u64
  ss_voices :: u64

definition get_state_stats :: "state_stats task" where
  "get_state_stats =
     and_then (get_members_len (GUILD_KEY @ KEYS_SUFFIX)) (\<lambda>guilds.
     and_then (get_members_len (CHANNEL_KEY @ KEYS_SUFFIX)) (\<lambda>channels.
     and_then (get_members_len (MESSAGE_KEY @ KEYS_SUFFIX)) (\<lambda>messages.
     and_then (get_members_len (ROLE_KEY @ KEYS_SUFFIX)) (\<lambda>roles.
     and_then (get_members_len (EMOJI_KEY @ KEYS_SUFFIX)) (\<lambda>emojis.
     and_then (get_members_len (MEMBER_KEY @ KEYS_SUFFIX)) (\<lambda>members.
     and_then (get_members_len (PRESENCE_KEY @ KEYS_SUFFIX)) (\<lambda>presences.
     and_then (get_members_len (VOICE_KEY @ KEYS_SUFFIX)) (\<lambda>voices.
       ok \<lparr>ss_guilds = guilds, ss_channels = channels, ss_messages = messages, ss_roles = roles,
           ss_emojis = emojis, ss_members = members, ss_presences = presences, ss_voices = voices\<rparr>))))))))"

section \<open>The job\<close>

text \<open>
  A snapshot of a cluster lists its shards, with what \<open>Shard::info\<close> tells of those that have
  a session.
\<close>

type_synonym shards = "(u64 \<times> shard_info option) list"

definition millis_i64 :: "nat \<Rightarrow> int" where
  "millis_i64 n = sint (of_nat n :: u64)"

definition shard_latency :: "shard_info \<Rightarrow> int" where
  "shard_latency i = (if sh_recent i = [] then 0 else millis_i64 (last (sh_recent i)))"

definition no_statuses :: "runtime \<Rightarrow> (string \<times> int) list" where
  "no_statuses R =
     fold (\<lambda>s. insert_entry (stage_name R s) 0)
       [Connected, Disconnected, Handshaking, Identifying, Resuming] []"

fun bump :: "string \<Rightarrow> (string \<times> int) list \<Rightarrow> (string \<times> int) list" where
  "bump k [] = []"
| "bump k ((k', n) # m) = (if k' = k then (k', n + 1) # m else (k', n) # bump k m)"

fun shard_gauges ::
  "runtime \<Rightarrow> shards \<Rightarrow> (string \<times> int) list \<Rightarrow> gauge list \<times> (string \<times> int) list" where
  "shard_gauges R [] statuses = ([], statuses)"
| "shard_gauges R ((shard, None) # rest) statuses = shard_gauges R rest statuses"
| "shard_gauges R ((shard, Some i) # rest) statuses =
     (case shard_gauges R rest (bump (stage_name R (sh_stage i)) statuses) of
        (gs, statuses') \<Rightarrow>
          (Gauge ''gateway_latencies'' [show_u64 shard] (shard_latency i) # gs, statuses'))"

text \<open>The casts of the numbers of shards and of the statistics to \<open>i64\<close>.\<close>

definition stats_gauges :: "state_stats \<Rightarrow> gauge list" where
  "stats_gauges s =
     [Gauge ''state_guilds'' [] (sint (ss_guilds s)), Gauge ''state_channels'' [] (sint (ss_channels s)),
      Gauge ''state_messages'' [] (sint (ss_messages s)), Gauge ''state_roles'' [] (sint (ss_roles s)),
      Gauge ''state_emojis'' [] (sint (ss_emojis s)), Gauge ''state_members'' [] (sint (ss_members s)),
      Gauge ''state_presences'' [] (sint (ss_presences s)), Gauge ''state_voices'' [] (sint (ss_voices s))]"

definition metrics_job :: "runtime \<Rightarrow> shards list \<Rightarrow> gauge list task" where
  "metrics_job R infos =
     (let total = fold (\<lambda>shards acc. acc + int (length shards)) infos 0;
          (latencies, statuses) = shard_gauges R (concat infos) (no_statuses R)
      in then_result get_state_stats (\<lambda>r.
           ok ([Gauge ''gateway_shards'' [] total] @ latencies @
               map (\<lambda>(stage, amount). Gauge ''gateway_statuses'' [stage] amount) statuses @
               (case r of Inr stats \<Rightarrow> stats_gauges stats | Inl _ \<Rightarrow> []))))"

section \<open>What the gauges show\<close>

text \<open>The stored objects of a kind.\<close>

definition stored :: "keyspace \<Rightarrow> string \<Rightarrow> string set" where
  "stored ks kd = {k. ks k \<noteq> None \<and> kind_of k = kd \<and> length (parts_of k) > 1}"

lemma card_stored:
  assumes "kind_indexed ks" "kd \<in> kinds"
  shows "fcard (set_at ks (kd @ KEYS_SUFFIX)) = card (stored ks kd)"
proof -
  have "fset (set_at ks (kind_index kd)) = stored ks kd"
    using assms by (auto simp: kind_indexed_def stored_def)
  then show ?thesis
    by (simp add: fcard.rep_eq kind_index_def)
qed

definition stats_of :: "keyspace \<Rightarrow> state_stats" where
  "stats_of ks =
     (let n = (\<lambda>kd. of_nat (card (stored ks kd))) in
      \<lparr>ss_guilds = n GUILD_KEY, ss_channels = n CHANNEL_KEY, ss_messages = n MESSAGE_KEY,
       ss_roles = n ROLE_KEY, ss_emojis = n EMOJI_KEY, ss_members = n MEMBER_KEY,
       ss_presences = n PRESENCE_KEY, ss_voices = n VOICE_KEY\<rparr>)"

lemma achieves_len:
  assumes "cache_inv ks" "kd \<in> kinds" "P (of_nat (card (stored ks kd))) ks"
  shows "achieves up (get_members_len (kd @ KEYS_SUFFIX)) P ks"
proof -
  have "setty ks (kd @ KEYS_SUFFIX)"
    using well_typed_setty [OF cache_inv_parts(1) [OF assms(1)], of "kind_index kd"] assms(2)
    by (metis idx_kind_index kind_index_def)
  then show ?thesis
    using assms(3) card_stored [OF cache_inv_parts(3) [OF assms(1)] assms(2)]
    by (simp add: achieves_get_members_len)
qed

lemma achieves_stats:
  assumes "cache_inv ks" "P (stats_of ks) ks"
  shows "achieves up get_state_stats P ks"
  unfolding get_state_stats_def achieves_and_then achieves_Ok
  using assms(2) by (intro achieves_len assms(1)) (simp_all add: stats_of_def Let_def)

text \<open>The gauges of the stages: how many shards with a session are in each.\<close>

definition in_stage :: "stage \<Rightarrow> shards \<Rightarrow> nat" where
  "in_stage s shards = length (filter (\<lambda>(_, i). case i of Some i \<Rightarrow> sh_stage i = s | None \<Rightarrow> False) shards)"

lemma map_of_bump: "map_of (bump k m) = (case map_of m k of Some n \<Rightarrow> (map_of m)(k \<mapsto> n + 1) | None \<Rightarrow> map_of m)"
  by (induction m) (auto split: option.splits)

lemma keys_bump [simp]: "map fst (bump k m) = map fst m"
  by (induction m) auto

lemma shard_gauges_statuses:
  assumes "inj (stage_name R)" "map_of m (stage_name R s) = Some n"
  shows "map fst (snd (shard_gauges R shards m)) = map fst m \<and>
    map_of (snd (shard_gauges R shards m)) (stage_name R s) = Some (n + int (in_stage s shards))"
  using assms
proof (induction R shards m arbitrary: n rule: shard_gauges.induct)
  case (3 R shard i rest m)
  let ?k = "stage_name R (sh_stage i)"
  have same: "?k = stage_name R s \<longleftrightarrow> sh_stage i = s"
    by (rule inj_eq [OF 3(2)])
  show ?case
  proof (cases "sh_stage i = s")
    case True
    then have "map_of (bump ?k m) (stage_name R s) = Some (n + 1)"
      using 3(3) by (simp add: map_of_bump)
    from 3(1) [OF 3(2) this] show ?thesis
      using True by (simp add: case_prod_beta in_stage_def)
  next
    case False
    then have "map_of (bump ?k m) (stage_name R s) = Some n"
      using 3(3) same by (auto simp: map_of_bump split: option.split)
    from 3(1) [OF 3(2) this] show ?thesis
      using False by (simp add: case_prod_beta in_stage_def)
  qed
qed (simp_all add: in_stage_def)

abbreviation stages :: "stage list" where
  "stages \<equiv> [Connected, Disconnected, Handshaking, Identifying, Resuming]"

lemma map_insert_entry_new: "k \<notin> set (map fst m) \<Longrightarrow> insert_entry k v m = m @ [(k, v)]"
  by (induction m) auto

lemma no_statuses:
  assumes "inj (stage_name R)"
  shows "no_statuses R = map (\<lambda>s. (stage_name R s, 0)) stages"
  using injD [OF assms] by (auto simp: no_statuses_def map_insert_entry_new)

lemma map_of_keys: "map fst m = ks \<Longrightarrow> distinct ks \<Longrightarrow> \<forall>k \<in> set ks. map_of m k = Some (f k) \<Longrightarrow> m = map (\<lambda>k. (k, f k)) ks"
proof (induction m arbitrary: ks)
  case (Cons p m)
  then obtain k ks' where ks: "ks = k # ks'" "fst p = k" "map fst m = ks'"
    by auto
  have "\<forall>x \<in> set ks'. map_of m x = Some (f x)"
    using Cons.prems(2,3) ks by (cases p) (auto split: if_splits)
  with Cons ks show ?case
    by (cases p) auto
qed simp

lemma shard_gauges_stages:
  assumes "inj (stage_name R)"
  shows "snd (shard_gauges R shards (no_statuses R)) =
    map (\<lambda>s. (stage_name R s, int (in_stage s shards))) stages"
proof -
  let ?m = "snd (shard_gauges R shards (no_statuses R))"
  let ?f = "\<lambda>k. int (in_stage (the_inv (stage_name R) k) shards)"
  have init: "map_of (no_statuses R) (stage_name R s) = Some 0" for s
    using injD [OF assms] by (cases s) (auto simp: no_statuses [OF assms])
  note at = shard_gauges_statuses [OF assms init]
  have keys: "map fst ?m = map (stage_name R) stages"
    using at [of shards Connected] by (simp add: no_statuses [OF assms])
  have "distinct (map (stage_name R) stages)"
    using injD [OF assms] by auto
  moreover have "\<forall>k \<in> set (map (stage_name R) stages). map_of ?m k = Some (?f k)"
    using at by (simp add: the_inv_f_f [OF assms])
  ultimately have "?m = map (\<lambda>k. (k, ?f k)) (map (stage_name R) stages)"
    by (rule map_of_keys [OF keys])
  then show ?thesis
    by (simp add: the_inv_f_f [OF assms])
qed

fun gauges_of :: "string \<Rightarrow> gauge list \<Rightarrow> (string list \<times> int) list" where
  "gauges_of name [] = []"
| "gauges_of name (Gauge n ls v # gs) = (if n = name then (ls, v) # gauges_of name gs else gauges_of name gs)"

lemma gauges_of_app [simp]: "gauges_of name (xs @ ys) = gauges_of name xs @ gauges_of name ys"
  by (induction name xs rule: gauges_of.induct) auto

lemma gauges_of_statuses [simp]:
  "gauges_of name (map (\<lambda>p. Gauge n [fst p] (snd p)) m) =
     (if n = name then map (\<lambda>p. ([fst p], snd p)) m else [])"
  by (induction m) auto

lemma gauges_of_latencies [simp]:
  "name \<noteq> ''gateway_latencies'' \<Longrightarrow> gauges_of name (fst (shard_gauges R shards m)) = []"
  by (induction R shards m rule: shard_gauges.induct) (auto simp: case_prod_beta)

lemma in_stages_sum:
  "(\<Sum>s\<leftarrow>stages. int (in_stage s shards)) = int (length (filter (\<lambda>(_, i). i \<noteq> None) shards))"
proof (induction shards)
  case (Cons p shards)
  obtain k i where "p = (k, i)"
    by (cases p)
  then show ?case
    using Cons by (cases i; cases "sh_stage (the i)") (auto simp: in_stage_def)
qed (simp add: in_stage_def)

lemma fold_length: "fold (\<lambda>xs acc. acc + int (length xs)) xss n = n + int (length (concat xss))"
  by (induction xss arbitrary: n) auto

text \<open>
  C29: from a consistent cache the state gauges are set to the numbers of stored objects of each
  kind (as \<open>i64\<close>).
\<close>

theorem state_gauges_exact:
  assumes "redis_contract True S view" "cache_inv (view w)"
  shows "\<exists>gs w'. run S (metrics_job R infos) w = (Ok gs, w') \<and>
    (\<forall>(name, kd) \<in> set [(''state_guilds'', GUILD_KEY), (''state_channels'', CHANNEL_KEY),
        (''state_messages'', MESSAGE_KEY), (''state_roles'', ROLE_KEY), (''state_emojis'', EMOJI_KEY),
        (''state_members'', MEMBER_KEY), (''state_presences'', PRESENCE_KEY), (''state_voices'', VOICE_KEY)].
       gauges_of name gs = [([], sint (of_nat (card (stored (view w) kd)) :: u64))])"
proof -
  have "achieves True (metrics_job R infos) (\<lambda>gs _. \<forall>(name, kd) \<in> set [(''state_guilds'', GUILD_KEY),
        (''state_channels'', CHANNEL_KEY), (''state_messages'', MESSAGE_KEY), (''state_roles'', ROLE_KEY),
        (''state_emojis'', EMOJI_KEY), (''state_members'', MEMBER_KEY), (''state_presences'', PRESENCE_KEY),
        (''state_voices'', VOICE_KEY)].
       gauges_of name gs = [([], sint (of_nat (card (stored (view w) kd)) :: u64))]) (view w)"
    unfolding metrics_job_def Let_def case_prod_beta
    by (intro achieves_then_up achieves_stats assms(2)) (simp_all add: achieves_Ok stats_gauges_def stats_of_def)
  then show ?thesis
    by (rule run_up [OF assms(1)]) blast
qed

text \<open>
  Whatever Redis answers, an iteration that ends sets one status gauge for each of the five
  stages to the number of shards with a session in this stage, so that the gauges add up to the
  shards with a session, and the shard gauge to the number of all shards.
\<close>

lemma status_gauges_sum:
  assumes "inj (stage_name R)" "run S (metrics_job R infos) w = (Ok gs, w')"
  shows "gauges_of ''gateway_statuses'' gs = map (\<lambda>s. ([stage_name R s], int (in_stage s (concat infos)))) stages \<and>
    (\<Sum>(ls, n)\<leftarrow>gauges_of ''gateway_statuses'' gs. n) = int (length (filter (\<lambda>(_, i). i \<noteq> None) (concat infos))) \<and>
    gauges_of ''gateway_shards'' gs = [([], int (length (concat infos)))]"
proof -
  let ?sg = "shard_gauges R (concat infos) (no_statuses R)"
  define stats_part where "stats_part r = (case r of Inr stats \<Rightarrow> stats_gauges stats | Inl _ \<Rightarrow> [])"
    for r :: "api_error + state_stats"
  have stats: "gauges_of name (stats_part r) = []" if "name \<in> {''gateway_statuses'', ''gateway_shards''}" for name r
    using that by (auto simp: stats_gauges_def stats_part_def split: sum.split)
  define all where "all r = [Gauge ''gateway_shards'' [] (int (length (concat infos)))] @ fst ?sg @
      map (\<lambda>(stage, amount). Gauge ''gateway_statuses'' [stage] amount) (snd ?sg) @ stats_part r" for r
  have "metrics_job R infos = then_result get_state_stats (\<lambda>r. ok (all r))"
    by (simp add: metrics_job_def fold_length case_prod_beta Let_def all_def stats_part_def)
  then obtain r where "gs = all r"
    using assms(2) by (auto simp: run_then_result split: prod.splits res.splits)
  then show ?thesis
    using in_stages_sum [of "concat infos"] stats
    by (simp add: all_def shard_gauges_stages [OF assms(1)] comp_def case_prod_beta del: length_concat)
qed

end
