(* ===== verification/Config.thy ===== *)
theory Config
  imports Cluster
begin

text \<open>
  \<open>src/config.rs\<close>: how \<open>CONFIG\<close> is read from the environment. \<open>std::env::var\<close> is
  the function \<open>env\<close>, \<open>None\<close> where the variable is missing (or is not Unicode). The
  parsers are \<open>simd_json::from_str\<close> at the types of the fields; it parses in place, so its
  result comes with what it leaves in the buffer.
\<close>

section \<open>Reading one variable\<close>

type_synonym environment = "string \<Rightarrow> string option"
type_synonym 'a in_place = "string \<Rightarrow> (string + 'a) \<times> string"

record parsers =
  pa_u64 :: "u64 in_place"
  pa_bool :: "bool in_place"
  pa_status :: "string in_place"
  pa_activity :: "u64 in_place"

definition get_env :: "environment \<Rightarrow> string \<Rightarrow> string res" where
  "get_env env name =
     (case env name of
        Some v \<Rightarrow> Ok v
      | None \<Rightarrow> Panic (''Missing environmental variable: '' @ name))"

definition quoted :: "string \<Rightarrow> string" where
  \<open>quoted s = CHR 0x22 # s @ [CHR 0x22]\<close>

text \<open>The value as JSON, and if this fails what is left of it as a JSON string.\<close>

definition get_env_as :: "environment \<Rightarrow> 'a in_place \<Rightarrow> string \<Rightarrow> 'a res" where
  "get_env_as env parse name =
     bind_res (get_env env name) (\<lambda>variable.
       case parse variable of
         (Inr x, _) \<Rightarrow> Ok x
       | (Inl _, variable) \<Rightarrow>
           (case parse (quoted variable) of
              (Inr x, _) \<Rightarrow> Ok x
            | (Inl _, _) \<Rightarrow> Panic (''Invalid environmental variable: '' @ name)))"

section \<open>The configuration\<close>

definition load_config :: "environment \<Rightarrow> parsers \<Rightarrow> config res" where
  "load_config env P =
     bind_res (get_env env ''RUST_LOG'') (\<lambda>v1.
     bind_res (get_env env ''BOT_TOKEN'') (\<lambda>v2.
     bind_res (get_env_as env (pa_u64 P) ''SHARDS_START'') (\<lambda>v3.
     bind_res (get_env_as env (pa_u64 P) ''SHARDS_END'') (\<lambda>v4.
     bind_res (get_env_as env (pa_u64 P) ''SHARDS_TOTAL'') (\<lambda>v5.
     bind_res (get_env_as env (pa_u64 P) ''SHARDS_CONCURRENCY'') (\<lambda>v6.
     bind_res (get_env_as env (pa_u64 P) ''SHARDS_WAIT'') (\<lambda>v7.
     bind_res (get_env_as env (pa_u64 P) ''CLUSTERS'') (\<lambda>v8.
     bind_res (get_env_as env (pa_bool P) ''DEFAULT_QUEUE'') (\<lambda>v9.
     bind_res (get_env_as env (pa_bool P) ''RESUME'') (\<lambda>v10.
     bind_res (get_env_as env (pa_u64 P) ''INTENTS'') (\<lambda>v11.
     bind_res (get_env_as env (pa_u64 P) ''LARGE_THRESHOLD'') (\<lambda>v12.
     bind_res (get_env_as env (pa_status P) ''STATUS'') (\<lambda>v13.
     bind_res (get_env_as env (pa_activity P) ''ACTIVITY_TYPE'') (\<lambda>v14.
     bind_res (get_env env ''ACTIVITY_NAME'') (\<lambda>v15.
     bind_res (get_env_as env (pa_u64 P) ''LOG_CHANNEL'') (\<lambda>v16.
     bind_res (get_env_as env (pa_u64 P) ''LOG_GUILD_CHANNEL'') (\<lambda>v17.
     bind_res (get_env_as env (pa_bool P) ''STATE_ENABLED'') (\<lambda>v18.
     bind_res (get_env_as env (pa_bool P) ''STATE_MEMBER'') (\<lambda>v19.
     bind_res (get_env_as env (pa_u64 P) ''STATE_MEMBER_TTL'') (\<lambda>v20.
     bind_res (get_env_as env (pa_bool P) ''STATE_MESSAGE'') (\<lambda>v21.
     bind_res (get_env_as env (pa_u64 P) ''STATE_MESSAGE_TTL'') (\<lambda>v22.
     bind_res (get_env_as env (pa_bool P) ''STATE_PRESENCE'') (\<lambda>v23.
     bind_res (get_env_as env (pa_bool P) ''STATE_EMOJI'') (\<lambda>v24.
     bind_res (get_env_as env (pa_bool P) ''STATE_VOICE'') (\<lambda>v25.
     bind_res (get_env_as env (pa_bool P) ''STATE_OLD'') (\<lambda>v26.
     bind_res (get_env env ''RABBIT_HOST'') (\<lambda>v27.
     bind_res (get_env_as env (pa_u64 P) ''RABBIT_PORT'') (\<lambda>v28.
     bind_res (get_env env ''RABBIT_USERNAME'') (\<lambda>v29.
     bind_res (get_env env ''RABBIT_PASSWORD'') (\<lambda>v30.
     bind_res (get_env env ''REDIS_HOST'') (\<lambda>v31.
     bind_res (get_env_as env (pa_u64 P) ''REDIS_PORT'') (\<lambda>v32.
     bind_res (get_env env ''PROMETHEUS_HOST'') (\<lambda>v33.
     bind_res (get_env_as env (pa_u64 P) ''PROMETHEUS_PORT'') (\<lambda>v34.
       Ok \<lparr>rust_log = v1, bot_token = v2, shards_start = v3, shards_end = v4,
         shards_total = v5, shards_concurrency = v6, shards_wait = v7, clusters = v8,
         default_queue = v9, resume = v10, intents = v11, large_threshold = v12,
         status = v13, activity_type = v14, activity_name = v15, log_channel = v16,
         log_guild_channel = v17, state_enabled = v18, state_member = v19, state_member_ttl = v20,
         state_message = v21, state_message_ttl = v22, state_presence = v23, state_emoji = v24,
         state_voice = v25, state_old = v26, rabbit_host = v27, rabbit_port = v28,
         rabbit_username = v29, rabbit_password = v30, redis_host = v31, redis_port = v32,
         prometheus_host = v33, prometheus_port = v34\<rparr>))))))))))))))))))))))))))))))))))"

section \<open>Writing a configuration down\<close>

definition show_flag :: "bool \<Rightarrow> string" where
  "show_flag b = (if b then ''true'' else ''false'')"

text \<open>The variables of a configuration, in the form of the file \<open>.env.example\<close>.\<close>

definition env_of :: "config \<Rightarrow> environment" where
  "env_of C = map_of
     [(''RUST_LOG'', rust_log C),
      (''BOT_TOKEN'', bot_token C),
      (''SHARDS_START'', show_u64 (shards_start C)),
      (''SHARDS_END'', show_u64 (shards_end C)),
      (''SHARDS_TOTAL'', show_u64 (shards_total C)),
      (''SHARDS_CONCURRENCY'', show_u64 (shards_concurrency C)),
      (''SHARDS_WAIT'', show_u64 (shards_wait C)),
      (''CLUSTERS'', show_u64 (clusters C)),
      (''DEFAULT_QUEUE'', show_flag (default_queue C)),
      (''RESUME'', show_flag (resume C)),
      (''INTENTS'', show_u64 (intents C)),
      (''LARGE_THRESHOLD'', show_u64 (large_threshold C)),
      (''STATUS'', status C),
      (''ACTIVITY_TYPE'', show_u64 (activity_type C)),
      (''ACTIVITY_NAME'', activity_name C),
      (''LOG_CHANNEL'', show_u64 (log_channel C)),
      (''LOG_GUILD_CHANNEL'', show_u64 (log_guild_channel C)),
      (''STATE_ENABLED'', show_flag (state_enabled C)),
      (''STATE_MEMBER'', show_flag (state_member C)),
      (''STATE_MEMBER_TTL'', show_u64 (state_member_ttl C)),
      (''STATE_MESSAGE'', show_flag (state_message C)),
      (''STATE_MESSAGE_TTL'', show_u64 (state_message_ttl C)),
      (''STATE_PRESENCE'', show_flag (state_presence C)),
      (''STATE_EMOJI'', show_flag (state_emoji C)),
      (''STATE_VOICE'', show_flag (state_voice C)),
      (''STATE_OLD'', show_flag (state_old C)),
      (''RABBIT_HOST'', rabbit_host C),
      (''RABBIT_PORT'', show_u64 (rabbit_port C)),
      (''RABBIT_USERNAME'', rabbit_username C),
      (''RABBIT_PASSWORD'', rabbit_password C),
      (''REDIS_HOST'', redis_host C),
      (''REDIS_PORT'', show_u64 (redis_port C)),
      (''PROMETHEUS_HOST'', prometheus_host C),
      (''PROMETHEUS_PORT'', show_u64 (prometheus_port C))]"

lemma env_of_simps:
  "env_of C ''RUST_LOG'' = Some (rust_log C)"
  "env_of C ''BOT_TOKEN'' = Some (bot_token C)"
  "env_of C ''SHARDS_START'' = Some (show_u64 (shards_start C))"
  "env_of C ''SHARDS_END'' = Some (show_u64 (shards_end C))"
  "env_of C ''SHARDS_TOTAL'' = Some (show_u64 (shards_total C))"
  "env_of C ''SHARDS_CONCURRENCY'' = Some (show_u64 (shards_concurrency C))"
  "env_of C ''SHARDS_WAIT'' = Some (show_u64 (shards_wait C))"
  "env_of C ''CLUSTERS'' = Some (show_u64 (clusters C))"
  "env_of C ''DEFAULT_QUEUE'' = Some (show_flag (default_queue C))"
  "env_of C ''RESUME'' = Some (show_flag (resume C))"
  "env_of C ''INTENTS'' = Some (show_u64 (intents C))"
  "env_of C ''LARGE_THRESHOLD'' = Some (show_u64 (large_threshold C))"
  "env_of C ''STATUS'' = Some (status C)"
  "env_of C ''ACTIVITY_TYPE'' = Some (show_u64 (activity_type C))"
  "env_of C ''ACTIVITY_NAME'' = Some (activity_name C)"
  "env_of C ''LOG_CHANNEL'' = Some (show_u64 (log_channel C))"
  "env_of C ''LOG_GUILD_CHANNEL'' = Some (show_u64 (log_guild_channel C))"
  "env_of C ''STATE_ENABLED'' = Some (show_flag (state_enabled C))"
  "env_of C ''STATE_MEMBER'' = Some (show_flag (state_member C))"
  "env_of C ''STATE_MEMBER_TTL'' = Some (show_u64 (state_member_ttl C))"
  "env_of C ''STATE_MESSAGE'' = Some (show_flag (state_message C))"
  "env_of C ''STATE_MESSAGE_TTL'' = Some (show_u64 (state_message_ttl C))"
  "env_of C ''STATE_PRESENCE'' = Some (show_flag (state_presence C))"
  "env_of C ''STATE_EMOJI'' = Some (show_flag (state_emoji C))"
  "env_of C ''STATE_VOICE'' = Some (show_flag (state_voice C))"
  "env_of C ''STATE_OLD'' = Some (show_flag (state_old C))"
  "env_of C ''RABBIT_HOST'' = Some (rabbit_host C)"
  "env_of C ''RABBIT_PORT'' = Some (show_u64 (rabbit_port C))"
  "env_of C ''RABBIT_USERNAME'' = Some (rabbit_username C)"
  "env_of C ''RABBIT_PASSWORD'' = Some (rabbit_password C)"
  "env_of C ''REDIS_HOST'' = Some (redis_host C)"
  "env_of C ''REDIS_PORT'' = Some (show_u64 (redis_port C))"
  "env_of C ''PROMETHEUS_HOST'' = Some (prometheus_host C)"
  "env_of C ''PROMETHEUS_PORT'' = Some (show_u64 (prometheus_port C))"
  by (simp_all add: env_of_def)

definition status_names :: "string list" where
  "status_names = [''dnd'', ''idle'', ''invisible'', ''offline'', ''online'']"

text \<open>
  What the code relies on of the parser: numbers and booleans parse, a bare status name does not
  and is left as it is, a quoted one does.
\<close>

definition json_parsers :: "parsers \<Rightarrow> bool" where
  "json_parsers P \<longleftrightarrow>
     (\<forall>n. fst (pa_u64 P (show_u64 n)) = Inr n) \<and>
     (\<forall>b. fst (pa_bool P (show_flag b)) = Inr b) \<and>
     (\<forall>n \<le> 5. fst (pa_activity P (show_u64 n)) = Inr n) \<and>
     (\<forall>s \<in> set status_names. (\<exists>e. pa_status P s = (Inl e, s)) \<and> fst (pa_status P (quoted s)) = Inr s)"

lemma get_env_as_json:
  assumes "env name = Some v" "fst (parse v) = Inr x"
  shows "get_env_as env parse name = Ok x"
  using assms by (cases "parse v") (simp add: get_env_as_def get_env_def)

lemma get_env_as_plain:
  assumes "env name = Some v" "parse v = (Inl e, v)" "fst (parse (quoted v)) = Inr x"
  shows "get_env_as env parse name = Ok x"
  using assms by (cases "parse (quoted v)") (simp add: get_env_as_def get_env_def)

text \<open>
  A value that is no document of the type, bare or quoted, panics: a blank number, as
  \<open>LOG_CHANNEL\<close> in \<open>.env.example\<close>, does.
\<close>

lemma get_env_as_invalid:
  assumes "env name = Some v" "parse v = (Inl e, v')" "\<forall>x. fst (parse (quoted v')) \<noteq> Inr x"
  shows "\<exists>m. get_env_as env parse name = Panic m"
  using assms
  by (cases "parse (quoted v')"; cases "fst (parse (quoted v'))") (auto simp: get_env_as_def get_env_def)

text \<open>
  C27: a configuration written down as variables in the form of \<open>.env.example\<close> (bare texts,
  decimal numbers, \<open>true\<close> and \<open>false\<close>, a bare status name) is read back unchanged.
\<close>

theorem config_roundtrip:
  assumes "json_parsers P" "status C \<in> set status_names" "activity_type C \<le> 5"
  shows "load_config (env_of C) P = Ok C"
proof -
  have num: "get_env_as (env_of C) (pa_u64 P) name = Ok n" if "env_of C name = Some (show_u64 n)" for name n
    using that assms(1) by (intro get_env_as_json) (auto simp: json_parsers_def)
  have flag: "get_env_as (env_of C) (pa_bool P) name = Ok b" if "env_of C name = Some (show_flag b)" for name b
    using that assms(1) by (intro get_env_as_json) (auto simp: json_parsers_def)
  have act: "get_env_as (env_of C) (pa_activity P) ''ACTIVITY_TYPE'' = Ok (activity_type C)"
    using assms by (intro get_env_as_json [of _ _ "show_u64 (activity_type C)"])
      (auto simp: json_parsers_def env_of_def)
  have status: "get_env_as (env_of C) (pa_status P) ''STATUS'' = Ok (status C)"
  proof -
    obtain e where "pa_status P (status C) = (Inl e, status C)" "fst (pa_status P (quoted (status C))) = Inr (status C)"
      using assms(1,2) unfolding json_parsers_def by blast
    then show ?thesis
      by (intro get_env_as_plain) (simp_all add: env_of_def)
  qed
  have plain: "get_env (env_of C) name = Ok v" if "env_of C name = Some v" for name v
    using that by (simp add: get_env_def)
  show ?thesis
    by (simp add: load_config_def num flag act status plain env_of_simps)
qed

end
