(* ===== verification/Startup.thy ===== *)
theory Startup
  imports Utils Jobs
begin

text \<open>
  The parts of \<open>real_main\<close> of \<open>src/main.rs\<close>: the connections, the declaration of the
  queues, the bot user, the clusters, the two keys that announce the start; and, when the service
  is interrupted, the sessions that the next start resumes. The theory \<open>Service\<close> puts them
  together with the tasks that are spawned in between.
\<close>

section \<open>Starting\<close>

text \<open>
  What the other services answer, in the order in which they are asked; an error is its debug
  text. The request of the bot user and the decoding of the reply can both fail; every cluster gets
  a connection of its own.
\<close>

record boot =
  bt_redis :: "string \<Rightarrow> string + unit"
  bt_conn :: "string + unit"
  bt_amqp :: "string \<Rightarrow> string + unit"
  bt_channel :: "string + unit"
  bt_channel_send :: "string + unit"
  bt_request :: "string + string"
  bt_model :: "string \<Rightarrow> string + user"
  bt_cluster_conn :: "nat \<Rightarrow> string + unit"

definition or_err :: "(string \<Rightarrow> api_error) \<Rightarrow> string + 'a \<Rightarrow> 'a res" where
  "or_err f r = (case r of Inl e \<Rightarrow> Err (f e) | Inr a \<Rightarrow> Ok a)"

definition redis_url :: "config \<Rightarrow> string" where
  "redis_url C = ''redis://'' @ redis_host C @ '':'' @ show_u64 (redis_port C) @ ''/''"

definition amqp_url :: "config \<Rightarrow> string" where
  "amqp_url C = ''amqp://'' @ rabbit_username C @ '':'' @ rabbit_password C @ ''@'' @
     rabbit_host C @ '':'' @ show_u64 (rabbit_port C) @ ''/%2f''"

definition get_current_user :: "boot \<Rightarrow> user res" where
  "get_current_user T =
     bind_res (or_err TwilightHttp (bt_request T)) (\<lambda>body.
       or_err DeserializeBody (bt_model T body))"

text \<open>Up to the bot user; \<open>b\<close> is the state of the broker.\<close>

definition prepare :: "config \<Rightarrow> boot \<Rightarrow> 'b broker \<Rightarrow> 'b \<Rightarrow> user res \<times> 'b" where
  "prepare C T B b =
     (case bind_res (or_err Redis (bt_redis T (redis_url C))) (\<lambda>_.
           bind_res (or_err Redis (bt_conn T)) (\<lambda>_.
           bind_res (or_err Lapin (bt_amqp T (amqp_url C))) (\<lambda>_.
           bind_res (or_err Lapin (bt_channel T)) (\<lambda>_.
             or_err Lapin (bt_channel_send T))))) of
        Ok _ \<Rightarrow>
          (case declare_queues C B b of
             (Ok _, b') \<Rightarrow> (get_current_user T, b')
           | (Err e, b') \<Rightarrow> (Err e, b')
           | (Panic m, b') \<Rightarrow> (Panic m, b'))
      | Err e \<Rightarrow> (Err e, b)
      | Panic m \<Rightarrow> (Panic m, b))"

text \<open>\<open>cache::set(conn, STARTED_KEY, &FormattedDateTime::now())\<close>; the format may panic.\<close>

definition set_started :: "runtime \<Rightarrow> unit task" where
  "set_started R =
     and_then now (\<lambda>t.
       case dt_format R t of
         None \<Rightarrow> Done (Panic ''called Result::unwrap() on an Err value'')
       | Some s \<Rightarrow> cache_set R (ser_string R) STARTED_KEY s)"

text \<open>The clusters, and the two keys that announce the start.\<close>

definition start_service ::
  "bool \<Rightarrow> 'c gateway \<Rightarrow> config \<Rightarrow> runtime \<Rightarrow> ((cluster_scheme \<times> 'c) list \<times> cluster_info) task" where
  "start_service checks G C R =
     and_then (get_clusters checks G C R) (\<lambda>(cs, info).
       and_then (set_started R) (\<lambda>_.
         and_then (cache_set R (ser_u64 R) SHARDS_KEY (shards_total C)) (\<lambda>_. ok (cs, info))))"

section \<open>Stopping\<close>

fun dump_sessions :: "(u64 \<times> session_info) list \<Rightarrow> sessions \<Rightarrow> sessions" where
  "dump_sessions [] m = m"
| "dump_sessions ((key, value) # rest) m = dump_sessions rest (insert_entry (show_u64 key) value m)"

text \<open>\<open>dumps\<close>: what \<open>down_resumable\<close> of each cluster returns.\<close>

definition stop_service :: "runtime \<Rightarrow> (u64 \<times> session_info) list list \<Rightarrow> unit task" where
  "stop_service R dumps = cache_set R (ser_sessions R) SESSIONS_KEY (dump_sessions (concat dumps) [])"

section \<open>What a start finds\<close>

lemma start_keys [simp]:
  "object_key SHARDS_KEY" "object_key STARTED_KEY" "storage_key SHARDS_KEY = SHARDS_KEY"
  "storage_key STARTED_KEY = STARTED_KEY" "SHARDS_KEY \<noteq> SESSIONS_KEY" "SHARDS_KEY \<noteq> STARTED_KEY"
  "SESSIONS_KEY \<noteq> STARTED_KEY" "SHARDS_KEY \<noteq> STATUSES_KEY" "\<not> expiring SHARDS_KEY"
  by (auto simp: object_key_def kinds_def kind_defs plain_defs parts_of_def split_on_no_sep
      idx_key_def kind_of_def EXPIRY_KEYS_def KEYS_SUFFIX_def storage_key_def expiring_def)

lemma keys_insert_entry: "fst ` set (insert_entry k v m) = insert k (fst ` set m)"
  by (induction k v m rule: insert_entry.induct) auto

text \<open>
  Serialising and parsing a number and a map of sessions give them back; a map has no order, so
  the parsed one has the same entries.
\<close>

definition resume_serde :: "runtime \<Rightarrow> bool" where
  "resume_serde R \<longleftrightarrow>
     (\<forall>n. \<exists>s. ser_u64 R n = Inr s \<and> de_u64 R s = Inr n) \<and>
     (\<forall>ss. distinct (map fst ss) \<longrightarrow> (\<exists>s ss'. ser_sessions R ss = Inr s \<and>
        de_sessions R s = Inr ss' \<and> distinct (map fst ss') \<and> map_of ss' = map_of ss))"

lemma distinct_insert_entry: "distinct (map fst (insert_entry k v m)) \<longleftrightarrow> distinct (map fst m)"
proof (induction k v m rule: insert_entry.induct)
  case (2 k v k' v' m)
  then show ?case
    using keys_insert_entry [of k v m] by (auto simp: image_image)
qed simp

lemma distinct_dump: "distinct (map fst (dump_sessions ds m)) \<longleftrightarrow> distinct (map fst m)"
  by (induction ds m rule: dump_sessions.induct) (auto simp: distinct_insert_entry)

lemma distinct_insert_sessions: "distinct (map fst (insert_sessions snap m)) \<longleftrightarrow> distinct (map fst m)"
  by (induction snap m rule: insert_sessions.induct) (auto simp: distinct_insert_entry)

lemma map_of_dump:
  "map_of (dump_sessions ds m) = map_of m ++ map_of (rev (map (\<lambda>(k, v). (show_u64 k, v)) ds))"
  by (induction ds m rule: dump_sessions.induct)
    (auto simp: map_of_insert_entry map_add_def fun_eq_iff split: option.split)

lemma keys_dump: "fst ` set (dump_sessions ds m) = show_u64 ` fst ` set ds \<union> fst ` set m"
  by (induction ds m rule: dump_sessions.induct) (auto simp: keys_insert_entry)

lemma keys_insert_sessions:
  "fst ` set (insert_sessions snap m) = show_u64 ` fst ` set snap \<union> fst ` set m"
  by (induction snap m rule: insert_sessions.induct) (auto simp: keys_insert_entry)

lemma map_of_show: "map_of (map (\<lambda>(k, v). (show_u64 k, f v)) ds) (show_u64 n) = map_option f (map_of ds n)"
  by (induction ds) auto

lemma map_of_rev_distinct: "distinct (map fst m) \<Longrightarrow> map_of (rev m) = map_of m"
  by (rule map_of_inject_set [THEN iffD2]) (auto simp: rev_map [symmetric])

text \<open>With the stored number of shards and a stored map of sessions, the map is resumed.\<close>

lemma achieves_get_resumes:
  assumes "resume_serde R" "resume C" "cache_inv ks"
    and shards: "ks SHARDS_KEY = Some (RStr s)" "de_u64 R s = Inr (shards_total C)"
    and sessions: "ks SESSIONS_KEY = Some (RStr s')" "ser_sessions R ss = Inr s'"
    and keys: "distinct (map fst ss)" "fst ` set ss \<subseteq> range show_u64"
    and post: "\<And>rs. (\<forall>n. map_of rs n = map_of ss (show_u64 n)) \<Longrightarrow> P rs ks"
  shows "achieves True (get_resumes C R) P ks"
proof -
  obtain ss' where parsed: "de_sessions R s' = Inr ss'" "distinct (map fst ss')" "map_of ss' = map_of ss"
    using assms(1) sessions(2) keys(1) unfolding resume_serde_def by (metis sum.inject(2))
  have "fst ` set ss' = dom (map_of ss)"
    unfolding parsed(3) [symmetric] by (simp add: dom_map_of_conv_image_fst)
  then have ss': "de_sessions R s' = Inr ss'" "map_of (rev ss') = map_of ss" "fst ` set ss' = fst ` set ss"
    using parsed map_of_rev_distinct [OF parsed(2)] by (simp_all add: dom_map_of_conv_image_fst)
  have "k \<in> range show_u64" if "(k, v) \<in> set ss'" for k v
    using keys(2) imageI [OF that, of fst] unfolding ss'(3) by auto
  then have "\<forall>(k, v) \<in> set ss'. \<exists>n. k = show_u64 n"
    by auto
  then obtain rs where rs: "parse_resumes ss' [] = Ok rs"
      "\<forall>n. map_of rs n = (case map_of (rev ss') (show_u64 n) of Some v \<Rightarrow> Some v | None \<Rightarrow> map_of [] n)"
    using parse_resumes_shown by blast
  have "stringy ks SHARDS_KEY" "stringy ks SESSIONS_KEY"
      "string_at ks SHARDS_KEY = Some s" "string_at ks SESSIONS_KEY = Some s'"
    by (simp_all add: stringy_def string_at_def shards(1) sessions(1))
  moreover have "P rs ks"
    using rs(2) by (intro post) (simp add: ss'(2) split: option.split)
  ultimately show ?thesis
    using shards(2) ss'(1) rs(1) assms(2)
    by (simp add: get_resumes_def achieves_and_then achieves_cache_get achieves_Ok del: string_at_Some)
qed

lemma achieves_set_started:
  assumes "visits_once (hash_order R)" "cache_inv ks" "\<And>t. sane_time t \<Longrightarrow> dt_format R t \<noteq> None"
    and "\<And>s. \<exists>t. ser_string R s = Inr t"
    and "\<And>s. cache_inv (put_one STARTED_KEY s ks) \<Longrightarrow> P () (put_one STARTED_KEY s ks)"
  shows "achieves True (set_started R) P ks"
  unfolding set_started_def achieves_and_then achieves_now
proof (intro allI impI)
  fix t
  assume "sane_time t"
  then obtain s s' where "dt_format R t = Some s" "ser_string R s = Inr s'"
    using assms(3,4) by (metis option.exhaust)
  then show "achieves True (case dt_format R t of
      None \<Rightarrow> Done (Panic ''called Result::unwrap() on an Err value'')
    | Some s \<Rightarrow> cache_set R (ser_string R) STARTED_KEY s) P ks"
    using assms(1,2,5) cache_inv_put_one [OF start_keys(2) assms(2)]
    by (auto intro!: achieves_cache_set cache_inv_parts)
qed

text \<open>
  C26: a service that was interrupted is resumed: after a stop that stored the sessions of the
  shards, a start with the same \<open>SHARDS_TOTAL\<close> and \<open>RESUME\<close> resumes exactly the dumped
  sessions, each with its shard.
\<close>

theorem sessions_resumed:
  assumes "redis_contract True S view" "visits_once (hash_order R)" "cache_inv (view w)"
    and "resume_serde R" "resume C"
  shows "\<exists>w'. \<exists>rs. run S (and_then (cache_set R (ser_u64 R) SHARDS_KEY (shards_total C)) (\<lambda>_.
      and_then (stop_service R dumps) (\<lambda>_. get_resumes C R))) w = (Ok rs, w') \<and>
    (\<forall>n. map_of rs n = map_of (rev (concat dumps)) n)"
proof -
  let ?ss = "dump_sessions (concat dumps) []"
  have dist: "distinct (map fst ?ss)"
    by (simp add: distinct_dump)
  then obtain s s' where s: "ser_u64 R (shards_total C) = Inr s" "de_u64 R s = Inr (shards_total C)"
      "ser_sessions R ?ss = Inr s'"
    using assms(4) unfolding resume_serde_def by metis
  have inv: "cache_inv (put_one SHARDS_KEY s (view w))"
      "cache_inv (put_one SESSIONS_KEY s' (put_one SHARDS_KEY s (view w)))"
    using cache_inv_put_one [OF plain_keys(2) cache_inv_put_one [OF start_keys(1) assms(3)]]
      cache_inv_put_one [OF start_keys(1) assms(3)] by simp_all
  have keys: "fst ` set ?ss \<subseteq> range show_u64"
    unfolding keys_dump by auto
  have resumed: "map_of ?ss (show_u64 n) = map_of (rev (concat dumps)) n" for n
    using map_of_show [of "\<lambda>v. v" "rev (concat dumps)" n]
    by (simp add: map_of_dump rev_map option.map_ident)
  have "achieves True (and_then (cache_set R (ser_u64 R) SHARDS_KEY (shards_total C)) (\<lambda>_.
      and_then (stop_service R dumps) (\<lambda>_. get_resumes C R)))
    (\<lambda>rs _. \<forall>n. map_of rs n = map_of (rev (concat dumps)) n) (view w)"
    unfolding achieves_and_then stop_service_def
  proof (rule achieves_cache_set [where ser = "ser_u64 R" and x = "shards_total C",
        OF assms(2) start_keys(1) cache_inv_parts(1) [OF assms(3)] s(1)],
      rule achieves_cache_set [where ser = "ser_sessions R" and x = ?ss,
        OF assms(2) plain_keys(2) cache_inv_parts(1) [OF inv(1)] s(3)])
    show "achieves True (get_resumes C R) (\<lambda>rs _. \<forall>n. map_of rs n = map_of (rev (concat dumps)) n)
        (put_one SESSIONS_KEY s' (put_one SHARDS_KEY s (view w)))"
      using s resumed
      by (intro achieves_get_resumes [OF assms(4,5) inv(2) _ _ _ _ dist keys]) (auto simp: put_one_object)
  qed
  then show ?thesis
    by (rule run_up [OF assms(1)]) blast
qed

text \<open>
  C36: a service that dies without a stop is resumed from the last iteration of \<open>run_jobs\<close>:
  every shard the job saw is resumed, also one without a session, which is resumed with the
  empty session id.
\<close>

theorem crash_resumes:
  assumes "redis_contract True S view" "visits_once (hash_order R)" "cache_inv (view w)"
    and "resume_serde R" "resume C"
    and "\<And>x. \<exists>s. ser_statuses R x = Inr s" "\<And>x. \<exists>s. ser_sessions R x = Inr s"
    and "\<forall>(first, second) \<in> set infos. dates_ok R first"
  shows "\<exists>w' rs. run S (and_then (cache_set R (ser_u64 R) SHARDS_KEY (shards_total C)) (\<lambda>_.
      and_then (cache_job R infos) (\<lambda>_. get_resumes C R))) w = (Ok rs, w') \<and>
    (\<forall>n. map_of rs n = map_option session_of (map_of (rev (concat (map snd infos))) n))"
proof -
  let ?snap = "concat (map snd infos)"
  let ?ss = "insert_sessions ?snap []"
  obtain s where s: "ser_u64 R (shards_total C) = Inr s" "de_u64 R s = Inr (shards_total C)"
    using assms(4) unfolding resume_serde_def by metis
  have dist: "distinct (map fst ?ss)"
    by (simp add: distinct_insert_sessions)
  have inv: "cache_inv (put_one SHARDS_KEY s (view w))"
    by (rule cache_inv_put_one [OF start_keys(1) assms(3)])
  have keys: "fst ` set ?ss \<subseteq> range show_u64"
    unfolding keys_insert_sessions by auto
  have resumed: "map_of ?ss (show_u64 n) = map_option session_of (map_of (rev ?snap) n)" for n
    using map_of_show [of session_of "rev ?snap" n] by (simp add: map_of_insert_sessions rev_map)
  have "achieves True (and_then (cache_set R (ser_u64 R) SHARDS_KEY (shards_total C)) (\<lambda>_.
      and_then (cache_job R infos) (\<lambda>_. get_resumes C R)))
    (\<lambda>rs _. \<forall>n. map_of rs n = map_option session_of (map_of (rev ?snap) n)) (view w)"
    unfolding achieves_and_then
  proof (rule achieves_cache_set [where ser = "ser_u64 R" and x = "shards_total C",
        OF assms(2) start_keys(1) cache_inv_parts(1) [OF assms(3)] s(1)],
      rule achieves_mono [OF achieves_cache_job [OF assms(2) inv assms(6,7,8)]])
    fix a ks'
    assume job: "cache_inv ks' \<and>
      (\<exists>statuses t s'. dumped R infos statuses ?ss \<and> ser_statuses R statuses = Inr t \<and>
         ks' STATUSES_KEY = Some (RStr t) \<and> ser_sessions R ?ss = Inr s' \<and> ks' SESSIONS_KEY = Some (RStr s')) \<and>
      (\<forall>x. object_key x \<longrightarrow> \<not> expiring x \<longrightarrow> x \<notin> {STATUSES_KEY, SESSIONS_KEY} \<longrightarrow>
         ks' x = put_one SHARDS_KEY s (view w) x)"
    then obtain s' where s': "ser_sessions R ?ss = Inr s'" "ks' SESSIONS_KEY = Some (RStr s')"
      by blast
    moreover have "ks' SHARDS_KEY = Some (RStr s)"
      using job by (simp add: put_one_object)
    ultimately show "achieves True (get_resumes C R)
        (\<lambda>rs _. \<forall>n. map_of rs n = map_option session_of (map_of (rev ?snap) n)) ks'"
      using s(2) resumed job
      by (intro achieves_get_resumes [OF assms(4,5) _ _ _ _ _ dist keys]) auto
  qed
  then show ?thesis
    by (rule run_up [OF assms(1)]) blast
qed

end
