(* ===== verification/ServiceWitness.thy ===== *)
theory ServiceWitness
  imports CacheWitness Interleave Metrics Config Startup "HOL-Library.Countable"
begin

text \<open>
  The properties of the clusters, the queues, the event handlers, the metrics, the configuration
  and the start at concrete inputs, with the server, the runtime and the database of the
  examples of the cache.
\<close>

section \<open>Clusters\<close>

definition demo_gateway :: "cluster_scheme gateway" where
  "demo_gateway = \<lparr>gw_intents = (\<lambda>_. True), gw_presence = (\<lambda>_. True), gw_build = (\<lambda>C q s. Inr s)\<rparr>"

lemma demo_build: "\<exists>c. build_cluster demo_gateway C s = Ok c"
  by (simp add: build_cluster_def demo_gateway_def)

lemma demo_shards:
  "shards_fit True demo_config" "clusters demo_config \<noteq> 0" "unat (clusters demo_config) \<le> shard_number demo_config"
  by (simp_all add: shards_fit_def shard_number_def demo_config_def)

theorem cluster_ranges_witness:
  "\<exists>cs info. build_clusters True demo_gateway demo_config [] = Ok (cs, info) \<and> length cs = 2 \<and>
    concat (map (\<lambda>(s, c). range_shards s) cs) = [0, 1, 2, 3, 4]"
  using cluster_ranges [OF demo_shards demo_build, of "[]"]
  by (fastforce simp: demo_config_def upt_conv_Cons simp del: upt_Suc)

lemma surplus_clusters_witness:
  "\<exists>cs info. build_clusters False demo_gateway (demo_config\<lparr>clusters := 7\<rparr>) [] = Ok (cs, info) \<and>
    map (\<lambda>(s, c). (cs_from s, cs_to s)) cs = [(0, 0), (1, 1), (2, 2), (3, 3), (4, 4), (5, 4), (5, 4)]"
proof -
  let ?C = "demo_config\<lparr>clusters := 7\<rparr>"
  have "shards_fit False ?C" and n: "shard_number ?C = 5"
    by (simp_all add: shards_fit_def shard_number_def demo_config_def)
  note fit = this(1)
  have two: "replicate 2 x = [x, x]" for x :: "u64 \<times> u64"
    by (simp add: numeral_2_eq_2)
  have eq: "map (\<lambda>j. (shards_start ?C + of_nat j, shards_start ?C + of_nat j)) [0 ..< shard_number ?C] @
      replicate (unat (clusters ?C) - shard_number ?C) (shards_end ?C + 1, shards_end ?C) =
      [(0, 0), (1, 1), (2, 2), (3, 3), (4, 4), (5, 4), (5, 4)]"
    unfolding n using two by (simp add: demo_config_def upt_conv_Cons del: upt_Suc)
  have "shard_number ?C < unat (clusters ?C)"
    unfolding n by (simp add: demo_config_def)
  from surplus_clusters [OF fit this demo_build, of "[]"] show ?thesis
    unfolding eq .
qed

section \<open>Queues\<close>

text \<open>Shard 3 asks, and is answered after 3 milliseconds.\<close>

definition demo_request :: request where
  "demo_request = \<lparr>rq_ticket = 0, rq_shard = 3, rq_time = 0\<rparr>"

definition asked_queue :: queue where
  "asked_queue = \<lparr>qs_now = 0, qs_gone = {}, qs_asked = [demo_request],
     qs_buckets = [\<lparr>bk_pending = [demo_request], bk_pc = Receiving, bk_served = []\<rparr>]\<rparr>"

definition served_queue :: queue where
  "served_queue = \<lparr>qs_now = 3, qs_gone = {}, qs_asked = [demo_request],
     qs_buckets = [\<lparr>bk_pending = [], bk_pc = Sleeping 6003, bk_served = [(3, demo_request, True)]\<rparr>]\<rparr>"

lemma asked_reached: "queue_reached (LocalQueue 6) asked_queue"
proof -
  have "queue_request (bucket_of (LocalQueue 6)) 3 (new_queue 1) = Ok asked_queue"
    by (simp add: queue_request_def bucket_of_def new_queue_def Let_def asked_queue_def on_bucket_def
        send_request_def empty_bucket_def demo_request_def)
  then show ?thesis
    unfolding queue_reached_def by (auto simp: bucket_count_def intro: queue_step.ask)
qed

lemma served_reached: "queue_reached (LocalQueue 6) served_queue"
proof -
  let ?R = "queue_step (bucket_of (LocalQueue 6)) (wait_of (LocalQueue 6))"
  have "?R asked_queue (asked_queue\<lparr>qs_now := qs_now asked_queue + 3\<rparr>)"
    by (rule queue_step.tick)
  moreover have "?R (asked_queue\<lparr>qs_now := qs_now asked_queue + 3\<rparr>) served_queue"
    using queue_step.serve [of 0 "asked_queue\<lparr>qs_now := qs_now asked_queue + 3\<rparr>" "bucket_of (LocalQueue 6)" "wait_of (LocalQueue 6)"]
    by (simp add: asked_queue_def served_queue_def on_bucket_def waiter_recv_def wait_of_def demo_request_def)
  ultimately show ?thesis
    using asked_reached unfolding queue_reached_def by (meson rtranclp.rtrancl_into_rtrancl)
qed

theorem queue_fifo_witness:
  "served_requests (qs_buckets served_queue ! 0) @ bk_pending (qs_buckets served_queue ! 0) =
    filter (\<lambda>r. bucket_of (LocalQueue 6) (rq_shard r) = Ok 0) (qs_asked served_queue)"
  using queue_fifo [OF served_reached, of 0] by (simp add: bucket_count_def)

theorem queue_rate_witness:
  "length (filter (\<lambda>t. 1 \<le> t \<and> t < 1 + wait_of (LocalQueue 6))
    (concat (map served_times (qs_buckets served_queue)))) \<le> 1"
  using queue_rate [OF served_reached, of 1] by (simp add: bucket_count_def)

lemma queue_earliest_witness:
  "rq_time (served_requests (qs_buckets served_queue ! 0) ! 0) \<le> served_times (qs_buckets served_queue ! 0) ! 0"
  using queue_earliest [OF served_reached, of 0 0 0]
  by (simp add: bucket_count_def served_queue_def)

theorem queue_progress_witness:
  "\<exists>s'. queue_reaches (bucket_of (LocalQueue 6)) (wait_of (LocalQueue 6)) asked_queue s' \<and>
    qs_now s' \<le> 6000 \<and> bk_served (qs_buckets s' ! 0) = [(qs_now s', demo_request, True)]"
  using queue_progress [OF asked_reached, of 0 demo_request "[]"]
  by (simp add: bucket_count_def asked_queue_def wait_of_def demo_request_def) blast

section \<open>Event handlers\<close>

text \<open>The runtime of the examples, but stored documents parse as objects.\<close>

definition object_runtime :: runtime where
  "object_runtime = demo_runtime\<lparr>de_value := (\<lambda>s. Inr (JObject [(''name'', JString s)]))\<rparr>"

definition demo_outside :: outside where
  "demo_outside = \<lparr>ou_unwinds = True, ou_embed_ok = (\<lambda>_. True), ou_post = (\<lambda>_ _. None),
     ou_publish = (\<lambda>_ _ _. None), ou_session = (\<lambda>_. None),
     ou_has_shard = (\<lambda>i s. if i = 0 then s \<le> 2 else i = 1 \<and> 3 \<le> s \<and> s \<le> 4),
     ou_send = (\<lambda>_ _ _. None)\<rparr>"

lemma object_order: "visits_once (hash_order object_runtime)"
  by (simp add: object_runtime_def demo_order)

lemma object_serde: "serde_ok object_runtime"
  by (simp add: serde_ok_def parses_def object_runtime_def demo_runtime_def)

lemma object_clock: "clock_total object_runtime ttl"
  by (simp add: clock_total_def object_runtime_def demo_runtime_def ser_datetime_def)

lemma object_runtime_ok: "runtime_ok C object_runtime"
  by (simp add: runtime_ok_def object_order object_serde object_clock)

lemma object_guilds: "guild_objects object_runtime"
  by (simp add: guild_objects_def object_runtime_def)

lemma object_docs: "docs object_runtime demo_db"
  using demo_docs by (simp add: docs_def doc_of_def object_runtime_def)

lemma demo_no_guild: "demo_db (guild_key g) = None"
proof -
  have "guild_key g \<noteq> private_channel_key 7" "guild_key g \<noteq> role_key 1 8" "guild_key g \<noteq> member_key 1 5"
      "guild_key g \<noteq> message_key 7 3"
    by (rule kinds_apart, simp)+
  moreover have "storage_key (guild_channel_key 1 7) = private_channel_key 7"
      "storage_key (role_key 1 8) = role_key 1 8" "storage_key (member_key 1 5) = member_key 1 5"
      "storage_key (message_key 7 3) = message_key 7 3"
    by (rule parts_of_inj, simp add: parts_storage_key key_simps)+
  ultimately show ?thesis
    by (simp add: demo_db_def demo_objects_def put_one_object)
qed

lemma guild_join_counted_witness:
  "\<exists>es ks. run (ref_server 0) (one_event demo_config object_runtime demo_outside 1 0 (GuildCreate (demo_guild 1))) demo_db =
      (Ok es, ks) \<and> counted GUILD_EVENTS [''Join''] es = 1"
  using guild_join_counted [where view = "\<lambda>ks. ks", OF ref_server_up object_runtime_ok object_guilds demo_inv object_docs,
      of demo_config demo_outside 1 0 "demo_guild 1"]
  by (simp add: cached_value_def string_at_def demo_no_guild)


theorem outage_counts_join_witness:
  "\<exists>es ks. run (ref_server 0) (one_by_one demo_config object_runtime demo_outside 1
      [(0, GuildDelete (gd_id (demo_guild 1)) True), (0, GuildCreate (demo_guild 1))]) demo_db = (Ok es, ks) \<and>
    counted GUILD_EVENTS [''Leave''] es = 0 \<and> counted GUILD_EVENTS [''Join''] es = 1"
  by (rule outage_counts_join [where view = "\<lambda>ks. ks", OF ref_server_up object_runtime_ok object_guilds demo_inv object_docs])

section \<open>Deliveries\<close>

definition demo_clusters :: "(cluster_scheme \<times> cluster_scheme) list" where
  "demo_clusters = (let s = (\<lambda>a b. \<lparr>cs_from = a, cs_to = b, cs_total = 5, cs_resumes = []\<rparr>)
     in [(s 0 2, s 0 2), (s 3 4, s 3 4)])"

lemma demo_built:
  "build_clusters True demo_gateway demo_config [] =
     Ok (demo_clusters, \<lparr>ci_clusters = 2, ci_shards = 5, ci_resumes = 0\<rparr>)"
proof -
  have two: "build_loop k G C rs base extra 2 i l = build_loop k G C rs base extra (Suc (Suc 0)) i l"
    for k and G :: "cluster_scheme gateway" and C rs base extra i l
    by (simp only: numeral_2_eq_2)
  show ?thesis
    by (simp add: build_clusters_def shard_count_def sub_u64_def add_u64_def checked_def div_u64_def
        rem_u64_def range_end_def build_cluster_def demo_gateway_def demo_config_def demo_clusters_def
        Let_def two)
qed

lemma demo_length: "length demo_clusters = 2"
  by (simp add: demo_clusters_def Let_def)

lemma demo_ranges: "knows_ranges demo_outside demo_clusters"
proof -
  have "s \<le> 2 \<longleftrightarrow> unat s < 3" "3 \<le> s \<and> s \<le> 4 \<longleftrightarrow> 3 \<le> unat s \<and> unat s < 5" for s :: u64
    by (auto simp: word_le_nat_alt)
  then show ?thesis
    by (auto simp: knows_ranges_def demo_clusters_def demo_outside_def range_shards_def less_Suc_eq Let_def)
qed

theorem deliveries_routed_witness:
  "\<exists>i es. handle_delivery demo_runtime demo_outside 2 (Inr (9, (doc_text ''hi'' 3))) =
      Ok (Ack 9 # Command i 3 (doc_text ''hi'' 3) # es) \<and> commands es = [] \<and> i < 2 \<and>
    (\<forall>j < 2. ou_has_shard demo_outside j 3 \<longleftrightarrow> j = i)"
proof -
  let ?p = "\<lparr>di_op = Send, di_shard = 3, di_data = Some (JString (doc_text ''hi'' 3))\<rparr>"
  have "doc_id (doc_text ''hi'' 3) = 3" "doc_text ''hi'' 3 \<noteq> []"
    using doc_id_text [of "''hi''" 3] by (simp_all add: is_digit_def doc_text_def)
  then have p: "de_delivery demo_runtime (doc_text ''hi'' 3) = Inr ?p"
    by (simp add: demo_runtime_def)
  have body: "command_body demo_runtime ?p = (doc_text ''hi'' 3)"
    by (simp add: demo_runtime_def command_body_def)
  have "di_op ?p = Send" "shards_start demo_config \<le> di_shard ?p" "di_shard ?p \<le> shards_end demo_config"
    by (simp_all add: demo_config_def)
  note routed = deliveries_routed [OF demo_shards demo_build demo_built demo_ranges p this, of 9]
  have "di_shard ?p = 3"
    by simp
  then show ?thesis
    using routed unfolding demo_length body by (simp only:)
qed

section \<open>From the gateway to the queue\<close>

definition demo_broker :: "broker_state broker" where
  "demo_broker c b = (Inr (), amqp_effect (\<lambda>_ _. False) c b)"

definition no_queues :: broker_state where
  "no_queues = \<lparr>bs_exchanges = {}, bs_queues = Map.empty, bs_bindings = {}\<rparr>"

lemma demo_broker_contract: "broker_contract (\<lambda>_ _. False) demo_broker (\<lambda>b. b)"
  by (simp add: broker_contract_def demo_broker_def)

lemma demo_sends: "\<exists>b'. send_all demo_broker cs b = (Ok (), b')"
  by (induction cs arbitrary: b) (auto simp: demo_broker_def)

section \<open>Metrics\<close>

theorem state_gauges_exact_witness:
  "\<exists>gs ks. run (ref_server 0) (metrics_job demo_runtime []) demo_db = (Ok gs, ks) \<and>
    gauges_of ''state_members'' gs = [([], sint (of_nat (card (stored demo_db MEMBER_KEY)) :: u64))]"
  using state_gauges_exact [where view = "\<lambda>ks. ks", OF ref_server_up demo_inv, of demo_runtime "[]"] by force

lemma demo_stage_names: "inj (stage_name demo_runtime)"
proof (rule injI)
  show "stage_name demo_runtime x = stage_name demo_runtime y \<Longrightarrow> x = y" for x y
    by (cases x; cases y) (simp_all add: demo_runtime_def)
qed

definition demo_shard :: shard_info where
  "demo_shard = \<lparr>sh_stage = Connected, sh_recent = [40], sh_received = Some 5, sh_session_id = Some ''abc'', sh_seq = 9\<rparr>"

lemma status_gauges_sum_witness:
  "\<exists>gs ks. run (ref_server 0) (metrics_job demo_runtime [[(0, Some demo_shard), (1, None)]]) demo_db = (Ok gs, ks) \<and>
    (\<Sum>(ls, n)\<leftarrow>gauges_of ''gateway_statuses'' gs. n) = 1 \<and> gauges_of ''gateway_shards'' gs = [([], 2)]"
proof -
  have "achieves True (metrics_job demo_runtime [[(0, Some demo_shard), (1, None)]]) (\<lambda>_ _. True) demo_db"
    unfolding metrics_job_def Let_def case_prod_beta
    by (intro achieves_then_up achieves_stats demo_inv) (simp_all add: achieves_Ok)
  then obtain gs ks where "run (ref_server 0) (metrics_job demo_runtime [[(0, Some demo_shard), (1, None)]]) demo_db = (Ok gs, ks)"
    by (metis ref_run)
  with status_gauges_sum [OF demo_stage_names this] show ?thesis
    by auto
qed

section \<open>Configuration\<close>

definition demo_number :: "u64 in_place" where
  "demo_number s = (case parse_u64 s of Some n \<Rightarrow> (Inr n, s) | None \<Rightarrow> (Inl ''not a number'', s))"

definition demo_parsers :: parsers where
  "demo_parsers = \<lparr>pa_u64 = demo_number,
     pa_bool = (\<lambda>s. (if s = ''true'' then Inr True else if s = ''false'' then Inr False else Inl ''not a boolean'', s)),
     pa_status = (\<lambda>s. (if take 1 s = [CHR 0x22] then Inr (butlast (drop 1 s)) else Inl ''not a string'', s)),
     pa_activity = demo_number\<rparr>"

lemma demo_json_parsers: "json_parsers demo_parsers"
  by (auto simp: json_parsers_def demo_parsers_def demo_number_def parse_show_u64 show_flag_def
      status_names_def quoted_def)

theorem config_roundtrip_witness: "load_config (env_of demo_config) demo_parsers = Ok demo_config"
proof -
  have "status demo_config \<in> set status_names" "activity_type demo_config \<le> 5"
    by (simp_all add: demo_config_def status_names_def)
  then show ?thesis
    by (rule config_roundtrip [OF demo_json_parsers])
qed

section \<open>Sessions\<close>

text \<open>A map of sessions is serialised as the number of its list.\<close>

definition session_runtime :: runtime where
  "session_runtime = demo_runtime\<lparr>
     ser_sessions := (\<lambda>ss. Inr (show_nat (to_nat
       (map (\<lambda>(k, s). (k, si_session_id s, unat (si_sequence s))) ss)))),
     de_sessions := (\<lambda>t. Inr (map (\<lambda>(k, i, n). (k, \<lparr>si_session_id = i, si_sequence = of_nat n\<rparr>))
       (from_nat (dec_val 0 t))))\<rparr>"

lemma session_serde: "resume_serde session_runtime"
proof -
  have "map (\<lambda>(k, i, n). (k, \<lparr>si_session_id = i, si_sequence = of_nat n :: u64\<rparr>))
      (map (\<lambda>(k, s). (k, si_session_id s, unat (si_sequence s))) ss) = ss" for ss :: "(string \<times> session_info) list"
    by (induction ss) auto
  then have "\<exists>s. ser_sessions session_runtime ss = Inr s \<and> de_sessions session_runtime s = Inr ss" for ss
    by (simp add: session_runtime_def dec_val_show_nat del: map_map)
  moreover have "\<exists>s. ser_u64 session_runtime n = Inr s \<and> de_u64 session_runtime s = Inr n" for n
    by (simp add: session_runtime_def demo_runtime_def parse_show_u64)
  ultimately show ?thesis
    unfolding resume_serde_def by blast
qed

lemma session_order: "visits_once (hash_order session_runtime)"
  by (simp add: session_runtime_def demo_order)

lemma demo_resume: "resume demo_config"
  by (simp add: demo_config_def)

theorem sessions_resumed_witness:
  "\<exists>ks rs. run (ref_server 0) (and_then (cache_set session_runtime (ser_u64 session_runtime) SHARDS_KEY (shards_total demo_config)) (\<lambda>_.
      and_then (stop_service session_runtime [[(0, \<lparr>si_session_id = ''abc'', si_sequence = 9\<rparr>)], []]) (\<lambda>_.
        get_resumes demo_config session_runtime))) demo_db = (Ok rs, ks) \<and>
    map_of rs 0 = Some \<lparr>si_session_id = ''abc'', si_sequence = 9\<rparr> \<and> map_of rs 1 = None"
  using sessions_resumed [where view = "\<lambda>ks. ks", OF ref_server_up session_order demo_inv session_serde demo_resume,
      of "[[(0, \<lparr>si_session_id = ''abc'', si_sequence = 9\<rparr>)], []]"]
  by fastforce

theorem crash_resumes_witness:
  "\<exists>ks rs. run (ref_server 0) (and_then (cache_set session_runtime (ser_u64 session_runtime) SHARDS_KEY (shards_total demo_config)) (\<lambda>_.
      and_then (cache_job session_runtime [([], [(1, demo_shard\<lparr>sh_session_id := None\<rparr>)])]) (\<lambda>_.
        get_resumes demo_config session_runtime))) demo_db = (Ok rs, ks) \<and>
    map_of rs 1 = Some \<lparr>si_session_id = '''', si_sequence = 9\<rparr>"
proof -
  have "\<exists>s. ser_statuses session_runtime x = Inr s" "\<exists>s. ser_sessions session_runtime y = Inr s" for x y
    by (simp_all add: session_runtime_def demo_runtime_def)
  moreover have "\<forall>(first, second) \<in> set [([], [(1, demo_shard\<lparr>sh_session_id := None\<rparr>)])]. dates_ok session_runtime first"
    by (simp add: dates_ok_def)
  ultimately obtain ks rs where "run (ref_server 0) (and_then (cache_set session_runtime (ser_u64 session_runtime) SHARDS_KEY (shards_total demo_config)) (\<lambda>_.
      and_then (cache_job session_runtime [([], [(1, demo_shard\<lparr>sh_session_id := None\<rparr>)])]) (\<lambda>_.
        get_resumes demo_config session_runtime))) demo_db = (Ok rs, ks)"
      "\<forall>n. map_of rs n = map_option session_of (map_of (rev (concat (map snd
        [([] :: snapshot, [(1, demo_shard\<lparr>sh_session_id := None\<rparr>)])]))) n)"
    using crash_resumes [where view = "\<lambda>ks. ks", OF ref_server_up session_order demo_inv session_serde demo_resume]
    by blast
  then show ?thesis
    by (auto simp: session_of_def demo_shard_def)
qed

end
