(* ===== verification/ServiceSafe.thy ===== *)
theory ServiceSafe
  imports Service
begin

text \<open>
  What holds in every reachable state of the service, whatever the schedule and the answers of
  Redis: the keys of the cache keep their types and disabled kinds stay out; the publications so
  far and those that the unfinished tasks owe are the payloads received; the acknowledgements are
  those of the deliveries consumed; the values of all metrics fit their labels.
\<close>

section \<open>The results of a task\<close>

text \<open>\<open>returns Q t\<close>: whatever the replies, \<open>t\<close> ends in a result with \<open>Q\<close>.\<close>

primrec returns :: "('a res \<Rightarrow> bool) \<Rightarrow> 'a task \<Rightarrow> bool" where
  "returns Q (Done r) = Q r"
| "returns Q (ReadString k c) = (\<forall>r. returns Q (c r))"
| "returns Q (ReadStrings ks c) = (\<forall>r. returns Q (c r))"
| "returns Q (ReadMembers k c) = (\<forall>r. returns Q (c r))"
| "returns Q (ReadCard k c) = (\<forall>r. returns Q (c r))"
| "returns Q (ReadHash k c) = (\<forall>r. returns Q (c r))"
| "returns Q (Write x c) = (\<forall>r. returns Q (c r))"
| "returns Q (Now c) = (\<forall>t. returns Q (c t))"

lemma returns_step: "returns Q t \<Longrightarrow> step_task S t w = Some (t', w') \<Longrightarrow> returns Q t'"
  by (cases t) (auto split: prod.splits)

lemma returns_mono: "returns Q t \<Longrightarrow> (\<And>r. Q r \<Longrightarrow> Q' r) \<Longrightarrow> returns Q' t"
  by (induction t) auto

lemma returns_any [simp]: "returns (\<lambda>_. True) t"
  by (induction t) auto

lemma returns_then_result:
  "returns Q (then_result t f) =
     returns (\<lambda>r. case r of Ok a \<Rightarrow> returns Q (f (Inr a)) | Err e \<Rightarrow> returns Q (f (Inl e)) | Panic m \<Rightarrow> Q (Panic m)) t"
  by (induction t) (auto split: res.split)

lemma returns_and_then:
  "returns Q (and_then t f) =
     returns (\<lambda>r. case r of Ok a \<Rightarrow> returns Q (f a) | Err e \<Rightarrow> Q (Err e) | Panic m \<Rightarrow> Q (Panic m)) t"
  by (simp add: and_then_def returns_then_result cong: res.case_cong)

lemma returns_spawned_task:
  "returns Q (spawned_task E t) = returns (\<lambda>r. Q (task_result E r)) t"
  by (induction t) auto

section \<open>What each task does to the outside\<close>

text \<open>The payloads that a task is to publish.\<close>

fun owed :: "runtime \<Rightarrow> role \<Rightarrow> (string \<times> string \<times> string) multiset" where
  "owed R (OutgoingLoop i shard ev) = mset (published R ev)"
| "owed R (EventTask shard ev) = mset (published R ev)"
| "owed R _ = {#}"

definition tame :: "effect list \<Rightarrow> bool" where
  "tame es \<longleftrightarrow> acks es = [] \<and> list_all effect_labelled es"

lemma tame_simps [simp]:
  "tame []" "tame (xs @ ys) \<longleftrightarrow> tame xs \<and> tame ys"
  by (auto simp: tame_def)

fun finished :: "runtime \<Rightarrow> role \<Rightarrow> effect list res \<Rightarrow> bool" where
  "finished R (EventTask shard ev) (Ok es) \<longleftrightarrow> tame es \<and> publications es = published R ev"
| "finished R (OutgoingLoop i shard ev) (Panic m) \<longleftrightarrow> published R ev = []"
| "finished R (EventTask shard ev) (Panic m) \<longleftrightarrow> published R ev = []"
| "finished R r (Ok es) \<longleftrightarrow> tame es \<and> publications es = []"
| "finished R r (Panic m) \<longleftrightarrow> True"
| "finished R r (Err e) \<longleftrightarrow> False"

lemma tame_post [simp]: "tame (post_embed E chan e)"
  by (auto simp: post_embed_def tame_def split: option.split)

lemma tame_log [simp]: "tame (log_discord C E color m)" "tame (log_discord_guild C E color t m)"
  by (simp_all add: log_discord_def log_discord_guild_def)

lemma tame_Cons: "tame (e # es) \<longleftrightarrow> acks [e] = [] \<and> effect_labelled e \<and> tame es"
  by (cases e) (auto simp: tame_def)

lemma tame_react: "tame (react C R E shard old ev)"
  by (cases ev) (auto simp: react_resumed_def react_disconnected_def react_guild_create_def
      react_guild_delete_def react_payload_def tame_Cons GUILD_EVENTS_def SHARD_EVENTS_def
      GATEWAY_EVENTS_def labelled_simps split: json.split option.split sum.split)

lemma event_finishes: "returns (finished R (EventTask shard ev)) (spawned_task E (handle_event C R E b shard ev))"
proof -
  let ?Q = "\<lambda>r. case r of Ok a \<Rightarrow> finished R (EventTask shard ev) (Ok a) \<and> (is_payload ev \<longrightarrow> \<not> crashed a)
      | Err e \<Rightarrow> False | Panic m \<Rightarrow> \<not> is_payload ev"
  have none: "published R ev = []" if "\<not> is_payload ev"
    using that by (cases ev) auto
  have "returns ?Q (handle_event C R E b shard ev)"
    by (auto simp: handle_event_def returns_and_then returns_then_result tame_react update_failed_def
        tame_Cons react_published react_calm intro!: returns_mono [OF returns_any] react_published split: res.split)
  moreover have "finished R (EventTask shard ev) (task_result E r)" if "?Q r" for r
    using that none abort_of_crashed
    by (cases r) (auto simp: tame_Cons split: option.split, force+)
  ultimately show ?thesis
    unfolding returns_spawned_task by (rule returns_mono)
qed

lemma loop_finishes: "returns (finished R (OutgoingLoop i shard ev)) (update_at_once C R E b shard ev)"
  by (cases ev) (auto simp: update_at_once_def returns_then_result tame_Cons update_failed_def
      intro!: returns_mono [OF returns_any] split: res.split)

text \<open>The jobs catch every error: an iteration ends in \<open>Ok\<close> or panics.\<close>

abbreviation no_err :: "'a res \<Rightarrow> bool" where
  "no_err r \<equiv> \<forall>e. r \<noteq> Err e"

lemma returns_then_ok:
  assumes "\<And>r. returns no_err (f r)"
  shows "returns no_err (then_result t f)"
  unfolding returns_then_result using assms by (intro returns_mono [OF returns_any]) (auto split: res.split)

lemma returns_and_ok:
  assumes "returns no_err t" "\<And>a. returns no_err (f a)"
  shows "returns no_err (and_then t f)"
  unfolding returns_and_then using assms by (auto elim!: returns_mono split: res.split)

lemma returns_now [simp]: "returns no_err now"
  by (simp add: now_def)

lemma cache_job_no_err: "returns no_err (cache_job R infos)"
proof -
  have "returns no_err (status_of R shard i)" for shard i
    by (auto simp: status_of_def intro!: returns_and_ok split: option.split)
  then have "returns no_err (statuses_of R snap)" for snap
    by (induction R snap rule: statuses_of.induct) (auto intro!: returns_and_ok)
  then have collect: "returns no_err (collect_infos R infos sts ss)" for sts ss
    by (induction R infos sts ss rule: collect_infos.induct) (auto intro!: returns_and_ok)
  have "returns no_err (expired_keys R fvs)" for fvs
    by (induction R fvs rule: expired_keys.induct) (auto intro!: returns_and_ok split: sum.split)
  then have "returns no_err (expire_job R)"
    by (auto simp: expire_job_def intro!: returns_then_ok returns_and_ok split: sum.split)
  then show ?thesis
    unfolding cache_job_def by (auto intro!: returns_and_ok collect returns_then_ok)
qed

lemma cache_finishes: "returns (finished R CacheJob) (cache_iteration R infos)"
  unfolding cache_iteration_def returns_and_then
  by (rule returns_mono [OF cache_job_no_err]) (auto split: res.split)

lemma tame_gauges:
  "tame (map SetGauge gs) \<longleftrightarrow> (\<forall>g \<in> set gs. effect_labelled (SetGauge g))"
  "publications (map SetGauge gs) = []"
  by (induction gs) (auto simp: tame_Cons)

lemma metrics_finishes: "returns (finished R MetricsJob) (metrics_iteration R infos)"
proof -
  have latency: "\<forall>g \<in> set (fst (shard_gauges R shards m)). effect_labelled (SetGauge g)" for shards m
    by (induction R shards m rule: shard_gauges.induct) (auto simp: case_prod_beta labelled_simps)
  let ?Q = "\<lambda>r. case r of Ok gs \<Rightarrow> \<forall>g \<in> set gs. effect_labelled (SetGauge g) | Err e \<Rightarrow> False | Panic m \<Rightarrow> True"
  have "returns ?Q (metrics_job R infos)"
    using latency
    by (auto simp: metrics_job_def Let_def case_prod_beta returns_then_result stats_gauges_def labelled_simps
        intro!: returns_mono [OF returns_any] split: res.split)
  then show ?thesis
    unfolding metrics_iteration_def returns_and_then
    by (auto elim!: returns_mono simp: tame_gauges split: res.splits)
qed

section \<open>The store\<close>

fun phase_writes :: "(redis_write \<Rightarrow> bool) \<Rightarrow> 'c phase \<Rightarrow> bool" where
  "phase_writes P (Starting t) = writes_only P t"
| "phase_writes P (Stopping t) = writes_only P t"
| "phase_writes P _ = True"

definition store_inv :: "('c, 'w) host \<Rightarrow> ('w \<Rightarrow> keyspace) \<Rightarrow> ('c, 'w) service \<Rightarrow> bool" where
  "store_inv H view s \<longleftrightarrow>
     (let P = safe_write (ho_config H) (sv_bot s) in
      phase_writes P (sv_phase s) \<and> (\<forall>(r, t) \<in># sv_procs s. writes_only P t) \<and>
      pool_inv (ho_config H) (sv_bot s) (view (sv_world s)))"

lemma start_plain: "storable C b STARTED_KEY" "storable C b SHARDS_KEY"
  using start_keys(1,2) by (auto simp: storable_def cached_def kind_of_single kinds_def kind_defs plain_defs)

lemma writes_start:
  "visits_once (hash_order R) \<Longrightarrow> writes_only (safe_write C b) (start_service checks G C R)"
  by (auto simp: start_service_def get_clusters_def get_resumes_def set_started_def
      intro!: writes_intros writes_cache_set start_plain split: prod.split option.split)

lemma writes_stop: "visits_once (hash_order R) \<Longrightarrow> writes_only (safe_write C b) (stop_service R dumps)"
  unfolding stop_service_def by (intro writes_cache_set storable_plain)

lemma writes_jobs:
  "visits_once (hash_order R) \<Longrightarrow> writes_only (safe_write C b) (cache_iteration R infos)"
  "writes_only P (metrics_iteration R shards)"
proof -
  show "visits_once (hash_order R) \<Longrightarrow> writes_only (safe_write C b) (cache_iteration R infos)"
    unfolding cache_iteration_def by (intro writes_intros writes_cache_job)
  show "writes_only P (metrics_iteration R shards)"
    by (auto simp: metrics_iteration_def metrics_job_def get_state_stats_def Let_def case_prod_beta
        intro!: writes_intros)
qed

lemma writes_events:
  assumes "visits_once (hash_order R)"
  shows "writes_only (safe_write C b) (spawned_task E (handle_event C R E b shard ev))"
    and "writes_only (safe_write C b) (update_at_once C R E b shard ev)"
  unfolding handle_event_def update_at_once_def
  by (auto intro!: writes_intros writes_update [OF assms] split: sum.split prod.split)

lemma sv_logs [simp]:
  "sv_phase (logs es s) = sv_phase s" "sv_bot (logs es s) = sv_bot s" "sv_procs (logs es s) = sv_procs s"
  "sv_world (logs es s) = sv_world s" "sv_log (logs es s) = sv_log s @ es"
  "sv_received (logs es s) = sv_received s" "sv_consumed (logs es s) = sv_consumed s"
  "sv_clusters (logs es s) = sv_clusters s"
  by (simp_all add: logs_def)

lemma sv_panics [simp]:
  "sv_bot (panics H m s) = sv_bot s" "sv_procs (panics H m s) = sv_procs s"
  "sv_world (panics H m s) = sv_world s" "sv_log (panics H m s) = sv_log s @ [Aborted m]"
  "sv_received (panics H m s) = sv_received s" "sv_consumed (panics H m s) = sv_consumed s"
  "sv_clusters (panics H m s) = sv_clusters s"
  "phase_writes P (sv_phase s) \<Longrightarrow> phase_writes P (sv_phase (panics H m s))"
  by (simp_all add: panics_def)

lemma store_inv_proc:
  assumes "redis_contract False (ho_server H) view" "visits_once (hash_order (ho_runtime H))"
    and "proc_step H s s'" "store_inv H view s"
  shows "store_inv H view s'"
  using assms(3)
proof cases
  case (command r t ps t' w)
  then show ?thesis
    using assms(4) step_safe [OF assms(1) command(4)] by (auto simp: store_inv_def Let_def)
next
  case (finish r x ps)
  then show ?thesis
    using assms(4) writes_events [OF assms(2)]
    by (cases "(H, r, x, s\<lparr>sv_procs := ps\<rparr>)" rule: finish_proc.cases) (auto simp: store_inv_def Let_def)
qed

lemma store_inv_env:
  assumes "redis_contract False (ho_server H) view" "visits_once (hash_order (ho_runtime H))"
    and "env_step H s s'" "store_inv H view s"
  shows "store_inv H view s'"
  using assms(3)
proof cases
  case (start_command t t' w)
  then show ?thesis
    using assms(4) step_safe [OF assms(1) start_command(3)] by (auto simp: store_inv_def Let_def)
next
  case (stop_command t t' w)
  then show ?thesis
    using assms(4) step_safe [OF assms(1) stop_command(3)] by (auto simp: store_inv_def Let_def)
qed (use assms(4) writes_events [OF assms(2)] writes_jobs writes_stop [OF assms(2)] in
    \<open>auto simp: store_inv_def Let_def main_ends_def receive_event_def begin_job_def consume_delivery_def
      writes_jobs(1) [OF assms(2)] split: res.split\<close>)

lemma bot_steps: "service_step H s s' \<Longrightarrow> sv_bot s' = sv_bot s"
proof -
  have "sv_bot (finish_proc H r x s) = sv_bot s" for r x s
    by (cases "(H, r, x, s)" rule: finish_proc.cases) auto
  then show "service_step H s s' \<Longrightarrow> sv_bot s' = sv_bot s"
    unfolding service_step_def
    by (auto elim!: proc_step.cases env_step.cases simp: main_ends_def receive_event_def begin_job_def
        consume_delivery_def Let_def split: res.splits)
qed

lemma store_inv_launch:
  assumes "visits_once (hash_order (ho_runtime H))" "well_typed (view w)"
    and "only_enabled (ho_config H) (sv_bot (fst (launch H B b w))) (view w)"
  shows "store_inv H view (fst (launch H B b w))"
  using assms writes_start [OF assms(1)]
  by (auto simp: store_inv_def pool_inv_def launch_def main_ends_def Let_def split: prod.splits res.splits)

lemma store_inv_reaches:
  assumes "redis_contract False (ho_server H) view" "visits_once (hash_order (ho_runtime H))"
    and "service_reaches H s s'" "store_inv H view s"
  shows "store_inv H view s' \<and> sv_bot s' = sv_bot s"
  using assms(3,4)
proof (induction rule: rtranclp_induct)
  case (step s1 s2)
  then show ?case
    using store_inv_proc [OF assms(1,2)] store_inv_env [OF assms(1,2)] bot_steps
    by (metis service_step_def)
qed simp

text \<open>
  C3: launched on a store in which every key of the cache has the type that its name fixes and no
  object of a disabled kind is stored (an empty one, for example), the service keeps both in every
  reachable state, with any events, deliveries, iterations of the jobs and answers of Redis in any
  order. The members of the bot itself are exempt: they are stored also with \<open>STATE_MEMBER\<close> off.
\<close>

theorem service_safe:
  assumes "redis_contract False (ho_server H) view" "visits_once (hash_order (ho_runtime H))"
    and "well_typed (view w)" "only_enabled (ho_config H) (sv_bot (fst (launch H B b w))) (view w)"
    and "service_reaches H (fst (launch H B b w)) s"
  shows "well_typed (view (sv_world s)) \<and> only_enabled (ho_config H) (sv_bot s) (view (sv_world s))"
  using store_inv_reaches [OF assms(1,2,5) store_inv_launch [where view = view and w = w, OF assms(2,3,4)]]
  unfolding store_inv_def pool_inv_def Let_def by blast

section \<open>The effects\<close>

definition work_inv :: "('c, 'w) host \<Rightarrow> ('c, 'w) service \<Rightarrow> bool" where
  "work_inv H s \<longleftrightarrow>
     (let R = ho_runtime H in
      (\<forall>(r, t) \<in># sv_procs s. returns (finished R r) t) \<and>
      mset (publications (sv_log s)) + (\<Sum>(r, t) \<in># sv_procs s. owed R r) =
        mset (concat (map (published R \<circ> snd) (sv_received s))) \<and>
      acks (sv_log s) = tags (sv_consumed s) \<and> list_all effect_labelled (sv_log s))"

lemma tags_snoc: "tags (ds @ [d]) = tags ds @ (case d of Inl _ \<Rightarrow> [] | Inr (tag, data) \<Rightarrow> [tag])"
  by (induction ds rule: tags.induct) (auto split: sum.split)

lemma owed_jobs:
  "(\<Sum>(r, t) \<in># filter_mset (\<lambda>(r, t). r \<noteq> CacheJob \<and> r \<noteq> MetricsJob) ps. owed R r) = (\<Sum>(r, t) \<in># ps. owed R r)"
proof (induction ps)
  case (add p ps)
  then show ?case
    by (cases p; cases "fst p") auto
qed simp

lemma work_inv_proc:
  assumes "proc_step H s s'" "work_inv H s"
  shows "work_inv H s'"
  using assms(1)
proof cases
  case (command r t ps t' w)
  then show ?thesis
    using assms(2) returns_step by (fastforce simp: work_inv_def Let_def)
next
  case (finish r x ps)
  then show ?thesis
    using assms(2) event_finishes [of "ho_runtime H"] owed_jobs [of "ho_runtime H" ps]
    by (cases "(H, r, x, s\<lparr>sv_procs := ps\<rparr>)" rule: finish_proc.cases)
      (auto simp: work_inv_def Let_def tame_def ac_simps)
qed

lemma delivered:
  "\<exists>es. handle_delivery R E n d = Ok es \<and> publications es = [] \<and> list_all effect_labelled es \<and>
    acks es = (case d of Inl _ \<Rightarrow> [] | Inr (tag, data) \<Rightarrow> [tag])"
proof -
  obtain es where es: "handle_delivery R E n d = Ok es" "acks es = (case d of Inl _ \<Rightarrow> [] | Inr (tag, data) \<Rightarrow> [tag])"
    using handle_delivery_ok by blast
  have payload: "publications es' = [] \<and> list_all effect_labelled es'" if "deliver_payload R E n p = Ok es'" for p es'
    using that by (auto simp: deliver_payload_def Let_def split: option.splits delivery_opcode.splits if_splits)
  have "publications es = [] \<and> list_all effect_labelled es"
    using es(1)
    by (cases "(R, E, n, d)" rule: handle_delivery.cases)
      (auto simp: bind_res_def dest: payload split: sum.splits res.splits)
  with es show ?thesis
    by blast
qed

lemma work_inv_env:
  assumes "env_step H s s'" "work_inv H s"
  shows "work_inv H s'"
  using assms(1)
proof cases
  case (deliver d)
  obtain es where "handle_delivery (ho_runtime H) (ho_outside H) (sv_clusters s) d = Ok es" "publications es = []"
      "list_all effect_labelled es" "acks es = (case d of Inl _ \<Rightarrow> [] | Inr (tag, data) \<Rightarrow> [tag])"
    using delivered by metis
  then show ?thesis
    using assms(2) deliver(1) by (simp add: work_inv_def consume_delivery_def Let_def tags_snoc)
qed (use assms(2) loop_finishes [of "ho_runtime H"] in
    \<open>auto simp: work_inv_def Let_def main_ends_def receive_event_def begin_job_def cache_finishes
      metrics_finishes ac_simps split: res.split\<close>)

lemma work_inv_reaches:
  assumes "service_reaches H (fst (launch H B b w)) s"
  shows "work_inv H s"
  using assms
proof (induction rule: rtranclp_induct)
  case base
  show ?case
    by (auto simp: launch_def work_inv_def main_ends_def Let_def split: prod.splits res.splits)
next
  case (step s1 s2)
  then show ?case
    using work_inv_proc work_inv_env unfolding service_step_def by blast
qed

text \<open>
  C4: whatever the schedule, the publications so far, with those that the tasks still running owe,
  are as a multiset the payloads with an event name that were received: no event is published
  twice or under another name, and none is lost while the service runs.
\<close>

theorem service_publishes:
  assumes "service_reaches H (fst (launch H B b w)) s"
  shows "mset (publications (sv_log s)) + (\<Sum>(r, t) \<in># sv_procs s. owed (ho_runtime H) r) =
    mset (concat (map (published (ho_runtime H) \<circ> snd) (sv_received s)))"
  using work_inv_reaches [OF assms] by (simp add: work_inv_def Let_def)

lemma log_exchange:
  assumes "service_reaches H (fst (launch H B b w)) s" "p \<in> set (publications (sv_log s))"
  shows "fst p = EXCHANGE"
proof -
  let ?all = "concat (map (published (ho_runtime H) \<circ> snd) (sv_received s))"
  have "mset (publications (sv_log s)) \<subseteq># mset ?all"
    using work_inv_reaches [OF assms(1)] unfolding work_inv_def Let_def by (metis mset_subset_eq_add_left)
  then have "p \<in> set ?all"
    using assms(2) by (metis mset_subset_eqD set_mset_mset)
  then obtain e where "p \<in> set (published (ho_runtime H) (snd e))"
    by auto
  then show ?thesis
    by (rule published_exchange)
qed

text \<open>
  C19: from the gateway to the default queue, under every schedule: once the queues were declared,
  and if the broker accepts the publications so far, \<open>gateway.recv\<close> ends with the messages it
  had and, in the order in which they were published, the publications so far. These, with the ones
  that the unfinished tasks owe, are as a multiset the payloads received that decode and have an
  event name, each under this name: when no task is unfinished, exactly one message for each.
\<close>

theorem service_fills_queue:
  assumes "broker_contract match B bview" "prepare (ho_config H) (ho_boot H) B b = (Ok user, b1)"
    and "default_queue (ho_config H)" "service_reaches H (fst (launch H B b w)) s"
    and "send_all B (publishing (sv_log s)) b1 = (Ok (), b2)"
  shows "\<exists>new. bs_queues (bview b2) QUEUE_RECV = Some (the (bs_queues (bview b1) QUEUE_RECV) @ new) \<and>
    new = map snd (publications (sv_log s)) \<and>
    mset new + image_mset snd (\<Sum>(r, t) \<in># sv_procs s. owed (ho_runtime H) r) =
      mset (map snd (concat (map (published (ho_runtime H) \<circ> snd) (sv_received s))))"
proof -
  have "declare_queues (ho_config H) B b = (Ok (), b1)"
    using assms(2) by (auto simp: prepare_def split: res.splits prod.splits)
  moreover have "\<forall>p \<in> set (publications (sv_log s)). fst p = EXCHANGE"
    using log_exchange [OF assms(4)] by blast
  ultimately have "bs_queues (bview b2) QUEUE_RECV =
      Some (the (bs_queues (bview b1) QUEUE_RECV) @ map snd (publications (sv_log s)))"
    using publications_queued [OF assms(1) _ assms(3) _ assms(5)] by blast
  moreover have "image_mset snd (mset (publications (sv_log s)) + (\<Sum>(r, t) \<in># sv_procs s. owed (ho_runtime H) r)) =
      image_mset snd (mset (concat (map (published (ho_runtime H) \<circ> snd) (sv_received s))))"
    using work_inv_reaches [OF assms(4)] by (simp add: work_inv_def Let_def)
  ultimately show ?thesis
    by simp
qed

text \<open>
  C6: among all the effects of the service, the acknowledgements are those of the deliveries
  consumed, each once and in order, and every counter and gauge is used with as many values as it
  has labels, so that \<open>with_label_values\<close> never panics.
\<close>

theorem service_accounts:
  assumes "service_reaches H (fst (launch H B b w)) s"
  shows "acks (sv_log s) = tags (sv_consumed s) \<and> list_all effect_labelled (sv_log s)"
  using work_inv_reaches [OF assms] by (simp add: work_inv_def Let_def)

end
