(* ===== verification/ServiceEnds.thy ===== *)
theory ServiceEnds
  imports ServiceSafe
begin

text \<open>
  The tasks of the service come to an end. A task is a finite tree of commands whose branching
  is over the replies, so every path is finite but there is no bound; the order that decreases is
  the multiset extension of the order of the subtrees, with the loop of a cluster above the task
  that it spawns.
\<close>

section \<open>The order of the tasks\<close>

inductive subtask :: "'a task \<Rightarrow> 'a task \<Rightarrow> bool" where
  "subtask (c r) (ReadString k c)"
| "subtask (c rs) (ReadStrings ks c)"
| "subtask (c ms) (ReadMembers k c)"
| "subtask (c n) (ReadCard k c)"
| "subtask (c h) (ReadHash k c)"
| "subtask (c u) (Write x c)"
| "subtask (c t) (Now c)"

inductive_cases subtaskE: "subtask t t'"

inductive_simps subtask_simps:
  "subtask t (Done r)" "subtask t (ReadString k c)" "subtask t (ReadStrings ks c)"
  "subtask t (ReadMembers k c)" "subtask t (ReadCard k c)" "subtask t (ReadHash k c)"
  "subtask t (Write x c)" "subtask t (Now c)"

lemma subtask_step: "step_task S t w = Some (t', w') \<Longrightarrow> subtask t' t"
  by (cases t) (auto intro: subtask.intros split: prod.splits)

lemma step_total: "(\<exists>r. t = Done r) \<or> (\<exists>t' w'. step_task S t w = Some (t', w'))"
  by (cases t) (auto split: prod.split)

lemma wf_subtask: "wf {(t, t'). subtask t t'}"
proof (rule wfUNIVI)
  fix P :: "'a task \<Rightarrow> bool" and t
  assume step: "\<forall>t. (\<forall>t'. (t', t) \<in> {(t, t'). subtask t t'} \<longrightarrow> P t') \<longrightarrow> P t"
  show "P t"
    by (induction t) (rule step [rule_format], auto simp: subtask_simps)+
qed

text \<open>The loop of a cluster is followed by the task of its event.\<close>

fun role_rank :: "role \<Rightarrow> nat" where
  "role_rank (OutgoingLoop i shard ev) = 1"
| "role_rank _ = 0"

definition proc_order :: "((role \<times> effect list task) \<times> (role \<times> effect list task)) set" where
  "proc_order = inv_image (less_than <*lex*> {(t, t'). subtask t t'}) (\<lambda>(r, t). (role_rank r, t))"

lemma wf_proc_order: "wf proc_order"
  by (simp add: proc_order_def wf_subtask wf_lex_prod wf_inv_image)

lemma replaced_less: "(p', p) \<in> r \<Longrightarrow> (add_mset p' ps, add_mset p ps) \<in> mult r"
  using one_step_implies_mult [of "{#p#}" "{#p'#}" r ps] by simp

lemma removed_less: "qs \<subseteq># ps \<Longrightarrow> (qs, add_mset p ps) \<in> mult r"
  by (rule subset_implies_mult) (rule subset_mset.le_less_trans, auto)

lemma proc_step_decreases:
  assumes "proc_step H s s'"
  shows "(sv_procs s', sv_procs s) \<in> mult proc_order"
  using assms
proof cases
  case (command r t ps t' w)
  then have "((r, t'), (r, t)) \<in> proc_order"
    using subtask_step by (auto simp: proc_order_def)
  with command show ?thesis
    by (simp add: replaced_less)
next
  case (finish r x ps)
  then show ?thesis
    by (cases "(H, r, x, s\<lparr>sv_procs := ps\<rparr>)" rule: finish_proc.cases)
      (auto simp: proc_order_def intro: replaced_less removed_less)
qed

lemma proc_step_ends: "\<nexists>f. \<forall>n. proc_step H (f n) (f (Suc n))"
proof
  assume "\<exists>f. \<forall>n. proc_step H (f n) (f (Suc n))"
  then obtain f where f: "\<forall>n. proc_step H (f n) (f (Suc n))" ..
  have "\<forall>n. (sv_procs (f (Suc n)), sv_procs (f n)) \<in> mult proc_order"
    using f proc_step_decreases by blast
  then show False
    using wf_mult [OF wf_proc_order, unfolded wf_iff_no_infinite_down_chain] by meson
qed

section \<open>When the tasks have ended\<close>

lemma proc_step_possible:
  assumes "running s" "sv_procs s \<noteq> {#}"
  shows "\<exists>s'. proc_step H s s'"
proof -
  obtain r t ps where "sv_procs s = add_mset (r, t) ps"
    using assms(2) by (metis multiset_cases surj_pair)
  then show ?thesis
    using step_total [of t "ho_server H" "sv_world s"] assms(1) by (metis proc_step.intros)
qed

text \<open>The process is aborted by a panic.\<close>

definition has_aborted :: "('c, 'w) host \<Rightarrow> ('c, 'w) service \<Rightarrow> bool" where
  "has_aborted H s \<longleftrightarrow> \<not> ou_unwinds (ho_outside H) \<and> (\<exists>m. sv_phase s = Ended (Panic m))"

lemma panics_phase: "sv_phase (panics H m s) = sv_phase s \<or> has_aborted H (panics H m s)"
  by (simp add: panics_def has_aborted_def)

lemma proc_step_keeps:
  assumes "proc_step H s s'"
  shows "sv_received s' = sv_received s \<and> (sv_phase s' = sv_phase s \<or> has_aborted H s')"
  using assms
proof cases
  case (finish r x ps)
  then show ?thesis
    by (cases "(H, r, x, s\<lparr>sv_procs := ps\<rparr>)" rule: finish_proc.cases) (auto simp: panics_def has_aborted_def)
qed simp

lemma proc_steps_keep:
  "(proc_step H)\<^sup>*\<^sup>* s s' \<Longrightarrow> sv_received s' = sv_received s \<and> (sv_phase s' = sv_phase s \<or> has_aborted H s')"
proof (induction rule: rtranclp_induct)
  case (step s1 s2)
  have "running s1"
    using step(2) by cases auto
  then have "\<not> has_aborted H s1"
    by (auto simp: running_def has_aborted_def)
  then show ?case
    using step proc_step_keeps [OF step(2)] by auto
qed simp

lemma proc_steps_reach: "(proc_step H)\<^sup>*\<^sup>* s s' \<Longrightarrow> service_reaches H s s'"
  by (induction rule: rtranclp_induct) (auto simp: service_step_def intro: rtranclp.rtrancl_into_rtrancl)

text \<open>
  C5: the service always catches up: from any reachable state the spawned tasks and the jobs that
  run come to an end, whatever the schedule and the answers of Redis, and when no task can go on
  none is left, and every payload received so far has been published, once; only where panics
  abort the process a panic may end it before.
\<close>

theorem service_catches_up:
  assumes "service_reaches H (fst (launch H B b w)) s" "running s"
  shows "(\<nexists>f. f 0 = s \<and> (\<forall>n. proc_step H (f n) (f (Suc n)))) \<and>
    (\<forall>s'. (proc_step H)\<^sup>*\<^sup>* s s' \<and> (\<nexists>s''. proc_step H s' s'') \<longrightarrow>
       has_aborted H s' \<or>
       sv_procs s' = {#} \<and>
       mset (publications (sv_log s')) =
         mset (concat (map (published (ho_runtime H) \<circ> snd) (sv_received s))))"
proof (intro conjI allI impI disjCI)
  show "\<nexists>f. f 0 = s \<and> (\<forall>n. proc_step H (f n) (f (Suc n)))"
    using proc_step_ends by blast
  fix s'
  assume s': "(proc_step H)\<^sup>*\<^sup>* s s' \<and> (\<nexists>s''. proc_step H s' s'')"
  assume "\<not> (sv_procs s' = {#} \<and>
    mset (publications (sv_log s')) = mset (concat (map (published (ho_runtime H) \<circ> snd) (sv_received s))))"
  moreover have "work_inv H s'"
    using s' proc_steps_reach by (intro work_inv_reaches [OF rtranclp_trans [OF assms(1)]]) blast
  moreover have kept: "sv_received s' = sv_received s" "sv_phase s' = sv_phase s \<or> has_aborted H s'"
    using proc_steps_keep [of H s s'] s' by auto
  ultimately have "sv_procs s' \<noteq> {#}"
    by (auto simp: work_inv_def Let_def)
  then have "\<not> running s'"
    using s' proc_step_possible by blast
  then show "has_aborted H s'"
    using kept(2) assms(2) by (auto simp: running_def)
qed

end
