(* ===== verification/ServiceRun.thy ===== *)
theory ServiceRun
  imports ServiceEnds
begin

text \<open>
  Runs of the service: that it starts when the other services answer, and a run in which the
  sessions that the interrupt has stored are overwritten.
\<close>

section \<open>A task that runs alone\<close>

definition task_steps :: "'w server \<Rightarrow> 'a task \<times> 'w \<Rightarrow> 'a task \<times> 'w \<Rightarrow> bool" where
  "task_steps S = (\<lambda>(t, w) (t', w'). step_task S t w = Some (t', w'))\<^sup>*\<^sup>*"

lemma task_steps_first:
  "step_task S t w = Some (t1, w1) \<Longrightarrow> task_steps S (t1, w1) p \<Longrightarrow> task_steps S (t, w) p"
  unfolding task_steps_def by (rule converse_rtranclp_into_rtranclp) auto

lemma task_steps_run: "run S t w = (x, w') \<Longrightarrow> task_steps S (t, w) (Done x, w')"
proof (induction t arbitrary: w)
  case (Done r)
  then show ?case
    by (simp add: task_steps_def)
qed (auto split: prod.splits intro: task_steps_first)

lemma task_steps_lift:
  assumes "run S t w = (x, w')" "\<And>t w t' w'. step_task S t w = Some (t', w') \<Longrightarrow> service_step H (f t w) (f t' w')"
  shows "service_reaches H (f t w) (f (Done x) w')"
proof -
  have "service_reaches H (f t w) (f t' w')" if "task_steps S (t, w) (t', w')" for t' w'
    using that [unfolded task_steps_def]
  proof (induction "(t', w')" arbitrary: t' w' rule: rtranclp_induct)
    case (step p)
    then show ?case
      using assms(2) by (cases p) (auto intro: rtranclp.rtrancl_into_rtrancl)
  qed simp
  then show ?thesis
    using task_steps_run [OF assms(1)] by blast
qed

lemma sv_same:
  "sv_phase s = p \<Longrightarrow> s\<lparr>sv_phase := p\<rparr> = s" "sv_procs s = ps \<Longrightarrow> s\<lparr>sv_procs := ps\<rparr> = s"
  by (cases s, simp)+

lemma start_run:
  assumes "run (ho_server H) t (sv_world s) = (x, w)" "sv_phase s = Starting t"
  shows "service_reaches H s (s\<lparr>sv_phase := Starting (Done x), sv_world := w\<rparr>)"
proof -
  let ?f = "\<lambda>t w. s\<lparr>sv_phase := Starting t, sv_world := w\<rparr>"
  have "service_step H (?f t w) (?f t' w')" if "step_task (ho_server H) t w = Some (t', w')" for t w t' w'
    using env_step.start_command [of "?f t w" t H t' w'] that by (simp add: service_step_def)
  from task_steps_lift [OF assms(1), where f = ?f, OF this] show ?thesis
    by (simp add: sv_same assms(2))
qed

lemma stop_run:
  assumes "run (ho_server H) t (sv_world s) = (x, w)" "sv_phase s = Stopping t"
  shows "service_reaches H s (s\<lparr>sv_phase := Stopping (Done x), sv_world := w\<rparr>)"
proof -
  let ?f = "\<lambda>t w. s\<lparr>sv_phase := Stopping t, sv_world := w\<rparr>"
  have "service_step H (?f t w) (?f t' w')" if "step_task (ho_server H) t w = Some (t', w')" for t w t' w'
    using env_step.stop_command [of "?f t w" t H t' w'] that by (simp add: service_step_def)
  from task_steps_lift [OF assms(1), where f = ?f, OF this] show ?thesis
    by (simp add: sv_same assms(2))
qed

lemma proc_run:
  assumes "run (ho_server H) t (sv_world s) = (x, w)" "sv_procs s = add_mset (r, t) ps" "running s"
  shows "service_reaches H s (s\<lparr>sv_procs := add_mset (r, Done x) ps, sv_world := w\<rparr>)"
proof -
  let ?f = "\<lambda>t w. s\<lparr>sv_procs := add_mset (r, t) ps, sv_world := w\<rparr>"
  have "service_step H (?f t w) (?f t' w')" if "step_task (ho_server H) t w = Some (t', w')" for t w t' w'
    using proc_step.command [of "?f t w" r t ps H t' w'] that assms(3)
    by (simp add: service_step_def running_def)
  from task_steps_lift [OF assms(1), where f = ?f, OF this] show ?thesis
    by (simp add: sv_same assms(2))
qed

section \<open>The start\<close>

lemma connect_run:
  assumes "\<forall>i < sv_clusters s. bt_cluster_conn (ho_boot H) i = Inr ()"
    and "n \<le> sv_clusters s" "sv_phase s = Connecting 0"
  shows "service_reaches H s (s\<lparr>sv_phase := Connecting n, sv_waiting := sv_waiting s \<union> {..<n}\<rparr>)"
  using assms(2)
proof (induction n)
  case 0
  then show ?case
    by (simp add: sv_same assms(3))
next
  case (Suc n)
  let ?s = "s\<lparr>sv_phase := Connecting n, sv_waiting := sv_waiting s \<union> {..<n}\<rparr>"
  have "service_step H ?s (?s\<lparr>sv_phase := Connecting (Suc n), sv_waiting := insert n (sv_waiting ?s)\<rparr>)"
    unfolding service_step_def using Suc.prems assms(1)
    by (intro disjI2 env_step.connected) simp_all
  moreover have "insert n (sv_waiting s \<union> {..<n}) = sv_waiting s \<union> {..<Suc n}"
    by auto
  ultimately show ?case
    using Suc by (simp add: rtranclp.rtrancl_into_rtrancl)
qed

text \<open>The service that waits for events, with \<open>n\<close> clusters and the store \<open>w\<close>.\<close>

definition serving :: "u64 \<Rightarrow> nat \<Rightarrow> 'w \<Rightarrow> ('c, 'w) service" where
  "serving b n w =
     \<lparr>sv_phase = Serving, sv_bot = b, sv_clusters = n, sv_waiting = {..<n}, sv_idle = {CacheJob, MetricsJob},
      sv_incoming = True, sv_procs = {#}, sv_received = [], sv_consumed = [], sv_log = [], sv_world = w\<rparr>"

lemma launch_serves:
  assumes "fst (prepare (ho_config H) (ho_boot H) B b) = Ok user"
    and "run (ho_server H) (start_service (ho_checks H) (ho_gateway H) (ho_config H) (ho_runtime H)) w =
      (Ok (cs, info), w')"
    and "\<forall>i < length cs. bt_cluster_conn (ho_boot H) i = Inr ()"
  shows "service_reaches H (fst (launch H B b w)) (serving (us_id user) (length cs) w')"
proof -
  let ?s = "fst (launch H B b w)"
  let ?start = "start_service (ho_checks H) (ho_gateway H) (ho_config H) (ho_runtime H)"
  have s: "?s = \<lparr>sv_phase = Starting ?start, sv_bot = us_id user, sv_clusters = 0, sv_waiting = {},
      sv_idle = {}, sv_incoming = False, sv_procs = {#}, sv_received = [], sv_consumed = [], sv_log = [],
      sv_world = w\<rparr>"
    using assms(1) by (auto simp: launch_def Let_def split: prod.splits)
  let ?s1 = "?s\<lparr>sv_phase := Starting (Done (Ok (cs, info))), sv_world := w'\<rparr>"
  let ?s2 = "?s1\<lparr>sv_phase := Connecting 0, sv_clusters := length cs, sv_idle := {CacheJob, MetricsJob}\<rparr>"
  let ?s3 = "?s2\<lparr>sv_phase := Connecting (length cs), sv_waiting := sv_waiting ?s2 \<union> {..<length cs}\<rparr>"
  let ?s4 = "?s3\<lparr>sv_phase := Serving, sv_incoming := True\<rparr>"
  have "service_reaches H ?s ?s1"
    by (rule start_run) (simp_all add: s assms(2))
  moreover have "service_step H ?s1 ?s2"
    unfolding service_step_def by (intro disjI2 env_step.started) simp
  moreover have "service_reaches H ?s2 ?s3"
    using assms(3) by (intro connect_run) simp_all
  moreover have "service_step H ?s3 ?s4"
    unfolding service_step_def by (intro disjI2 env_step.consuming) simp
  ultimately have "service_reaches H ?s ?s4"
    by (meson rtranclp.rtrancl_into_rtrancl rtranclp_trans)
  moreover have "?s4 = serving (us_id user) (length cs) w'"
    by (simp add: s serving_def)
  ultimately show ?thesis
    by simp
qed

text \<open>A task that writes nothing leaves the store as it is.\<close>

lemma wp_reads: "writes_only (\<lambda>_. False) t \<Longrightarrow> wp_in T up t (\<lambda>_ ks'. ks' = ks) ks"
  by (induction t) auto

lemma get_resumes_reads:
  assumes "redis_contract True S view" "run S (get_resumes C R) w = (r, w')"
  shows "view w' = view w"
proof -
  have "writes_only (\<lambda>_. False) (get_resumes C R)"
    by (auto simp: get_resumes_def intro!: writes_intros)
  from run_wp [OF assms wp_reads [OF this]] show ?thesis .
qed

lemma start_service_run:
  assumes "redis_contract True S view" "visits_once (hash_order R)" "cache_inv (view w)"
    and "run S (get_resumes C R) w = (Ok rs, w1)" "build_clusters checks G C rs = Ok (cs, info)"
    and "\<And>t. sane_time t \<Longrightarrow> dt_format R t \<noteq> None" "\<And>s. \<exists>t. ser_string R s = Inr t"
    and "ser_u64 R (shards_total C) = Inr n"
  shows "\<exists>w'. run S (start_service checks G C R) w = (Ok (cs, info), w') \<and>
    cache_inv (view w') \<and> view w' SHARDS_KEY = Some (RStr n)"
proof -
  let ?rest = "and_then (set_started R) (\<lambda>_. cache_set R (ser_u64 R) SHARDS_KEY (shards_total C))"
  have inv: "cache_inv (view w1)"
    using assms(3) get_resumes_reads [OF assms(1,4)] by simp
  have "achieves True (cache_set R (ser_u64 R) SHARDS_KEY (shards_total C))
      (\<lambda>_ ks. cache_inv ks \<and> ks SHARDS_KEY = Some (RStr n)) ks" if "cache_inv ks" for ks
    using cache_inv_put_one [OF start_keys(1) that]
    by (intro achieves_cache_set [where ser = "ser_u64 R" and x = "shards_total C",
          OF assms(2) start_keys(1) cache_inv_parts(1) [OF that] assms(8)]) (simp add: put_one_object)
  then have "achieves True ?rest (\<lambda>_ ks. cache_inv ks \<and> ks SHARDS_KEY = Some (RStr n)) (view w1)"
    unfolding achieves_and_then by (intro achieves_set_started assms(2,6,7) inv)
  then obtain w' where "run S ?rest w1 = (Ok (), w')" "cache_inv (view w')" "view w' SHARDS_KEY = Some (RStr n)"
    using run_up_unit [OF assms(1)] by blast
  then show ?thesis
    using assms(4,5)
    by (intro exI [of _ w']) (auto simp: start_service_def get_clusters_def run_and_then split: prod.splits res.splits)
qed

text \<open>
  C10: when Redis answers, the sessions to resume can be read (with \<open>RESUME\<close> off there are none to
  read), the clusters can be built with them and every connection can be made, a launch gets to
  serve: the loop of every cluster waits for events, the jobs and \<open>incoming\<close> are ready, the
  number of shards is stored and the cache is as consistent as it was.
\<close>

theorem service_starts:
  assumes "redis_contract True (ho_server H) view" "visits_once (hash_order (ho_runtime H))" "cache_inv (view w)"
    and "fst (prepare (ho_config H) (ho_boot H) B b) = Ok user"
    and "run (ho_server H) (get_resumes (ho_config H) (ho_runtime H)) w = (Ok rs, w1)"
    and "build_clusters (ho_checks H) (ho_gateway H) (ho_config H) rs = Ok (cs, info)"
    and "\<And>t. sane_time t \<Longrightarrow> dt_format (ho_runtime H) t \<noteq> None" "\<And>s. \<exists>t. ser_string (ho_runtime H) s = Inr t"
    and "ser_u64 (ho_runtime H) (shards_total (ho_config H)) = Inr n"
    and "\<forall>i < length cs. bt_cluster_conn (ho_boot H) i = Inr ()"
  shows "\<exists>w'. service_reaches H (fst (launch H B b w)) (serving (us_id user) (length cs) w') \<and>
    cache_inv (view w') \<and> view w' SHARDS_KEY = Some (RStr n)"
  using start_service_run [where G = "ho_gateway H", OF assms(1,2,3,5,6,7,8,9)] launch_serves [OF assms(4) _ assms(10)]
  by blast

section \<open>Two payloads\<close>

text \<open>A loop that receives another event than \<open>Ready\<close> asks nothing of Redis before it spawns.\<close>

lemma receive_spawns:
  assumes "running s" "i \<in> sv_waiting s" "\<not> is_ready ev"
  shows "service_reaches H s (s\<lparr>sv_received := sv_received s @ [(shard, ev)],
    sv_procs := add_mset (EventTask shard ev, spawned_task (ho_outside H)
      (handle_event (ho_config H) (ho_runtime H) (ho_outside H) (sv_bot s) shard ev)) (sv_procs s)\<rparr>)"
    (is "service_reaches H s ?s")
proof -
  let ?r = "receive_event H i shard ev s"
  have once: "update_at_once (ho_config H) (ho_runtime H) (ho_outside H) (sv_bot s) shard ev = ok []"
    using assms(3) by (simp add: update_at_once_def)
  have "service_step H s ?r"
    unfolding service_step_def using assms by (intro disjI2 env_step.receive)
  moreover have "proc_step H ?r (finish_proc H (OutgoingLoop i shard ev) (Ok []) (?r\<lparr>sv_procs := sv_procs s\<rparr>))"
    using assms(1) by (intro proc_step.finish) (simp_all add: receive_event_def once running_def)
  moreover have "finish_proc H (OutgoingLoop i shard ev) (Ok []) (?r\<lparr>sv_procs := sv_procs s\<rparr>) = ?s"
    using assms(2) by (intro service.equality) (simp_all add: logs_def receive_event_def insert_absorb)
  ultimately show ?thesis
    unfolding service_step_def by (metis (mono_tags, lifting) r_into_rtranclp rtranclp.rtrancl_into_rtrancl)
qed

lemma payload_task:
  "spawned_task E (handle_event C R E b shard (ShardPayload x)) = ok (react_payload R E shard x None)"
  using react_calm [of C R E shard "ShardPayload x"]
  by (simp add: handle_event_def and_then_def del: task_result.simps(1))

lemma receive_payload:
  assumes "running s" "i \<in> sv_waiting s"
  shows "service_reaches H s (s\<lparr>sv_received := sv_received s @ [(shard, ShardPayload x)],
    sv_procs := add_mset (EventTask shard (ShardPayload x), ok (react_payload (ho_runtime H) (ho_outside H) shard x None))
      (sv_procs s)\<rparr>)"
  using receive_spawns [OF assms, of "ShardPayload x"] by (simp add: payload_task)

lemma finish_payload:
  assumes "running s" "sv_procs s = add_mset (EventTask shard ev, ok es) ps"
  shows "service_step H s (logs es (s\<lparr>sv_procs := ps\<rparr>))"
  using proc_step.finish [OF assms] by (simp add: service_step_def)

text \<open>
  C7: the payloads of the gateway can be published in another order than they were received, even
  those of one shard: every event has a task of its own, and of two payloads that a loop receives
  one after the other, in any state of the service, the second can be published first.
\<close>

theorem payloads_reordered:
  assumes "running s" "i \<in> sv_waiting s"
  shows "\<exists>s'. service_reaches H s s' \<and> sv_procs s' = sv_procs s \<and>
    sv_received s' = sv_received s @ [(shard, ShardPayload x), (shard, ShardPayload y)] \<and>
    publications (sv_log s') = publications (sv_log s) @
      published (ho_runtime H) (ShardPayload y) @ published (ho_runtime H) (ShardPayload x)"
proof -
  let ?R = "ho_runtime H" and ?E = "ho_outside H" and ?x = "ShardPayload x" and ?y = "ShardPayload y"
  let ?p = "\<lambda>z. (EventTask shard (ShardPayload z), ok (react_payload ?R ?E shard z None))"
  let ?s1 = "s\<lparr>sv_received := sv_received s @ [(shard, ?x)], sv_procs := add_mset (?p x) (sv_procs s)\<rparr>"
  let ?s2 = "?s1\<lparr>sv_received := sv_received ?s1 @ [(shard, ?y)], sv_procs := add_mset (?p y) (sv_procs ?s1)\<rparr>"
  let ?s3 = "logs (react_payload ?R ?E shard y None) (?s2\<lparr>sv_procs := add_mset (?p x) (sv_procs s)\<rparr>)"
  let ?s4 = "logs (react_payload ?R ?E shard x None) (?s3\<lparr>sv_procs := sv_procs s\<rparr>)"
  have run: "running ?s1" "running ?s2" "running ?s3"
    using assms(1) by (simp_all add: running_def)
  have "service_reaches H s ?s1"
    by (rule receive_payload [OF assms])
  moreover have "service_reaches H ?s1 ?s2"
    by (rule receive_payload [where i = i, OF run(1)]) (simp add: assms(2))
  moreover have "service_step H ?s2 ?s3"
    by (rule finish_payload [OF run(2)]) simp
  moreover have "service_step H ?s3 ?s4"
    by (rule finish_payload [OF run(3)]) simp
  ultimately have "service_reaches H s ?s4"
    by (meson rtranclp.rtrancl_into_rtrancl rtranclp_trans)
  moreover have "publications (react_payload ?R ?E shard z None) = published ?R (ShardPayload z)" for z
    using react_published [of "ShardPayload z" None undefined ?R ?E shard] by simp
  ultimately show ?thesis
    by (intro exI [of _ ?s4]) simp
qed

section \<open>The end\<close>

text \<open>
  C38: the jobs go on while the service stops, and an iteration that begins after the interrupt
  overwrites the sessions that the shards handed over: the service can end without an error and
  leave the sessions of what this iteration saw, none if the shards were already closed.
\<close>

theorem stop_race:
  assumes "redis_contract True (ho_server H) view" "visits_once (hash_order (ho_runtime H))"
    and "cache_inv (view (sv_world s))" "sv_phase s = Serving" "CacheJob \<in> sv_idle s"
    and "\<And>x. \<exists>t. ser_statuses (ho_runtime H) x = Inr t" "\<And>x. \<exists>t. ser_sessions (ho_runtime H) x = Inr t"
    and "\<forall>(first, second) \<in> set infos. dates_ok (ho_runtime H) first"
  shows "\<exists>s' t. env_step H s (s\<lparr>sv_phase := Stopping (stop_service (ho_runtime H) dumps)\<rparr>) \<and>
    service_reaches H (s\<lparr>sv_phase := Stopping (stop_service (ho_runtime H) dumps)\<rparr>) s' \<and>
    sv_phase s' = Ended (Ok ()) \<and>
    ser_sessions (ho_runtime H) (insert_sessions (concat (map snd infos)) []) = Inr t \<and>
    view (sv_world s') SESSIONS_KEY = Some (RStr t)"
proof -
  let ?R = "ho_runtime H" and ?stop = "stop_service (ho_runtime H) dumps"
  let ?s1 = "s\<lparr>sv_phase := Stopping ?stop\<rparr>"
  obtain t where "ser_sessions ?R (dump_sessions (concat dumps) []) = Inr t"
    using assms(7) by blast
  then have "achieves True ?stop (\<lambda>_. cache_inv) (view (sv_world s))"
    unfolding stop_service_def using cache_inv_put_one [OF plain_keys(2) assms(3)]
    by (intro achieves_cache_set assms(2,3) cache_inv_parts plain_keys(2)) auto
  then obtain w1 where w1: "run (ho_server H) ?stop (sv_world s) = (Ok (), w1)" "cache_inv (view w1)"
    using run_up_unit [OF assms(1)] by blast
  obtain w2 t where w2: "run (ho_server H) (cache_job ?R infos) w1 = (Ok (), w2)"
      "ser_sessions ?R (insert_sessions (concat (map snd infos)) []) = Inr t"
      "view w2 SESSIONS_KEY = Some (RStr t)"
    using run_up_unit [OF assms(1) achieves_cache_job [OF assms(2) w1(2) assms(6,7,8)]] by blast
  then have job: "run (ho_server H) (cache_iteration ?R infos) w1 = (Ok [], w2)"
    by (simp add: cache_iteration_def run_and_then)
  let ?s2 = "?s1\<lparr>sv_phase := Stopping (Done (Ok ())), sv_world := w1\<rparr>"
  let ?s3 = "begin_job CacheJob (cache_iteration ?R infos) ?s2"
  let ?s4 = "?s3\<lparr>sv_procs := add_mset (CacheJob, Done (Ok [])) (sv_procs s), sv_world := w2\<rparr>"
  have "service_reaches H ?s1 ?s2"
    by (rule stop_run) (simp_all add: w1)
  moreover have "service_step H ?s2 ?s3"
    unfolding service_step_def using assms(5) by (intro disjI2 env_step.cache_begins) (simp_all add: running_def)
  moreover have "service_reaches H ?s3 ?s4"
    by (rule proc_run) (simp_all add: begin_job_def running_def job)
  moreover have "service_step H ?s4 (main_ends H (Ok ()) ?s4)"
    unfolding service_step_def by (intro disjI2 env_step.stopped) (simp add: begin_job_def)
  ultimately have "service_reaches H ?s1 (main_ends H (Ok ()) ?s4)"
    by (meson rtranclp.rtrancl_into_rtrancl rtranclp_trans)
  moreover have "env_step H s ?s1"
    by (rule env_step.interrupt [OF assms(4)])
  ultimately show ?thesis
    using w2(2,3) by (intro exI [of _ "main_ends H (Ok ()) ?s4"] exI [of _ t]) (simp add: main_ends_def)
qed

end
