(* ===== verification/Agreement.thy ===== *)
theory Agreement
  imports Interleave
begin

text \<open>
  When the tasks of events may interleave without harm. The place of a key is what the database
  says of it: whether it is stored, and which indexes name it. Every task keeps the agreement of
  the two at each key if no other task changes the place of that key meanwhile, and the task of an
  event changes only the places of the keys that the event touches. So events that touch different
  objects may race: only two events about the same object can spoil the indexes.
\<close>

section \<open>The place of a key\<close>

datatype place = Place (pl_stored: bool) (pl_indexes: "string set")

definition index_name :: "string \<Rightarrow> bool" where
  "index_name i \<longleftrightarrow> (\<exists>kd \<in> kinds. i = kind_index kd) \<or> (\<exists>sc \<in> scope_kinds. \<exists>s. i = scope_index sc s)"

definition place :: "keyspace \<Rightarrow> string \<Rightarrow> place" where
  "place ks k = Place (ks k \<noteq> None) {i. index_name i \<and> k |\<in>| set_at ks i}"

text \<open>What a write makes of the place of \<open>k\<close>.\<close>

fun placed :: "string \<Rightarrow> redis_write \<Rightarrow> place \<Rightarrow> place" where
  "placed k (MSET kvs) (Place st ix) = Place (st \<or> k \<in> fst ` set kvs) ix"
| "placed k (DEL keys) (Place st ix) = Place (st \<and> k \<notin> set keys) (ix - set keys)"
| "placed k (SADD i ms) (Place st ix) = Place st (if k \<in> set ms \<and> index_name i then insert i ix else ix)"
| "placed k (SREM i ms) (Place st ix) = Place st (if k \<in> set ms then ix - {i} else ix)"
| "placed k (HSET h fvs) p = p"
| "placed k (HDEL h fs) p = p"

lemma index_name_idx: "index_name i \<Longrightarrow> idx_key i"
  by (auto simp: index_name_def)

lemma expiry_not_index [simp]: "\<not> index_name EXPIRY_KEYS"
  using index_name_idx expiry_not_kind(1) by blast

lemma index_name_key: "object_key k \<Longrightarrow> index_name i \<Longrightarrow> k \<noteq> i"
  using index_name_idx idx_not_object by blast

lemma index_keys_name: "object_key k \<Longrightarrow> i \<in> set (index_keys k) \<Longrightarrow> index_name i"
  by (auto simp: index_keys_iff index_name_def object_key_def)

lemma index_name_guild [simp]: "index_name (GUILD_KEY @ KEYS_SUFFIX @ '':'' @ s)"
  unfolding index_name_def by (intro disjI2 bexI [of _ GUILD_KEY] exI [of _ s]) (simp_all add: scope_index_def)

lemma place_write:
  assumes "well_typed ks" "safe_write C b x" "write_valid ks x" "object_key k"
  shows "place (apply_write x ks) k = placed k x (place ks k)"
proof -
  note k = index_name_key [OF assms(4)] object_not_expiry [OF assms(4)]
  have typed: "ks k = None \<or> (\<exists>s. ks k = Some (RStr s))"
    using well_typed_stringy [OF assms(1,4)] by (auto simp: stringy_def split: option.splits rval.splits)
  show ?thesis
  proof (cases x)
    case (MSET kvs)
    have "map_of (rev kvs) i = None" if "index_name i" for i
      using that assms(2) index_name_key [of i i]
      by (auto simp: MSET map_of_eq_None_iff storable_def)
    moreover have "map_of (rev kvs) k = None \<longleftrightarrow> k \<notin> fst ` set kvs"
      by (simp add: map_of_eq_None_iff)
    ultimately show ?thesis
      by (cases "map_of (rev kvs) k")
        (auto simp: MSET place_def mset_lookup set_at_def simp del: apply_write.simps)
  next
    case (SADD i ms)
    then show ?thesis
      using assms(2,3) idx_not_object assms(4) by (auto simp: place_def put_set_def set_at_def fset_of_list.rep_eq)
  next
    case (SREM i ms)
    then show ?thesis
      using assms(3) typed by (auto simp: place_def put_set_def set_at_def setty_def fset_of_list.rep_eq)
  next
    case (DEL keys)
    then show ?thesis
      by (auto simp: place_def set_at_def)
  next
    case (HSET h fvs)
    then show ?thesis
      using assms(2) k by (auto simp: place_def put_hash_def set_at_def)
  next
    case (HDEL h fs)
    then show ?thesis
      using assms(3) typed by (auto simp: place_def put_hash_def set_at_def hash_at_def hashy_def split: option.splits rval.splits)
  qed
qed

section \<open>Agreement\<close>

text \<open>
  A stored object is named by its indexes and a missing one by none. Of a channel only the index of
  the kind, \<open>channel_keys\<close>, is compared: the guild is not part of its storage key, so which
  \<open>guild_keys:g\<close> should name it cannot be read off the key, and clearing the guild leaves its
  name there.
\<close>

definition matches :: "string \<Rightarrow> place \<Rightarrow> bool" where
  "matches k p \<longleftrightarrow>
     (if kind_of k = CHANNEL_KEY
      then kind_index CHANNEL_KEY \<in> pl_indexes p \<longleftrightarrow> pl_stored p \<and> length (parts_of k) > 1
      else pl_indexes p = (if pl_stored p then set (index_keys k) else {}))"

definition agrees :: "keyspace \<Rightarrow> string \<Rightarrow> bool" where
  "agrees ks k \<longleftrightarrow> matches k (place ks k)"

lemma cache_inv_agrees:
  assumes "cache_inv ks" "object_key k"
  shows "agrees ks k"
proof -
  note parts = cache_inv_parts [OF assms(1), unfolded cache_inv_defs]
  show ?thesis
  proof (cases "kind_of k = CHANNEL_KEY")
    case True
    then show ?thesis
      using parts(3) by (auto simp: agrees_def matches_def place_def index_name_def)
  next
    case False
    have stored: "i \<in> set (index_keys k) \<and> ks k \<noteq> None" if i: "index_name i" "k |\<in>| set_at ks i" for i
      using i(1) unfolding index_name_def
    proof
      assume "\<exists>kd \<in> kinds. i = kind_index kd"
      then show ?thesis
        using parts(3) i(2) by (auto simp: index_keys_iff)
    next
      assume "\<exists>sc \<in> scope_kinds. \<exists>s. i = scope_index sc s"
      then obtain sc s where sc: "sc \<in> scope_kinds" "i = scope_index sc s"
        by blast
      with parts(5) i(2) False have "sc = scope_kind k" "length (parts_of k) > 2" "parts_of k ! 1 = s" "ks k \<noteq> None"
        by metis+
      then show ?thesis
        by (simp add: sc(2) index_keys_iff)
    qed
    have named: "index_name i \<and> k |\<in>| set_at ks i" if "ks k \<noteq> None" "i \<in> set (index_keys k)" for i
    proof -
      have "kind_of k \<in> kinds"
        using that(2) assms(2) by (auto simp: index_keys_iff object_key_def)
      then show ?thesis
        using that index_keys_name [OF assms(2) that(2)] parts(3,4) by (auto simp: index_keys_iff)
    qed
    show ?thesis
      using False stored named by (auto simp: agrees_def matches_def place_def)
  qed
qed

section \<open>What a task makes of a place\<close>

text \<open>
  The weakest precondition over the place of \<open>k\<close>, whatever the replies, but the members of an
  index set are object keys. A write that fails may have been executed or not.
\<close>

primrec ends_in :: "string \<Rightarrow> 'a task \<Rightarrow> ('a res \<Rightarrow> place \<Rightarrow> bool) \<Rightarrow> place \<Rightarrow> bool" where
  "ends_in k (Done r) Q = Q r"
| "ends_in k (ReadString x c) Q = (\<lambda>p. \<forall>r. ends_in k (c r) Q p)"
| "ends_in k (ReadStrings xs c) Q = (\<lambda>p. \<forall>r. ends_in k (c r) Q p)"
| "ends_in k (ReadMembers x c) Q =
     (\<lambda>p. \<forall>r. (\<forall>ms. index_name x \<and> r = Inr ms \<longrightarrow> (\<forall>m \<in> set ms. object_key m)) \<longrightarrow> ends_in k (c r) Q p)"
| "ends_in k (ReadCard x c) Q = (\<lambda>p. \<forall>r. ends_in k (c r) Q p)"
| "ends_in k (ReadHash x c) Q = (\<lambda>p. \<forall>r. ends_in k (c r) Q p)"
| "ends_in k (Write x c) Q = (\<lambda>p. \<forall>r. ends_in k (c r) Q (placed k x p) \<and> (r \<noteq> Inr () \<longrightarrow> ends_in k (c r) Q p))"
| "ends_in k (Now c) Q = (\<lambda>p. \<forall>t. ends_in k (c t) Q p)"

lemma ends_in_mono: "ends_in k t Q p \<Longrightarrow> (\<And>r p. Q r p \<Longrightarrow> Q' r p) \<Longrightarrow> ends_in k t Q' p"
  by (induction t arbitrary: p) auto

lemma ends_in_then_result:
  "ends_in k t (\<lambda>r p. case r of Ok a \<Rightarrow> ends_in k (f (Inr a)) Q p | Err e \<Rightarrow> ends_in k (f (Inl e)) Q p
      | Panic m \<Rightarrow> Q (Panic m) p) p \<Longrightarrow> ends_in k (then_result t f) Q p"
  by (induction t arbitrary: p) (auto split: res.splits)

text \<open>\<open>keeps k t\<close>: if \<open>t\<close> ends in \<open>Ok\<close>, the place of \<open>k\<close> agrees as before.\<close>

definition fine :: "place \<Rightarrow> bool" where
  "fine p \<longleftrightarrow> (\<forall>i \<in> pl_indexes p. index_name i)"

definition kept :: "string \<Rightarrow> 'a res \<Rightarrow> place \<Rightarrow> bool" where
  "kept k r p \<longleftrightarrow> fine p \<and> (\<forall>a. r = Ok a \<longrightarrow> matches k p)"

definition keeps :: "string \<Rightarrow> 'a task \<Rightarrow> bool" where
  "keeps k t \<longleftrightarrow> (\<forall>p. matches k p \<longrightarrow> fine p \<longrightarrow> ends_in k t (kept k) p)"

text \<open>Writes that leave the place of \<open>k\<close> alone.\<close>

definition harmless :: "string \<Rightarrow> redis_write \<Rightarrow> bool" where
  "harmless k x \<longleftrightarrow> (\<forall>p. fine p \<longrightarrow> placed k x p = p)"

lemma harmless_ends:
  assumes "writes_only (harmless k) t" "fine p"
  shows "ends_in k t (\<lambda>r p'. p' = p) p"
  using assms by (induction t) (auto simp: harmless_def)

named_theorems keeps_intros \<open>the tasks that keep the agreement\<close>

lemma keeps_Done [keeps_intros]: "keeps k (Done r)"
  by (auto simp: keeps_def kept_def)

lemma keeps_harmless: "writes_only (harmless k) t \<Longrightarrow> keeps k t"
  unfolding keeps_def kept_def by (auto dest: harmless_ends elim!: ends_in_mono)

lemma keeps_then_result:
  assumes "writes_only (harmless k) t" "\<And>r. keeps k (f r)"
  shows "keeps k (then_result t f)"
  unfolding keeps_def
proof (intro allI impI ends_in_then_result)
  fix p
  assume p: "matches k p" "fine p"
  then have "ends_in k (f r) (kept k) p" for r
    using assms(2) by (simp add: keeps_def)
  then show "ends_in k t (\<lambda>r p. case r of Ok a \<Rightarrow> ends_in k (f (Inr a)) (kept k) p
      | Err e \<Rightarrow> ends_in k (f (Inl e)) (kept k) p | Panic m \<Rightarrow> kept k (Panic m) p) p"
    using p by (intro ends_in_mono [OF harmless_ends [OF assms(1)]]) (auto simp: kept_def split: res.split)
qed

lemma keeps_and_then [keeps_intros]:
  assumes "keeps k t" "\<And>a. keeps k (f a)"
  shows "keeps k (and_then t f)"
  unfolding keeps_def and_then_def
proof (intro allI impI ends_in_then_result)
  fix p
  assume "matches k p" "fine p"
  with assms(1) have "ends_in k t (kept k) p"
    by (simp add: keeps_def)
  then show "ends_in k t (\<lambda>r p. case r of
      Ok a \<Rightarrow> ends_in k (case Inr a of Inl e \<Rightarrow> Done (Err e) | Inr a \<Rightarrow> f a) (kept k) p
    | Err e \<Rightarrow> ends_in k (case Inl e of Inl e \<Rightarrow> Done (Err e) | Inr a \<Rightarrow> f a) (kept k) p
    | Panic m \<Rightarrow> kept k (Panic m) p) p"
    by (rule ends_in_mono) (use assms(2) in \<open>auto simp: keeps_def kept_def split: res.split\<close>)
qed

section \<open>The batches keep the agreement\<close>

lemma ends_in_write:
  assumes "\<And>e. Q (Err (Redis e)) p \<and> Q (Err (Redis e)) (placed k x p)" "Q (Ok ()) (placed k x p)"
  shows "ends_in k (conn_write x) Q p"
proof -
  have "ends_in k (from_redis r) Q p'" if "p' = placed k x p \<or> p' = p \<and> r \<noteq> Inr ()" for r :: "string + unit" and p'
    using that assms by (cases r) auto
  then show ?thesis
    unfolding conn_write_def by simp
qed

lemma ends_in_write_then:
  assumes "fine p" "fine (placed k x p)" "\<And>e p. fine p \<Longrightarrow> Q (Err e) p"
    and "ends_in k t Q (placed k x p)"
  shows "ends_in k (and_then (conn_write x) (\<lambda>_. t)) Q p"
  unfolding and_then_def using assms by (intro ends_in_then_result ends_in_write) auto

lemma fine_insert: "index_name i \<Longrightarrow> fine (Place st ix) \<Longrightarrow> fine (Place st (insert i ix))"
  by (simp add: fine_def)

lemma ends_in_sadd_each:
  assumes "\<forall>(i, ms) \<in> set m. index_name i" "fine (Place st ix)"
    and "\<And>e p. fine p \<Longrightarrow> Q (Err e) p"
    and "Q (Ok ()) (Place st (ix \<union> {i. \<exists>ms. (i, ms) \<in> set m \<and> k \<in> set ms}))"
  shows "ends_in k (sadd_each m) Q (Place st ix)"
  using assms
proof (induction m arbitrary: ix)
  case (Cons q m)
  obtain i ms where q: "q = (i, ms)"
    by (cases q)
  let ?ix = "if k \<in> set ms then insert i ix else ix"
  have eq: "ix \<union> {j. \<exists>ms. (j, ms) \<in> set (q # m) \<and> k \<in> set ms} =
      ?ix \<union> {j. \<exists>ms. (j, ms) \<in> set m \<and> k \<in> set ms}"
    by (auto simp: q)
  have "ends_in k (sadd_each m) Q (Place st ?ix)"
    using Cons.prems unfolding eq by (intro Cons.IH) (auto simp: q fine_insert)
  then show ?case
    using Cons.prems by (auto simp: q fine_insert intro!: ends_in_write_then)
qed simp

lemma ends_in_srem_each:
  assumes "fine (Place st ix)" "\<And>e p. fine p \<Longrightarrow> Q (Err e) p"
    and "Q (Ok ()) (Place st (ix - {i. \<exists>ms. (i, ms) \<in> set m \<and> k \<in> set ms}))"
  shows "ends_in k (srem_each m) Q (Place st ix)"
  using assms
proof (induction m arbitrary: ix)
  case (Cons q m)
  obtain i ms where q: "q = (i, ms)"
    by (cases q)
  let ?ix = "if k \<in> set ms then ix - {i} else ix"
  have eq: "ix - {j. \<exists>ms. (j, ms) \<in> set (q # m) \<and> k \<in> set ms} =
      ?ix - {j. \<exists>ms. (j, ms) \<in> set m \<and> k \<in> set ms}"
    by (auto simp: q)
  have fine: "fine (Place st ?ix)"
    using Cons.prems(1) by (simp add: fine_def)
  then have "ends_in k (srem_each m) Q (Place st ?ix)"
    using Cons.prems unfolding eq by (intro Cons.IH) auto
  then show ?case
    using Cons.prems fine by (auto simp: q intro!: ends_in_write_then)
qed simp

lemma storage_key_other:
  assumes "kind_of (storage_key k) \<noteq> CHANNEL_KEY"
  shows "storage_key k = k"
proof -
  have "parts_of k ! 0 \<noteq> CHANNEL_KEY"
    using assms unfolding kind_storage_key by (simp add: kind_of_def)
  then show ?thesis
    by (simp add: storage_key_def Let_def)
qed

lemma storage_key_length: "length (parts_of (storage_key k)) > 1 \<longleftrightarrow> length (parts_of k) > 1"
  by (auto simp: parts_storage_key)

text \<open>The indexes in which a batch with the keys \<open>K\<close> names \<open>k\<close>.\<close>

definition batch_indexes :: "string set \<Rightarrow> string \<Rightarrow> string set" where
  "batch_indexes K k = {i. \<exists>k' \<in> K. storage_key k' = k \<and> i \<in> set (index_keys k')}"

lemma batch_indexes_channel:
  assumes "kind_of k = CHANNEL_KEY"
  shows "kind_index CHANNEL_KEY \<in> batch_indexes K k \<longleftrightarrow> k \<in> storage_key ` K \<and> length (parts_of k) > 1"
  using assms storage_key_length by (auto simp: batch_indexes_def index_keys_iff)

lemma batch_indexes_other:
  assumes "kind_of k \<noteq> CHANNEL_KEY"
  shows "batch_indexes K k = (if k \<in> storage_key ` K then set (index_keys k) else {})"
proof -
  have eq: "storage_key k' = k \<longleftrightarrow> k' = k" for k'
    using storage_key_other [of k'] storage_key_other [of k] assms by (metis kind_storage_key)
  moreover have "k \<in> storage_key ` K \<longleftrightarrow> k \<in> K"
    using eq by (metis imageE image_eqI)
  ultimately show ?thesis
    by (auto simp: batch_indexes_def)
qed

lemma matches_put:
  "matches k (Place st ix) \<Longrightarrow> matches k (Place (st \<or> k \<in> storage_key ` K) (ix \<union> batch_indexes K k))"
  by (auto simp: matches_def batch_indexes_channel batch_indexes_other split: if_splits)

lemma matches_del:
  "matches k (Place st ix) \<Longrightarrow> matches k (Place (st \<and> k \<notin> storage_key ` K) (ix - batch_indexes K k))"
  by (auto simp: matches_def batch_indexes_channel batch_indexes_other split: if_splits)

lemma batch_ends:
  assumes "visits_once (hash_order R)"
  shows "{i. \<exists>ms. (i, ms) \<in> set (hash_order R (collect_members keys)) \<and> k \<in> set ms} =
    batch_indexes (set keys) k"
  unfolding batch_indexes_def using batch_members [OF assms] by blast

lemma keeps_set_all:
  assumes "visits_once (hash_order R)" "\<forall>k' \<in> fst ` set kvs. object_key k'"
  shows "keeps k (set_all R ser kvs)"
proof (cases "set_items ser kvs []")
  case (Inr q)
  then obtain skvs where skvs: "serialised ser kvs skvs"
    and q: "q = (storage_items skvs, collect_members (map fst kvs))"
    using set_items_cases [where ser = ser and kvs = kvs and m = "[]"] by (cases q) (auto simp: collect_members_def)
  let ?K = "set (map fst kvs)" and ?m = "hash_order R (collect_members (map fst kvs))"
  have stored: "fst ` set (storage_items skvs) = storage_key ` ?K"
    unfolding serialised_keys [OF skvs, symmetric] by force
  have names: "\<forall>(i, ms) \<in> set ?m. index_name i"
  proof (intro ballI, clarify)
    fix i ms
    assume "(i, ms) \<in> set ?m"
    then have "i \<in> fst ` set (collect_members (map fst kvs))"
      by (force simp: visits_once_set [OF assms(1)])
    then show "index_name i"
      unfolding keys_members using assms(2) index_keys_name by auto
  qed
  have "ends_in k (and_then (conn_write (MSET (storage_items skvs))) (\<lambda>_. sadd_each ?m)) (kept k) (Place st ix)"
    if p: "matches k (Place st ix)" "fine (Place st ix)" for st ix
  proof (rule ends_in_write_then)
    show "ends_in k (sadd_each ?m) (kept k) (placed k (MSET (storage_items skvs)) (Place st ix))"
      unfolding placed.simps stored
    proof (rule ends_in_sadd_each [OF names])
      show "kept k (Ok ()) (Place (st \<or> k \<in> storage_key ` ?K) (ix \<union> {i. \<exists>ms. (i, ms) \<in> set ?m \<and> k \<in> set ms}))"
        using matches_put [OF p(1), of ?K] p(2) index_keys_name assms(2)
        by (auto simp: kept_def fine_def batch_ends [OF assms(1)] batch_indexes_def)
    qed (use p in \<open>auto simp: fine_def kept_def\<close>)
  qed (use p in \<open>auto simp: fine_def kept_def\<close>)
  then have "keeps k (and_then (conn_write (MSET (storage_items skvs))) (\<lambda>_. sadd_each ?m))"
    unfolding keeps_def by (metis place.exhaust)
  then show ?thesis
    by (simp add: set_all_def Inr q keeps_Done)
qed (simp add: set_all_def keeps_Done)

lemma keeps_del_all:
  assumes "visits_once (hash_order R)" "\<forall>k' \<in> set keys. object_key k'"
  shows "keeps k (del_all R keys)"
proof -
  let ?K = "set keys" and ?m = "hash_order R (collect_members keys)"
  have "ends_in k (and_then (conn_write (DEL (map storage_key keys))) (\<lambda>_. srem_each ?m)) (kept k) (Place st ix)"
    if p: "matches k (Place st ix)" "fine (Place st ix)" for st ix
  proof (rule ends_in_write_then)
    have "i \<notin> storage_key ` ?K" if "i \<in> ix" for i
      using that p(2) assms(2) index_name_key object_storage_key unfolding fine_def by fastforce
    then have del: "placed k (DEL (map storage_key keys)) (Place st ix) = Place (st \<and> k \<notin> storage_key ` ?K) ix"
      by auto
    show "ends_in k (srem_each ?m) (kept k) (placed k (DEL (map storage_key keys)) (Place st ix))"
      unfolding del
    proof (rule ends_in_srem_each)
      show "kept k (Ok ()) (Place (st \<and> k \<notin> storage_key ` ?K) (ix - {i. \<exists>ms. (i, ms) \<in> set ?m \<and> k \<in> set ms}))"
        using matches_del [OF p(1), of ?K] p(2) by (auto simp: kept_def fine_def batch_ends [OF assms(1)])
    qed (use p in \<open>auto simp: fine_def kept_def\<close>)
    show "fine (placed k (DEL (map storage_key keys)) (Place st ix))"
      using p(2) unfolding del by (simp add: fine_def)
  qed (use p in \<open>auto simp: kept_def\<close>)
  then have "keeps k (and_then (conn_write (DEL (map storage_key keys))) (\<lambda>_. srem_each ?m))"
    unfolding keeps_def by (metis place.exhaust)
  then show ?thesis
    by (simp add: del_all_def del_items_eq keeps_Done flip: collect_members_def)
qed

section \<open>The events keep the agreement\<close>

lemma writes_harmless_none: "writes_only (\<lambda>_. False) t \<Longrightarrow> writes_only (harmless k) t"
  by (induction t) auto

lemma harmless_hash [simp]: "harmless k (HSET h fvs)" "harmless k (HDEL h fs)"
  by (simp_all add: harmless_def)

lemma harmless_expire:
  "writes_only (harmless k) (expire_all R keys)" "writes_only (harmless k) (expire R x ttl)"
proof -
  show "writes_only (harmless k) (expire_all R keys)" for keys
    by (auto simp: expire_all_def intro!: writes_intros writes_conn_write)
  then show "writes_only (harmless k) (expire R x ttl)"
    by (simp add: expire_def writes_intros)
qed

lemma keeps_reads [keeps_intros]:
  "keeps k (cache_get de x)" "keeps k (cache_get_all de' xs)" "keeps k (get_members x)"
  "keeps k (read_old C R x)" "keeps k (value_old C R ser y)"
  "keeps k (expire_all R keys)" "keeps k (expire R x ttl)"
  by (intro keeps_harmless writes_intros harmless_expire)+

lemma keeps_when [keeps_intros]: "keeps k t \<Longrightarrow> keeps k (when_task c t)"
  by (simp add: when_task_def keeps_Done)

lemma keeps_cache_set:
  "visits_once (hash_order R) \<Longrightarrow> object_key x \<Longrightarrow> keeps k (cache_set R ser x y)"
  unfolding cache_set_def by (intro keeps_intros keeps_set_all) auto

lemma keeps_cache_del:
  "visits_once (hash_order R) \<Longrightarrow> object_key x \<Longrightarrow> keeps k (cache_del R x)"
  unfolding cache_del_def by (intro keeps_intros keeps_del_all) auto

text \<open>The members that \<open>clear_guild\<close> reads are object keys.\<close>

lemma keeps_ReadMembers:
  assumes "index_name x" "\<And>r. (\<And>ms. r = Inr ms \<Longrightarrow> \<forall>m \<in> set ms. object_key m) \<Longrightarrow> keeps k (c r)"
  shows "keeps k (ReadMembers x c)"
  using assms unfolding keeps_def ends_in.simps by blast

lemma keeps_clear_guild:
  assumes "visits_once (hash_order R)"
  shows "keeps k (clear_guild R g)"
proof -
  let ?rest = "\<lambda>members. and_then (case members of Inr ms \<Rightarrow> del_all R ms | Inl _ \<Rightarrow> ok ()) (\<lambda>_.
    then_result (cache_get (de_value R) (guild_key g)) (\<lambda>guild.
      case guild of Inr g' \<Rightarrow> and_then (cache_del R (guild_key g)) (\<lambda>_. ok g') | Inl _ \<Rightarrow> ok None))"
  have rest: "keeps k (?rest members)" if "\<And>ms. members = Inr ms \<Longrightarrow> \<forall>m \<in> set ms. object_key m" for members
    using that assms by (cases members)
      (auto intro!: keeps_intros keeps_then_result keeps_del_all keeps_cache_del writes_intros split: sum.split)
  have eq: "clear_guild R g = ReadMembers (GUILD_KEY @ KEYS_SUFFIX @ '':'' @ show_u64 g)
      (\<lambda>r. case r of Inl e \<Rightarrow> ?rest (Inl (Redis e)) | Inr ms \<Rightarrow> ?rest (Inr ms))"
    by (auto simp: clear_guild_def get_members_def conn_smembers_def and_then_def fun_eq_iff split: sum.split)
  have step: "keeps k (case r of Inl e \<Rightarrow> ?rest (Inl (Redis e)) | Inr ms \<Rightarrow> ?rest (Inr ms))"
    if r: "\<And>ms. r = Inr ms \<Longrightarrow> \<forall>m \<in> set ms. object_key m" for r :: "string + string list"
    using rest [of "Inl (Redis _)"] rest [of "Inr _"] r by (cases r) auto
  show ?thesis
    by (subst eq, rule keeps_ReadMembers [OF index_name_guild], rule step) blast
qed

lemma guild_item_object: "(x, i) \<in> set (guild_items C b d) \<Longrightarrow> object_key x"
  using guild_items_objects by fast

lemma keeps_update:
  assumes "visits_once (hash_order R)"
  shows "keeps k (update C R b ev)"
  by (cases ev) (auto simp: event_defs Let_def dest: guild_item_object intro!: keeps_intros keeps_cache_set [OF assms] keeps_cache_del [OF assms]
      keeps_set_all [OF assms] keeps_del_all [OF assms] keeps_clear_guild [OF assms] split: option.split)

section \<open>The keys whose place an event changes\<close>

text \<open>The events of a whole guild remove what the index of the guild names.\<close>

fun whole_guild :: "event \<Rightarrow> bool" where
  "whole_guild (GuildCreate d) \<longleftrightarrow> True"
| "whole_guild (GuildDelete g u) \<longleftrightarrow> True"
| "whole_guild (UnavailableGuild d) \<longleftrightarrow> True"
| "whole_guild _ \<longleftrightarrow> False"

definition reaches_key :: "event \<Rightarrow> string \<Rightarrow> bool" where
  "reaches_key ev k \<longleftrightarrow> whole_guild ev \<or> (\<exists>k'. touches ev k' \<and> storage_key k' = k)"

lemma harmless_set_all:
  assumes "visits_once (hash_order R)" "k \<notin> storage_key ` fst ` set kvs"
  shows "writes_only (harmless k) (set_all R ser kvs)"
proof (rule writes_set_all_if [OF assms(1)])
  show "harmless k (MSET skvs)" if "fst ` set skvs \<subseteq> storage_key ` fst ` set kvs" for skvs
  proof -
    have "k \<notin> fst ` set skvs"
      using that assms(2) by blast
    then have "placed k (MSET skvs) p = p" for p
      by (cases p) simp
    then show ?thesis
      by (simp add: harmless_def)
  qed
  show "harmless k (SADD i ms)"
    if "\<And>k. k \<in> set ms \<Longrightarrow> \<exists>k' \<in> fst ` set kvs. storage_key k' = k \<and> i \<in> set (index_keys k')" for i ms
  proof -
    have "k \<notin> set ms"
      using that assms(2) by blast
    then have "placed k (SADD i ms) p = p" for p
      by (cases p) simp
    then show ?thesis
      by (simp add: harmless_def)
  qed
qed

lemma harmless_del_all:
  assumes "visits_once (hash_order R)" "k \<notin> storage_key ` set keys" "\<forall>k' \<in> set keys. object_key k'"
  shows "writes_only (harmless k) (del_all R keys)"
proof (rule writes_del_all_if [OF assms(1)])
  have "placed k (DEL (map storage_key keys)) (Place st ix) = Place st ix" if "fine (Place st ix)" for st ix
  proof -
    have "i \<notin> storage_key ` set keys" if "i \<in> ix" for i
      using that \<open>fine _\<close> assms(3) index_name_key object_storage_key unfolding fine_def by fastforce
    then show ?thesis
      using assms(2) by auto
  qed
  then show "harmless k (DEL (map storage_key keys))"
    unfolding harmless_def by (metis place.exhaust)
  show "harmless k (SREM i ms)"
    if "\<And>k. k \<in> set ms \<Longrightarrow> \<exists>k' \<in> set keys. storage_key k' = k \<and> i \<in> set (index_keys k')" for i ms
  proof -
    have "k \<notin> set ms"
      using that assms(2) by blast
    then have "placed k (SREM i ms) p = p" for p
      by (cases p) simp
    then show ?thesis
      by (simp add: harmless_def)
  qed
qed

lemma harmless_cache_set:
  "visits_once (hash_order R) \<Longrightarrow> storage_key x \<noteq> k \<Longrightarrow> writes_only (harmless k) (cache_set R ser x y)"
  unfolding cache_set_def by (intro writes_intros harmless_set_all) auto

lemma harmless_cache_del:
  "visits_once (hash_order R) \<Longrightarrow> storage_key x \<noteq> k \<Longrightarrow> object_key x \<Longrightarrow> writes_only (harmless k) (cache_del R x)"
  unfolding cache_del_def by (intro writes_intros harmless_del_all) auto

lemma harmless_update:
  assumes "visits_once (hash_order R)" "\<not> reaches_key ev k"
  shows "writes_only (harmless k) (update C R b ev)"
proof -
  have touch: "storage_key k' \<noteq> k" if "touches ev k'" for k'
    using assms(2) that by (auto simp: reaches_key_def)
  have "\<not> whole_guild ev"
    using assms(2) by (simp add: reaches_key_def)
  then show ?thesis
    using touch by (cases ev) (auto simp: event_defs Let_def intro!: writes_intros harmless_expire
        harmless_cache_set [OF assms(1)] harmless_cache_del [OF assms(1)] harmless_set_all [OF assms(1)]
        harmless_del_all [OF assms(1)] split: option.split, fastforce+)
qed

section \<open>The race\<close>

definition members_ok :: "keyspace \<Rightarrow> bool" where
  "members_ok ks \<longleftrightarrow> (\<forall>i k. index_name i \<longrightarrow> k |\<in>| set_at ks i \<longrightarrow> object_key k)"

lemma cache_inv_members: "cache_inv ks \<Longrightarrow> members_ok ks"
  by (auto simp: members_ok_def index_name_def cache_inv_def kind_indexed_def scope_sound_def)

lemma members_write:
  assumes "members_ok ks" "safe_write C b x"
  shows "members_ok (apply_write x ks)"
  using assms
  by (cases x) (auto simp: members_ok_def mset_lookup put_set_def put_hash_def set_at_def fset_of_list.rep_eq
      simp del: apply_write.simps(1) split: option.splits if_splits rval.splits)

text \<open>The steps of the task that may change the place of \<open>k\<close>, and those of the others.\<close>

lemma step_ends:
  assumes "redis_contract False S view" "step_task S t w = Some (t', w')" "object_key k"
    and "writes_only (safe_write C b) t" "well_typed (view w)" "members_ok (view w)"
    and "ends_in k t Q (place (view w) k)"
  shows "ends_in k t' Q (place (view w') k)"
proof (cases t)
  case (Write x c)
  obtain r where r: "sv_write S x w = (r, w')" "t' = c r"
    using assms(2) Write by (auto split: prod.splits)
  have "write_reply False (view w) x r (view w')"
    using assms(1) r(1) unfolding contract_in_def by (metis fst_conv snd_conv)
  then consider "view w' = view w" "r \<noteq> Inr ()" | "write_valid (view w) x" "view w' = apply_write x (view w)"
    by (auto simp: write_reply_def split: sum.splits)
  then show ?thesis
    using assms(3-5,7) place_write Write r(2) by cases auto
next
  case (ReadMembers x c)
  obtain r where r: "sv_smembers S x w = (r, w')" "t' = c r"
    using assms(2) ReadMembers by (auto split: prod.splits)
  then have reply: "smembers_reply False (view w) x r" "view w' = view w"
    using assms(1) unfolding contract_in_def by (metis fst_conv snd_conv)+
  have "object_key m" if "index_name x" "r = Inr ms" "m \<in> set ms" for ms m
  proof -
    have "set_at (view w) x = fset_of_list ms"
      using reply(1) that(2) by (simp add: smembers_reply_def)
    then show ?thesis
      using assms(6) that(1,3) by (simp add: members_ok_def fset_of_list.rep_eq)
  qed
  then show ?thesis
    using assms(7) ReadMembers r(2) reply(2) by auto
qed (use assms in \<open>auto simp: contract_in_def split: prod.splits, (metis snd_conv)+\<close>)

lemma step_place:
  assumes "redis_contract False S view" "step_task S t w = Some (t', w')" "object_key k"
    and "writes_only (safe_write C b) t" "well_typed (view w)" "writes_only (harmless k) t"
  shows "place (view w') k = place (view w) k \<and> writes_only (harmless k) t'"
proof (cases t)
  case (Write x c)
  obtain r where r: "sv_write S x w = (r, w')" "t' = c r"
    using assms(2) Write by (auto split: prod.splits)
  have "write_reply False (view w) x r (view w')"
    using assms(1) r(1) unfolding contract_in_def by (metis fst_conv snd_conv)
  then consider "view w' = view w" | "write_valid (view w) x" "view w' = apply_write x (view w)"
    by (auto simp: write_reply_def split: sum.splits)
  moreover have "fine (place (view w) k)"
    by (simp add: fine_def place_def)
  ultimately show ?thesis
    using assms(3-6) place_write Write r(2) by cases (auto simp: harmless_def)
qed (use assms in \<open>auto simp: contract_in_def split: prod.splits, (metis snd_conv)+\<close>)

lemma step_members:
  assumes "redis_contract False S view" "step_task S t w = Some (t', w')"
    and "writes_only (safe_write C b) t" "members_ok (view w)"
  shows "members_ok (view w')"
proof (cases t)
  case (Write x c)
  obtain r where r: "sv_write S x w = (r, w')"
    using assms(2) Write by (auto split: prod.splits)
  have "write_reply False (view w) x r (view w')"
    using assms(1) r unfolding contract_in_def by (metis fst_conv snd_conv)
  then show ?thesis
    using assms(3,4) members_write Write by (auto simp: write_reply_def split: sum.splits)
qed (use assms in \<open>auto simp: contract_in_def split: prod.splits, (metis snd_conv)+\<close>)

text \<open>The \<open>i\<close>-th task is the only one that changes the place of \<open>k\<close>.\<close>

definition race_inv ::
  "config \<Rightarrow> u64 \<Rightarrow> string \<Rightarrow> nat \<Rightarrow> 'a task list \<Rightarrow> keyspace \<Rightarrow> bool" where
  "race_inv C b k i ts ks \<longleftrightarrow> pool_inv C b ks \<and> members_ok ks \<and>
     (\<forall>j < length ts. writes_only (safe_write C b) (ts ! j) \<and> (j \<noteq> i \<longrightarrow> writes_only (harmless k) (ts ! j))) \<and>
     ends_in k (ts ! i) (kept k) (place ks k)"

lemma race_inv_step:
  assumes "redis_contract False S view" "object_key k" "race_inv C b k i ts (view w)"
    and "j < length ts" "step_task S (ts ! j) w = Some (t, w')"
  shows "race_inv C b k i (ts[j := t]) (view w')"
proof -
  have j: "writes_only (safe_write C b) (ts ! j)" and inv: "pool_inv C b (view w)" "members_ok (view w)"
    using assms(3,4) by (simp_all add: race_inv_def)
  then have typed: "well_typed (view w)"
    by (simp add: pool_inv_def)
  note safe = step_safe [OF assms(1,5) j inv(1)] and members = step_members [OF assms(1,5) j inv(2)]
  show ?thesis
  proof (cases "j = i")
    case True
    then show ?thesis
      using assms(3,4) safe members step_ends [OF assms(1,5,2) j typed inv(2), of "kept k"]
      by (auto simp: race_inv_def nth_list_update)
  next
    case False
    then have "writes_only (harmless k) (ts ! j)"
      using assms(3,4) by (simp add: race_inv_def)
    then show ?thesis
      using assms(3,4) safe members False step_place [OF assms(1,5,2) j typed]
      by (auto simp: race_inv_def nth_list_update)
  qed
qed

text \<open>
  C9: events that touch different objects race without harm. From a consistent cache, whatever the
  interleaving of the tasks of any events and the answers of Redis: if only one of the events
  touches the object at \<open>k\<close> (the events of a whole guild, \<open>GuildCreate\<close>, \<open>GuildDelete\<close>
  and \<open>UnavailableGuild\<close>, count as touching every object) and its task has ended in \<open>Ok\<close>,
  the indexes name \<open>k\<close> if and only if it is stored; of a channel only the index of its kind is
  compared, not the index of a guild.
\<close>

theorem race_free:
  assumes "redis_contract False S view" "visits_once (hash_order R)"
    and "cache_inv (view w)" "only_enabled C b (view w)" "object_key k"
    and "i < length evs" "\<forall>j < length evs. j \<noteq> i \<longrightarrow> \<not> reaches_key (evs ! j) k"
    and "pool_reaches S (\<lambda>_. False) (map (update C R b) evs, w) (ts, w')" "ts ! i = ok old"
  shows "agrees (view w') k"
proof -
  have "race_inv C b k i (fst p) (view (snd p))"
    if "pool_reaches S (\<lambda>_. False) (map (update C R b) evs, w) p" for p
    using that
  proof (induction rule: rtranclp_induct)
    case base
    have "matches k (place (view w) k)" "fine (place (view w) k)"
      using cache_inv_agrees [OF assms(3,5)] by (simp_all add: agrees_def fine_def place_def)
    then show ?case
      using keeps_update [OF assms(2), of k C b "evs ! i"] writes_update [OF assms(2)] harmless_update [OF assms(2)]
        assms(3,4,6,7) cache_inv_members [OF assms(3)]
      by (simp add: race_inv_def pool_inv_def keeps_def cache_inv_def)
  next
    case (step p q)
    from step(2) show ?case
      by cases (use step.IH race_inv_step [OF assms(1,5)] in auto)
  qed
  from this [OF assms(8)] show ?thesis
    using assms(9) by (simp add: race_inv_def agrees_def kept_def)
qed

end
