(* ===== verification/ServiceCalm.thy ===== *)
theory ServiceCalm
  imports ServiceSafe Agreement
begin

text \<open>
  The service on a Redis that answers, under every schedule. \<open>sound\<close> says of the store what
  every command of every task keeps and what every task relies on: the keys have their types, the
  stored documents are of the type of their key, the indexes name keys of objects. \<open>sure J Q t\<close>:
  if the store satisfies \<open>J\<close> before every command of \<open>t\<close>, whatever the other tasks have
  done to it in between, then every command of \<open>t\<close> keeps \<open>J\<close> and \<open>t\<close> ends in a
  result with \<open>Q\<close>. The tasks of the events are sure to update the cache without an error and to
  react without a panic.
\<close>

section \<open>A sound store\<close>

definition sound :: "runtime \<Rightarrow> keyspace \<Rightarrow> bool" where
  "sound R ks \<longleftrightarrow> well_typed ks \<and> docs R ks \<and> members_ok ks"

lemma soundD:
  assumes "sound R ks"
  shows "well_typed ks" "docs R ks" "members_ok ks"
  using assms by (simp_all add: sound_def)

lemma sound_cache: "cache_inv ks \<Longrightarrow> docs R ks \<Longrightarrow> sound R ks"
  by (simp add: sound_def cache_inv_parts cache_inv_members)

fun sound_write :: "runtime \<Rightarrow> redis_write \<Rightarrow> bool" where
  "sound_write R (MSET kvs) \<longleftrightarrow> (\<forall>(k, s) \<in> set kvs. object_key k \<and> (cached k \<longrightarrow> doc_of R k s))"
| "sound_write R (SADD k ms) \<longleftrightarrow> idx_key k \<and> (\<forall>m \<in> set ms. object_key m)"
| "sound_write R (HSET k fvs) \<longleftrightarrow> k = EXPIRY_KEYS"
| "sound_write R (SREM k ms) \<longleftrightarrow> True"
| "sound_write R (DEL ks) \<longleftrightarrow> True"
| "sound_write R (HDEL k fs) \<longleftrightarrow> True"

text \<open>With every kind enabled a safe write is one that fits the types.\<close>

definition all_kinds :: config where
  "all_kinds = undefined\<lparr>state_emoji := True, state_message := True, state_presence := True,
     state_voice := True, state_member := True\<rparr>"

lemma allowed_all_kinds [simp]: "allowed all_kinds b k"
  by (simp add: allowed_def all_kinds_def)

lemma sound_safe: "sound_write R x \<Longrightarrow> safe_write all_kinds b x"
  by (cases x) (auto simp: storable_def)

lemma docs_write:
  assumes "docs R ks" "sound_write R x"
  shows "docs R (apply_write x ks)"
proof (cases x)
  case (MSET kvs)
  have "doc_of R k s" if "map_of (rev kvs) k = Some s" "cached k" for k s
    using that assms(2) map_of_SomeD [OF that(1)] by (auto simp: MSET)
  then show ?thesis
    using assms(1) by (auto simp: MSET docs_def mset_lookup simp del: apply_write.simps split: option.splits)
qed (use assms in \<open>auto simp: docs_def put_set_def put_hash_def split: if_splits\<close>)

lemma sound_write_keeps:
  assumes "sound R ks" "sound_write R x" "write_valid ks x"
  shows "sound R (apply_write x ks)"
proof -
  note safe = sound_safe [OF assms(2), of 0]
  have "pool_inv all_kinds 0 ks"
    using soundD(1) [OF assms(1)] by (simp add: pool_inv_def only_enabled_def)
  from safe_write_keeps [OF this safe assms(3)] show ?thesis
    using docs_write [OF soundD(2) [OF assms(1)] assms(2)] members_write [OF soundD(3) [OF assms(1)] safe]
    by (simp add: sound_def pool_inv_def)
qed

section \<open>Tasks that are sure of their result\<close>

primrec sure :: "(keyspace \<Rightarrow> bool) \<Rightarrow> ('a res \<Rightarrow> bool) \<Rightarrow> 'a task \<Rightarrow> bool" where
  "sure J Q (Done r) = Q r"
| "sure J Q (ReadString k c) = (\<forall>ks r. J ks \<longrightarrow> get_reply True ks k r \<longrightarrow> sure J Q (c r))"
| "sure J Q (ReadStrings keys c) = (\<forall>ks r. J ks \<longrightarrow> mget_reply True ks keys r \<longrightarrow> sure J Q (c r))"
| "sure J Q (ReadMembers k c) = (\<forall>ks r. J ks \<longrightarrow> smembers_reply True ks k r \<longrightarrow> sure J Q (c r))"
| "sure J Q (ReadCard k c) = (\<forall>ks r. J ks \<longrightarrow> scard_reply True ks k r \<longrightarrow> sure J Q (c r))"
| "sure J Q (ReadHash k c) = (\<forall>ks r. J ks \<longrightarrow> hgetall_reply True ks k r \<longrightarrow> sure J Q (c r))"
| "sure J Q (Write x c) =
     (\<forall>ks r ks'. J ks \<longrightarrow> write_reply True ks x r ks' \<longrightarrow> J ks' \<and> sure J Q (c r))"
| "sure J Q (Now c) = (\<forall>t. sane_time t \<longrightarrow> sure J Q (c t))"

lemma sure_step:
  assumes "redis_contract True S view" "sure J Q t" "J (view w)" "step_task S t w = Some (t', w')"
  shows "sure J Q t' \<and> J (view w')"
proof (cases t)
  case (Write x c)
  obtain r where r: "sv_write S x w = (r, w')" "t' = c r"
    using assms(4) Write by (auto split: prod.splits)
  have "write_reply True (view w) x r (view w')"
    using assms(1) r(1) unfolding contract_in_def by (metis fst_conv snd_conv)
  then show ?thesis
    using assms(2,3) Write r(2) by auto
next
  case (ReadString k c)
  then show ?thesis
    using assms by (auto simp: contract_in_def split: prod.splits) (metis fst_conv snd_conv)+
next
  case (ReadStrings k c)
  then show ?thesis
    using assms by (auto simp: contract_in_def split: prod.splits) (metis fst_conv snd_conv)+
next
  case (ReadMembers k c)
  then show ?thesis
    using assms by (auto simp: contract_in_def split: prod.splits) (metis fst_conv snd_conv)+
next
  case (ReadCard k c)
  then show ?thesis
    using assms by (auto simp: contract_in_def split: prod.splits) (metis fst_conv snd_conv)+
next
  case (ReadHash k c)
  then show ?thesis
    using assms by (auto simp: contract_in_def split: prod.splits) (metis fst_conv snd_conv)+
next
  case (Now c)
  then show ?thesis
    using assms by (auto simp: contract_in_def split: prod.splits) (metis fst_conv snd_conv)+
qed (use assms in simp)

lemma sure_mono: "sure J Q t \<Longrightarrow> (\<And>r. Q r \<Longrightarrow> Q' r) \<Longrightarrow> sure J Q' t"
  by (induction t) auto

lemma sure_then_result:
  "sure J Q (then_result t f) =
     sure J (\<lambda>r. case r of Ok a \<Rightarrow> sure J Q (f (Inr a)) | Err e \<Rightarrow> sure J Q (f (Inl e)) | Panic m \<Rightarrow> Q (Panic m)) t"
  by (induction t) (auto split: res.split)

lemma sure_spawned_task: "sure J Q (spawned_task E t) = sure J (\<lambda>r. Q (task_result E r)) t"
  by (induction t) auto

text \<open>A task whose writes are sound keeps the store sound, whatever it ends in.\<close>

lemma sure_writes: "writes_only (sound_write R) t \<Longrightarrow> sure (sound R) (\<lambda>_. True) t"
  by (induction t) (auto simp: write_reply_def intro: sound_write_keeps split: sum.splits)

text \<open>\<open>gives R P t\<close>: on a sound store the task is sure to end in \<open>Ok\<close>, with \<open>P\<close>.\<close>

definition gives :: "runtime \<Rightarrow> ('a \<Rightarrow> bool) \<Rightarrow> 'a task \<Rightarrow> bool" where
  "gives R P t \<longleftrightarrow> sure (sound R) (\<lambda>r. \<exists>a. r = Ok a \<and> P a) t"

named_theorems gives_intros \<open>the tasks that are sure to end in \<open>Ok\<close>\<close>

lemma gives_ok [gives_intros]: "P a \<Longrightarrow> gives R P (ok a)"
  by (simp add: gives_def)

lemma gives_mono: "gives R P t \<Longrightarrow> (\<And>a. P a \<Longrightarrow> P' a) \<Longrightarrow> gives R P' t"
  unfolding gives_def by (erule sure_mono) blast

lemma gives_then_result:
  assumes "gives R P' t" "\<And>a. P' a \<Longrightarrow> gives R P (f (Inr a))"
  shows "gives R P (then_result t f)"
  using assms(1) unfolding gives_def sure_then_result
  by (rule sure_mono) (use assms(2) in \<open>auto simp: gives_def\<close>)

lemma gives_and_then:
  assumes "gives R P' t" "\<And>a. P' a \<Longrightarrow> gives R P (f a)"
  shows "gives R P (and_then t f)"
  unfolding and_then_def using assms by (auto intro: gives_then_result)

abbreviation ends_well :: "runtime \<Rightarrow> 'a task \<Rightarrow> bool" where
  "ends_well R \<equiv> gives R (\<lambda>_. True)"

lemma gives_well: "gives R P t \<Longrightarrow> ends_well R t"
  by (erule gives_mono) simp

lemma gives_seq [gives_intros]: "ends_well R t \<Longrightarrow> (\<And>a. gives R P (f a)) \<Longrightarrow> gives R P (and_then t f)"
  by (rule gives_and_then)

lemma gives_when [gives_intros]: "(c \<Longrightarrow> ends_well R t) \<Longrightarrow> ends_well R (when_task c t)"
  by (simp add: when_task_def gives_intros)

section \<open>The operations on the cache\<close>

text \<open>What the lemmas below assume of the runtime.\<close>

definition lawful :: "runtime \<Rightarrow> bool" where
  "lawful R \<longleftrightarrow> visits_once (hash_order R) \<and> serde_ok R"

lemma runtime_lawful: "runtime_ok C R \<Longrightarrow> lawful R"
  by (simp add: runtime_ok_def lawful_def)

lemma lawful_order: "lawful R \<Longrightarrow> visits_once (hash_order R)"
  by (simp add: lawful_def)

lemma lawful_parses:
  assumes "lawful R"
  shows "parses R (ser_channel R)" "parses R (ser_role R)" "parses R (ser_emoji R)"
    "parses R (ser_emojis R)" "parses R (ser_voice R)" "parses R (ser_member R)"
    "parses R (ser_presence R)" "parses R (ser_message R)" "parses R (ser_messages R)"
    "parses R (ser_guild R)" "parses R (ser_partial_guild R)" "parses R (ser_unavailable R)"
    "parses R (ser_user R)"
  using assms by (auto simp: lawful_def intro: serde_parses)

lemma gives_write:
  assumes "sound_write R x" "\<And>ks. sound R ks \<Longrightarrow> write_valid ks x"
  shows "ends_well R (conn_write x)"
  using assms sound_write_keeps
  by (auto simp: gives_def conn_write_def write_reply_def fails_ok_def split: sum.split)

lemma gives_sadd_each:
  assumes "\<forall>(i, ms) \<in> set m. idx_key i \<and> ms \<noteq> [] \<and> (\<forall>k \<in> set ms. object_key k)"
  shows "ends_well R (sadd_each m)"
  using assms
  by (induction m rule: sadd_each.induct)
    (auto intro!: gives_intros gives_write well_typed_setty soundD)

lemma gives_srem_each:
  assumes "\<forall>(i, ms) \<in> set m. idx_key i \<and> ms \<noteq> []"
  shows "ends_well R (srem_each m)"
  using assms
  by (induction m rule: srem_each.induct)
    (auto intro!: gives_intros gives_write well_typed_setty soundD)

text \<open>The entries of the map that a batch collects.\<close>

lemma collected:
  assumes "visits_once (hash_order R)" "\<forall>k \<in> set keys. object_key k"
    and "(i, ms) \<in> set (hash_order R (collect_members keys))"
  shows "idx_key i" "ms \<noteq> []" "\<forall>k \<in> set ms. object_key k"
proof -
  have mem: "(i, ms) \<in> set (collect_members keys)"
    using assms(1,3) by (simp add: visits_once_set)
  then have "i \<in> (\<Union>k \<in> set keys. set (index_keys k))"
    unfolding keys_members [symmetric] by force
  then show "idx_key i"
    using assms(2) index_keys_idx by auto
  show "ms \<noteq> []"
    using mem members_nonempty [of keys] by force
  show "\<forall>k \<in> set ms. object_key k"
    using batch_members [OF assms(1), of i keys] assms(2,3) object_storage_key by metis
qed

lemma gives_set_all:
  assumes "lawful R" "parses R ser"
    and items: "\<forall>(k, x) \<in> set kvs. cached k \<and> (\<forall>s. ser x = Inr s \<longrightarrow> doc_of R k s)"
  shows "ends_well R (set_all R ser kvs)"
proof (cases "set_items ser kvs []")
  case (Inl e)
  then have "\<exists>x s. ser x = Inl s"
    using set_items_cases [where ser = ser and kvs = kvs and m = "[]"] by auto
  then show ?thesis
    using parsesD(1) [OF assms(2)] by (metis sum.distinct(1))
next
  case (Inr q)
  then obtain skvs where skvs: "serialised ser kvs skvs"
    and q: "q = (storage_items skvs, collect_members (map fst kvs))"
    using set_items_cases [where ser = ser and kvs = kvs and m = "[]"] by (cases q) (auto simp: collect_members_def)
  have obj: "\<forall>k \<in> set (map fst kvs). object_key k"
    using items cached_object by auto
  have docs: "object_key (storage_key k) \<and> doc_of R (storage_key k) s" if "(k, s) \<in> set skvs" for k s
    using serialised_mem [OF skvs that] items cached_object object_storage_key doc_of_storage by blast
  have "ends_well R (conn_write (MSET (storage_items skvs)))" if "skvs \<noteq> []"
    using docs that by (intro gives_write) auto
  moreover have "ends_well R (sadd_each (hash_order R (collect_members (map fst kvs))))"
    using collected [OF lawful_order [OF assms(1)] obj] by (intro gives_sadd_each) blast
  ultimately show ?thesis
    by (auto simp: set_all_def Inr q intro!: gives_intros)
qed

lemma gives_del_all:
  assumes "lawful R" "\<forall>k \<in> set keys. object_key k"
  shows "ends_well R (del_all R keys)"
proof -
  have "ends_well R (conn_write (DEL (map storage_key keys)))" if "keys \<noteq> []"
    using that by (intro gives_write) auto
  moreover have "ends_well R (srem_each (hash_order R (collect_members keys)))"
    using collected [OF lawful_order [OF assms(1)] assms(2)] by (intro gives_srem_each) blast
  ultimately show ?thesis
    by (auto simp: del_all_def del_items_eq intro!: gives_intros simp flip: collect_members_def)
qed

lemma gives_cache_set:
  assumes "lawful R" "parses R ser" "cached k" "\<And>s. ser x = Inr s \<Longrightarrow> doc_of R k s"
  shows "ends_well R (cache_set R ser k x)"
  unfolding cache_set_def using assms by (intro gives_intros gives_set_all) auto

lemma gives_cache_del: "lawful R \<Longrightarrow> object_key k \<Longrightarrow> ends_well R (cache_del R k)"
  unfolding cache_del_def by (intro gives_intros gives_del_all) auto

lemma gives_now: "gives R sane_time now"
  by (simp add: gives_def now_def)

lemma gives_expire_all:
  assumes "\<forall>(k, ttl) \<in> set keys. clock_total R ttl"
  shows "ends_well R (expire_all R keys)"
proof -
  have "ends_well R (expire_items R keys)"
    using assms
  proof (induction R keys rule: expire_items.induct)
    case (2 R key ttl rest)
    have "ends_well R (case dt_add R t (ttl_millis ttl) of
        None \<Rightarrow> Done (Panic ''resulting value is out of range'')
      | Some timestamp \<Rightarrow> and_then (Done (ser_datetime R timestamp)) (\<lambda>s.
          and_then (expire_items R rest) (\<lambda>kvs. ok ((key, s) # kvs))))" if "sane_time t" for t
    proof -
      obtain e s where e: "dt_add R t (ttl_millis ttl) = Some e" "ser_datetime R e = Ok s"
        using "2.prems" \<open>sane_time t\<close> by (auto simp: clock_total_def)
      have "ends_well R (expire_items R rest)"
        using 2 e by auto
      then show ?thesis
        by (simp add: e gives_intros)
    qed
    then show ?case
      by (auto intro!: gives_and_then [OF gives_now])
  qed (simp add: gives_intros)
  moreover have "ends_well R (if kvs = [] then ok () else conn_write (HSET EXPIRY_KEYS kvs))" for kvs
    by (auto intro!: gives_intros gives_write well_typed_hashy soundD)
  ultimately show ?thesis
    unfolding expire_all_def by (rule gives_intros)
qed

lemma gives_expire: "clock_total R ttl \<Longrightarrow> ends_well R (expire R k ttl)"
  unfolding expire_def by (auto intro!: gives_intros gives_expire_all)

text \<open>What is read is a document of the type of its key, whoever stored it.\<close>

lemma gives_cache_get:
  assumes "cached k" "\<And>s. doc_of R k s \<Longrightarrow> \<exists>x. de s = Inr x"
  shows "gives R (\<lambda>v. \<forall>x. v = Some x \<longrightarrow> (\<exists>s. doc_of R k s \<and> de s = Inr x)) (cache_get de k)"
proof -
  have "gives R (\<lambda>v. \<forall>s. v = Some s \<longrightarrow> doc_of R k s) (conn_get k)"
    using assms(1) docsD [OF soundD(2)] well_typed_stringy [OF soundD(1) cached_object]
    by (auto simp: gives_def conn_get_def get_reply_def fails_ok_def split: sum.splits)
  then show ?thesis
    unfolding cache_get_def
    by (rule gives_and_then) (use assms(2) in \<open>fastforce simp: gives_def split: option.split sum.split\<close>)
qed

lemma gives_decode_all:
  assumes "\<forall>s. Some s \<in> set vs \<longrightarrow> (\<exists>x. de s = Inr x)"
  shows "ends_well R (decode_all de vs)"
  using assms
proof (induction de vs rule: decode_all.induct)
  case (3 de doc rest)
  then obtain x where "de doc = Inr x"
    by auto
  with 3 show ?case
    by (auto intro!: gives_intros)
qed (auto intro!: gives_intros)

lemma gives_cache_get_all:
  assumes "\<forall>k \<in> set keys. cached k \<and> (\<forall>s. doc_of R k s \<longrightarrow> (\<exists>x. de s = Inr x))"
  shows "ends_well R (cache_get_all de keys)"
proof -
  have "gives R (\<lambda>vs. \<forall>s. Some s \<in> set vs \<longrightarrow> (\<exists>k \<in> set keys. doc_of R k s)) (conn_mget keys)" if "keys \<noteq> []"
    unfolding gives_def conn_mget_def sure.simps
  proof (intro allI impI)
    fix ks r
    assume ks: "sound R ks" and r: "mget_reply True ks keys r"
    have "\<forall>k \<in> set keys. stringy ks k"
      using assms well_typed_stringy [OF soundD(1) [OF ks] cached_object] by blast
    with that r obtain vs where vs: "r = Inr vs" "flatten_options vs = flatten_options (map (string_at ks) keys)"
      by (auto simp: mget_reply_def fails_ok_def split: sum.splits)
    have "\<exists>k \<in> set keys. doc_of R k s" if "Some s \<in> set vs" for s
    proof -
      have "s \<in> set (flatten_options (map (string_at ks) keys))"
        using that by (simp add: flatten_options_set flip: vs(2))
      then obtain k where "k \<in> set keys" "ks k = Some (RStr s)"
        by (auto simp: flatten_options_set)
      then show ?thesis
        using assms docsD [OF soundD(2) [OF ks]] by blast
    qed
    with vs(1) show "sure (sound R) (\<lambda>r. \<exists>a. r = Ok a \<and> (\<forall>s. Some s \<in> set a \<longrightarrow> (\<exists>k \<in> set keys. doc_of R k s)))
        (from_redis r)"
      by auto
  qed
  moreover have "ends_well R (decode_all de vs)" if "\<forall>s. Some s \<in> set vs \<longrightarrow> (\<exists>k \<in> set keys. doc_of R k s)" for vs
    using that assms by (intro gives_decode_all) blast
  ultimately show ?thesis
    unfolding cache_get_all_def by (cases "keys = []") (simp_all add: gives_ok gives_and_then)
qed

lemma gives_get_members:
  assumes "index_name i"
  shows "gives R (\<lambda>ms. \<forall>m \<in> set ms. object_key m) (get_members i)"
proof -
  have "\<forall>m \<in> set ms. object_key m" if "sound R ks" "fset_of_list ms = set_at ks i" for ks ms
    using soundD(3) [OF that(1)] assms that(2) [symmetric] by (simp add: members_ok_def fset_of_list.rep_eq)
  then have "gives R (\<lambda>ms. \<forall>m \<in> set ms. object_key m) (conn_smembers i)"
    using well_typed_setty [OF soundD(1) index_name_idx [OF assms]]
    by (auto simp: gives_def conn_smembers_def smembers_reply_def fails_ok_def split: sum.splits)
  then show ?thesis
    unfolding get_members_def by (rule gives_and_then) (rule gives_ok)
qed

section \<open>Every event ends well\<close>

lemma gives_read_old:
  assumes "lawful R" "cached k"
  shows "ends_well R (read_old C R k)"
proof -
  have "\<exists>v. de_value R s = Inr v" if "doc_of R k s" for s
    using that assms(1) doc_of_value by (auto simp: lawful_def)
  then show ?thesis
    using gives_well [OF gives_cache_get [OF assms(2)]] by (auto simp: read_old_def intro!: gives_intros)
qed

lemma gives_value_old:
  assumes "parses R ser"
  shows "ends_well R (value_old C R ser x)"
proof -
  obtain v where "to_value R ser x = Ok v"
    using parsesD(2) [OF assms] by blast
  then show ?thesis
    by (simp add: value_old_def gives_ok)
qed

text \<open>The old guild that \<open>clear_guild\<close> returns is the value of a document of a guild.\<close>

definition guild_value :: "runtime \<Rightarrow> u64 \<Rightarrow> json \<Rightarrow> bool" where
  "guild_value R g v \<longleftrightarrow> (\<exists>s. doc_of R (guild_key g) s \<and> de_value R s = Inr v)"

lemma gives_clear_guild:
  assumes "lawful R"
  shows "gives R (\<lambda>old. \<forall>v. old = Some v \<longrightarrow> guild_value R g v) (clear_guild R g)"
  unfolding clear_guild_def
proof (rule gives_then_result [OF gives_get_members])
  fix ms
  assume "\<forall>m \<in> set ms. object_key m"
  then have "ends_well R (del_all R ms)"
    by (rule gives_del_all [OF assms])
  moreover have "gives R (\<lambda>old. \<forall>v. old = Some v \<longrightarrow> guild_value R g v)
      (then_result (cache_get (de_value R) (guild_key g)) (\<lambda>guild.
        case guild of Inr g' \<Rightarrow> and_then (cache_del R (guild_key g)) (\<lambda>_. ok g') | Inl _ \<Rightarrow> ok None))"
  proof (rule gives_then_result [OF gives_cache_get])
    show "\<exists>v. de_value R s = Inr v" if "doc_of R (guild_key g) s" for s
      using that assms doc_of_value by (auto simp: lawful_def)
  qed (use assms in \<open>auto simp: guild_value_def intro!: gives_intros gives_cache_del\<close>)
  ultimately show "gives R (\<lambda>old. \<forall>v. old = Some v \<longrightarrow> guild_value R g v)
      (and_then (case Inr ms of Inr ms \<Rightarrow> del_all R ms | Inl _ \<Rightarrow> ok ()) (\<lambda>_.
        then_result (cache_get (de_value R) (guild_key g)) (\<lambda>guild.
          case guild of Inr g' \<Rightarrow> and_then (cache_del R (guild_key g)) (\<lambda>_. ok g') | Inl _ \<Rightarrow> ok None)))"
    unfolding sum.case by (rule gives_seq)
qed (rule index_name_guild)

lemma gives_clear [gives_intros]: "lawful R \<Longrightarrow> ends_well R (clear_guild R g)"
  by (rule gives_well [OF gives_clear_guild])

lemma parses_items: "lawful R \<Longrightarrow> parses R (ser_item R)"
  unfolding parses_def
proof (rule allI)
  fix x
  assume "lawful R"
  then show "\<exists>s v. ser_item R x = Inr s \<and> de_value R s = Inr v"
    using lawful_parses [of R] by (cases x) (simp_all add: parses_def)
qed

text \<open>Reading an object of a type of its own.\<close>

lemma gives_typed:
  assumes "lawful R"
  shows "ends_well R (cache_get (de_channel R) (channel_key go c))"
    "ends_well R (cache_get (de_member R) (member_key g u))"
    "ends_well R (cache_get (de_message R) (message_key c' m))"
  using assms doc_of_typed [of R]
  by (auto simp: lawful_def intro!: gives_well [OF gives_cache_get])

lemma gives_emojis_update:
  assumes "lawful R"
  shows "ends_well R (on_guild_emojis_update C R g es)"
proof -
  have "ends_well R (cache_get_all (de_emoji R) (filter (\<lambda>key. kind_of key = EMOJI_KEY) keys))" for keys
    using assms doc_of_typed(2) [of R] by (intro gives_cache_get_all) (auto simp: lawful_def)
  then show ?thesis
    using assms lawful_parses [OF assms]
    by (auto simp: on_guild_emojis_update_def Let_def intro!: gives_intros gives_del_all gives_set_all
        gives_value_old doc_ofI gives_well [OF gives_get_members] index_name_guild [simplified])
qed

lemma gives_delete_bulk:
  assumes "lawful R"
  shows "ends_well R (on_message_delete_bulk C R c ids)"
proof -
  have "ends_well R (cache_get_all (de_message R) (map (message_key c) ids))"
    using assms doc_of_typed(4) [of R] by (intro gives_cache_get_all) (auto simp: lawful_def)
  then show ?thesis
    using assms lawful_parses [OF assms]
    by (auto simp: on_message_delete_bulk_def Let_def intro!: gives_intros gives_del_all gives_value_old)
qed

lemma gives_guild_create:
  assumes "lawful R" "clock_total R (state_member_ttl C)"
  shows "gives R (\<lambda>old. \<forall>v. old = Some v \<longrightarrow> guild_value R (gd_id d) v) (on_guild_create C R b d)"
  unfolding on_guild_create_def
proof (rule gives_and_then [OF gives_clear_guild [OF assms(1)]])
  have "ends_well R (set_all R (ser_item R) (guild_items C b d))"
    using guild_items_scope [of C b d R]
    by (intro gives_set_all assms(1) parses_items) (auto simp: doc_of_cached guild_scope_def cached_def)
  then show "gives R (\<lambda>old. \<forall>v. old = Some v \<longrightarrow> guild_value R (gd_id d) v)
      (and_then (set_all R (ser_item R) (guild_items C b d)) (\<lambda>_.
        and_then (when_task (state_member C) (expire_all R
            (map (\<lambda>m. (member_key (gd_id d) (us_id (mb_user m)), state_member_ttl C)) (gd_members d))))
          (\<lambda>_. ok old)))" if "\<forall>v. old = Some v \<longrightarrow> guild_value R (gd_id d) v" for old
    using that assms(2) by (auto intro!: gives_intros gives_expire_all)
qed

lemma gives_update:
  assumes "runtime_ok C R"
  shows "gives R (\<lambda>old. \<forall>g u v. ev = GuildDelete g u \<and> old = Some v \<longrightarrow> guild_value R g v) (update C R b ev)"
proof (cases "\<exists>g u. ev = GuildDelete g u")
  case True
  then show ?thesis
    using gives_clear_guild [OF runtime_lawful [OF assms]] by (auto simp: on_guild_delete_def)
next
  case False
  note law = runtime_lawful [OF assms]
  have ttl: "clock_total R (state_member_ttl C)" "clock_total R (state_message_ttl C)"
    using assms by (simp_all add: runtime_ok_def)
  have "ends_well R (update C R b ev)"
    using law lawful_parses [OF law] ttl False
    by (cases ev) (auto simp: on_channel_create_def on_channel_delete_def on_channel_pins_update_def
      on_channel_update_def on_guild_update_def on_unavailable_guild_def on_member_add_def on_member_remove_def
      on_member_update_def on_member_chunk_def on_message_create_def on_message_delete_def
      on_message_update_def on_presence_update_def on_ready_def on_role_create_def on_role_delete_def
      on_role_update_def on_user_update_def on_voice_state_update_def Let_def
      intro!: gives_intros gives_cache_set gives_set_all gives_cache_del gives_read_old gives_value_old
        gives_expire gives_expire_all gives_typed gives_emojis_update gives_delete_bulk
        gives_well [OF gives_guild_create] intro: doc_ofI split: option.split)
  then show ?thesis
    by (rule gives_mono) (use False in blast)
qed

section \<open>The tasks of the service\<close>

lemma react_calm_old:
  assumes "\<And>g u v. ev = GuildDelete g u \<Longrightarrow> old = Some v \<Longrightarrow> \<exists>obj. v = JObject obj"
  shows "\<not> crashed (react C R E shard old ev)"
proof (cases ev)
  case (GuildDelete g u)
  then show ?thesis
    using assms [OF GuildDelete] by (cases old) (auto simp: react_guild_delete_def)
qed (auto simp: react_guild_create_def react_resumed_def react_disconnected_def react_payload_def
    split: option.split sum.split)

lemma guild_value_object:
  assumes "guild_objects R" "guild_value R g v"
  shows "\<exists>obj. v = JObject obj"
  using assms unfolding guild_objects_def guild_value_def by (metis kind_of_keys(1))

text \<open>
  What the tasks of the cache end in: the loop has updated the cache without an error, the task of
  an event has reacted to it, without a warning of a failed update and without a panic.
\<close>

fun ends_calm :: "('c, 'w) host \<Rightarrow> role \<Rightarrow> effect list res \<Rightarrow> bool" where
  "ends_calm H (OutgoingLoop i shard ev) x \<longleftrightarrow> x = Ok []"
| "ends_calm H (EventTask shard ev) x \<longleftrightarrow>
     (\<exists>old. x = Ok (react (ho_config H) (ho_runtime H) (ho_outside H) shard old ev) \<and>
       \<not> crashed (react (ho_config H) (ho_runtime H) (ho_outside H) shard old ev))"
| "ends_calm H _ x \<longleftrightarrow> True"

lemma loop_calm:
  assumes "runtime_ok (ho_config H) (ho_runtime H)"
  shows "sure (sound (ho_runtime H)) (ends_calm H (OutgoingLoop i shard ev))
    (update_at_once (ho_config H) (ho_runtime H) E b shard ev)"
proof -
  have "gives (ho_runtime H) (\<lambda>es. es = []) (update_at_once (ho_config H) (ho_runtime H) E b shard ev)"
    unfolding update_at_once_def
    by (auto intro!: gives_then_result [OF gives_update [OF assms]] gives_ok)
  then show ?thesis
    unfolding gives_def by (rule sure_mono) simp
qed

lemma event_calm:
  assumes "runtime_ok (ho_config H) (ho_runtime H)" "guild_objects (ho_runtime H)"
  shows "sure (sound (ho_runtime H)) (ends_calm H (EventTask shard ev))
    (spawned_task (ho_outside H) (handle_event (ho_config H) (ho_runtime H) (ho_outside H) b shard ev))"
proof -
  let ?C = "ho_config H" and ?R = "ho_runtime H" and ?E = "ho_outside H"
  let ?P = "\<lambda>es. \<exists>old. es = react ?C ?R ?E shard old ev \<and> \<not> crashed (react ?C ?R ?E shard old ev)"
  have calm: "?P (react ?C ?R ?E shard old ev)"
    if "\<forall>g u v. ev = GuildDelete g u \<and> old = Some v \<longrightarrow> guild_value ?R g v" for old
    using that guild_value_object [OF assms(2)] by (intro exI [of _ old] conjI refl react_calm_old) blast
  have "gives ?R ?P (handle_event ?C ?R ?E b shard ev)"
  proof (cases "state_enabled ?C \<and> \<not> is_payload ev \<and> \<not> is_ready ev")
    case True
    then have eq: "handle_event ?C ?R ?E b shard ev = and_then (then_result (update ?C ?R b ev) (\<lambda>r.
        case r of Inr v \<Rightarrow> ok (v, []) | Inl err \<Rightarrow> ok (None, [update_failed shard err])))
        (\<lambda>(old, failed). ok (failed @ react ?C ?R ?E shard old ev))"
      by (simp add: handle_event_def)
    have "gives ?R (\<lambda>(old, failed). failed = [] \<and>
        (\<forall>g u v. ev = GuildDelete g u \<and> old = Some v \<longrightarrow> guild_value ?R g v))
        (then_result (update ?C ?R b ev) (\<lambda>r.
          case r of Inr v \<Rightarrow> ok (v, []) | Inl err \<Rightarrow> ok (None, [update_failed shard err])))"
      by (rule gives_then_result [OF gives_update [OF assms(1)]]) (auto intro!: gives_ok)
    then show ?thesis
      unfolding eq by (rule gives_and_then) (auto intro!: gives_ok calm)
  next
    case False
    then have "handle_event ?C ?R ?E b shard ev = ok (react ?C ?R ?E shard None ev)"
      by (auto simp: handle_event_def and_then_def)
    then show ?thesis
      using calm [of None] by (simp add: gives_ok)
  qed
  then show ?thesis
    unfolding gives_def sure_spawned_task by (rule sure_mono) (auto simp del: task_result.simps)
qed

text \<open>The other tasks store nothing but the texts at four plain keys.\<close>

lemma writes_plain:
  assumes "visits_once (hash_order R)" "k \<in> {STATUSES_KEY, SESSIONS_KEY, STARTED_KEY, SHARDS_KEY}"
  shows "writes_only (sound_write R) (cache_set R ser k x)"
proof -
  have k: "object_key k" "\<not> cached k" "storage_key k = k"
    using assms(2) plain_keys start_keys
    by (auto simp: cached_def kind_of_single kinds_def kind_defs plain_defs storage_key_def parts_of_def split_on_no_sep)
  have "writes_only (sound_write R) (set_all R ser [(k, x)])"
  proof (rule writes_set_all_if [OF assms(1)])
    show "sound_write R (MSET skvs)" if "fst ` set skvs \<subseteq> storage_key ` fst ` set [(k, x)]" for skvs
      using that k by fastforce
    show "sound_write R (SADD i ms)"
      if "\<And>k'. k' \<in> set ms \<Longrightarrow> \<exists>k'' \<in> fst ` set [(k, x)]. storage_key k'' = k' \<and> i \<in> set (index_keys k'')"
        and "\<exists>k' \<in> fst ` set [(k, x)]. i \<in> set (index_keys k')" for i ms
      using that k index_keys_idx by auto
  qed
  then show ?thesis
    unfolding cache_set_def by (intro writes_intros)
qed

lemma writes_sound_jobs:
  assumes "visits_once (hash_order R)"
  shows "writes_only (sound_write R) (cache_iteration R infos)"
    "writes_only (sound_write R) (metrics_iteration R shards)"
    "writes_only (sound_write R) (start_service checks G C R)"
    "writes_only (sound_write R) (stop_service R dumps)"
proof -
  have del: "writes_only (sound_write R) (del_all R ks)" for ks
    by (auto simp: del_all_def intro!: writes_intros writes_conn_write writes_srem_each split: prod.split)
  have "writes_only (sound_write R) (expire_job R)"
    by (auto simp: expire_job_def del_hashmap_def intro!: writes_intros writes_conn_write del split: sum.split)
  then show "writes_only (sound_write R) (cache_iteration R infos)"
    unfolding cache_iteration_def cache_job_def set_statuses_def
    by (intro writes_intros) (auto intro!: writes_intros writes_plain [OF assms])
  show "writes_only (sound_write R) (metrics_iteration R shards)"
    by (rule writes_jobs(2))
  show "writes_only (sound_write R) (start_service checks G C R)"
    by (auto simp: start_service_def get_clusters_def get_resumes_def set_started_def
        intro!: writes_intros writes_plain [OF assms] split: prod.split option.split)
  show "writes_only (sound_write R) (stop_service R dumps)"
    unfolding stop_service_def by (intro writes_plain [OF assms]) simp
qed

section \<open>The service\<close>

fun phase_sure :: "runtime \<Rightarrow> 'c phase \<Rightarrow> bool" where
  "phase_sure R (Starting t) = sure (sound R) (\<lambda>_. True) t"
| "phase_sure R (Stopping t) = sure (sound R) (\<lambda>_. True) t"
| "phase_sure R _ = True"

definition calm_inv :: "('c, 'w) host \<Rightarrow> ('w \<Rightarrow> keyspace) \<Rightarrow> ('c, 'w) service \<Rightarrow> bool" where
  "calm_inv H view s \<longleftrightarrow>
     sound (ho_runtime H) (view (sv_world s)) \<and> phase_sure (ho_runtime H) (sv_phase s) \<and>
     (\<forall>(r, t) \<in># sv_procs s. sure (sound (ho_runtime H)) (ends_calm H r) t)"

lemma phase_panics: "phase_sure R (sv_phase s) \<Longrightarrow> phase_sure R (sv_phase (panics H m s))"
  by (simp add: panics_def)

lemma jobs_calm:
  assumes "visits_once (hash_order (ho_runtime H))"
  shows "sure (sound (ho_runtime H)) (ends_calm H CacheJob) (cache_iteration (ho_runtime H) infos)"
    "sure (sound (ho_runtime H)) (ends_calm H MetricsJob) (metrics_iteration (ho_runtime H) shards)"
    "phase_sure (ho_runtime H) (Starting (start_service checks G C (ho_runtime H)))"
    "phase_sure (ho_runtime H) (Stopping (stop_service (ho_runtime H) dumps))"
proof -
  have eq: "ends_calm H CacheJob = (\<lambda>_. True)" "ends_calm H MetricsJob = (\<lambda>_. True)"
    by (simp_all add: fun_eq_iff)
  note sound = sure_writes [OF writes_sound_jobs(1) [OF assms]] sure_writes [OF writes_sound_jobs(2) [OF assms]]
    sure_writes [OF writes_sound_jobs(3) [OF assms]] sure_writes [OF writes_sound_jobs(4) [OF assms]]
  show "sure (sound (ho_runtime H)) (ends_calm H CacheJob) (cache_iteration (ho_runtime H) infos)"
    "sure (sound (ho_runtime H)) (ends_calm H MetricsJob) (metrics_iteration (ho_runtime H) shards)"
    "phase_sure (ho_runtime H) (Starting (start_service checks G C (ho_runtime H)))"
    "phase_sure (ho_runtime H) (Stopping (stop_service (ho_runtime H) dumps))"
    using sound by (simp_all add: eq)
qed

lemma calm_inv_proc:
  assumes "redis_contract True (ho_server H) view" "runtime_ok (ho_config H) (ho_runtime H)"
    and "guild_objects (ho_runtime H)" "proc_step H s s'" "calm_inv H view s"
  shows "calm_inv H view s'"
  using assms(4)
proof cases
  case (command r t ps t' w)
  then show ?thesis
    using assms(5) sure_step [OF assms(1) _ _ command(4)] by (auto simp: calm_inv_def)
next
  case (finish r x ps)
  then show ?thesis
    using assms(5) event_calm [OF assms(2,3)] phase_panics [of _ s]
    by (cases "(H, r, x, s\<lparr>sv_procs := ps\<rparr>)" rule: finish_proc.cases) (auto simp: calm_inv_def phase_panics)
qed

lemma calm_inv_env:
  assumes "redis_contract True (ho_server H) view" "runtime_ok (ho_config H) (ho_runtime H)"
    and "env_step H s s'" "calm_inv H view s"
  shows "calm_inv H view s'"
proof -
  note order = lawful_order [OF runtime_lawful [OF assms(2)]]
  from assms(3) show ?thesis
  proof cases
    case (start_command t t' w)
    then show ?thesis
      using assms(4) sure_step [OF assms(1) _ _ start_command(3)] by (auto simp: calm_inv_def)
  next
    case (stop_command t t' w)
    then show ?thesis
      using assms(4) sure_step [OF assms(1) _ _ stop_command(3)] by (auto simp: calm_inv_def)
  qed (use assms(4) loop_calm [OF assms(2)] jobs_calm [OF order] in
    \<open>auto simp: calm_inv_def main_ends_def receive_event_def begin_job_def consume_delivery_def Let_def
      phase_panics split: res.split\<close>)
qed

lemma calm_inv_launch:
  assumes "visits_once (hash_order (ho_runtime H))" "sound (ho_runtime H) (view w)"
  shows "calm_inv H view (fst (launch H B b w))"
  using assms(2) jobs_calm(3) [OF assms(1)]
  by (auto simp: calm_inv_def launch_def main_ends_def Let_def split: prod.splits res.splits)

text \<open>
  C8: on a Redis that answers, launched on a sound store (an empty or a consistent one), with a
  runtime whose types serialise and parse and whose times to live end at dates: under every
  schedule, whatever the tasks of other events do to the store between two commands, every update
  of the cache ends in \<open>Ok\<close> and every task of an event ends with the reactions to its event,
  with no warning of a failed update and no panic; and the store stays sound.
\<close>

theorem service_calm:
  assumes "redis_contract True (ho_server H) view" "runtime_ok (ho_config H) (ho_runtime H)"
    and "guild_objects (ho_runtime H)" "sound (ho_runtime H) (view w)"
    and "service_reaches H (fst (launch H B b w)) s"
  shows "sound (ho_runtime H) (view (sv_world s)) \<and>
    (\<forall>i shard ev x. (OutgoingLoop i shard ev, Done x) \<in># sv_procs s \<longrightarrow> x = Ok []) \<and>
    (\<forall>shard ev x. (EventTask shard ev, Done x) \<in># sv_procs s \<longrightarrow>
       (\<exists>old. x = Ok (react (ho_config H) (ho_runtime H) (ho_outside H) shard old ev) \<and>
          \<not> crashed (react (ho_config H) (ho_runtime H) (ho_outside H) shard old ev)))"
proof -
  have "calm_inv H view s"
    using assms(5)
  proof (induction rule: rtranclp_induct)
    case base
    show ?case
      using assms(4) lawful_order [OF runtime_lawful [OF assms(2)]] by (rule calm_inv_launch [rotated])
  next
    case (step s1 s2)
    then show ?case
      using calm_inv_proc [OF assms(1-3)] calm_inv_env [OF assms(1,2)] unfolding service_step_def by blast
  qed
  then show ?thesis
    unfolding calm_inv_def by (metis (no_types, lifting) case_prodD ends_calm.simps(1,2) sure.simps(1))
qed

end
