(* ===== verification/ServiceDemo.thy ===== *)
theory ServiceDemo
  imports ServiceRun ServiceCalm ServiceWitness
begin

text \<open>
  The properties of the whole service at a concrete host: the server, the runtime, the broker and
  the gateway of the other examples.
\<close>

section \<open>A host\<close>

definition demo_boot :: boot where
  "demo_boot = \<lparr>bt_redis = (\<lambda>_. Inr ()), bt_conn = Inr (), bt_amqp = (\<lambda>_. Inr ()), bt_channel = Inr (),
     bt_channel_send = Inr (), bt_request = Inr ''bot'', bt_model = (\<lambda>_. Inr (demo_user 1)),
     bt_cluster_conn = (\<lambda>_. Inr ())\<rparr>"

definition demo_host :: "(cluster_scheme, keyspace) host" where
  "demo_host = \<lparr>ho_checks = True, ho_gateway = demo_gateway, ho_config = demo_config\<lparr>resume := False\<rparr>,
     ho_runtime = demo_runtime, ho_outside = demo_outside, ho_boot = demo_boot, ho_server = ref_server 0\<rparr>"

abbreviation demo_launch :: "(cluster_scheme, keyspace) service" where
  "demo_launch \<equiv> fst (launch demo_host demo_broker no_queues demo_db)"

lemma demo_host [simp]:
  "ho_checks demo_host" "ho_gateway demo_host = demo_gateway" "ho_config demo_host = demo_config\<lparr>resume := False\<rparr>"
  "ho_runtime demo_host = demo_runtime" "ho_outside demo_host = demo_outside" "ho_boot demo_host = demo_boot"
  "ho_server demo_host = ref_server 0" "ou_unwinds demo_outside"
  by (simp_all add: demo_host_def demo_outside_def)

lemma demo_prepare: "fst (prepare (demo_config\<lparr>resume := False\<rparr>) demo_boot demo_broker no_queues) = Ok (demo_user 1)"
proof -
  obtain b' where "declare_queues (demo_config\<lparr>resume := False\<rparr>) demo_broker no_queues = (Ok (), b')"
    using demo_sends unfolding declare_queues_def by blast
  then show ?thesis
    by (simp add: prepare_def demo_boot_def or_err_def bind_res_def get_current_user_def)
qed

lemma demo_built_again:
  "build_clusters True demo_gateway (demo_config\<lparr>resume := False\<rparr>) [] =
     Ok (demo_clusters, \<lparr>ci_clusters = 2, ci_shards = 5, ci_resumes = 0\<rparr>)"
proof -
  have two: "build_loop k G C rs base extra 2 i l = build_loop k G C rs base extra (Suc (Suc 0)) i l"
    for k and G :: "cluster_scheme gateway" and C rs base extra i l
    by (simp only: numeral_2_eq_2)
  show ?thesis
    by (simp add: build_clusters_def shard_count_def sub_u64_def add_u64_def checked_def div_u64_def
        rem_u64_def range_end_def build_cluster_def demo_gateway_def demo_config_def demo_clusters_def
        Let_def two)
qed

lemma demo_start:
  "run (ref_server 0) (get_resumes (demo_config\<lparr>resume := False\<rparr>) demo_runtime) ks = (Ok [], ks)"
  "dt_format demo_runtime t \<noteq> None" "\<exists>t. ser_string demo_runtime s = Inr t"
  "ser_u64 demo_runtime (shards_total (demo_config\<lparr>resume := False\<rparr>)) = Inr (show_u64 5)"
  "bt_cluster_conn demo_boot i = Inr ()"
  by (simp_all add: get_resumes_def demo_config_def demo_runtime_def demo_boot_def)

theorem service_starts_witness:
  "\<exists>w. service_reaches demo_host demo_launch (serving 1 2 w) \<and> cache_inv w \<and>
    w SHARDS_KEY = Some (RStr (show_u64 5))"
  using service_starts [where H = demo_host and view = "\<lambda>ks. ks" and w = demo_db and B = demo_broker and
      b = no_queues and user = "demo_user 1" and rs = "[]" and cs = demo_clusters and n = "show_u64 5"]
    ref_server_up demo_order demo_inv demo_prepare demo_built_again demo_start demo_length
  by (simp add: demo_user_def)

lemma demo_serves: "\<exists>w. service_reaches demo_host demo_launch (serving 1 2 w) \<and> cache_inv w"
proof -
  obtain w where w: "run (ref_server 0) (start_service True demo_gateway (demo_config\<lparr>resume := False\<rparr>) demo_runtime) demo_db =
      (Ok (demo_clusters, \<lparr>ci_clusters = 2, ci_shards = 5, ci_resumes = 0\<rparr>), w)" "cache_inv w"
    using start_service_run [where view = "\<lambda>ks. ks", OF ref_server_up demo_order demo_inv demo_start(1)
        demo_built_again demo_start(2,3,4)] by blast
  then have "service_reaches demo_host demo_launch (serving (us_id (demo_user 1)) (length demo_clusters) w)"
    using demo_prepare demo_start(5) by (intro launch_serves) simp_all
  with w(2) show ?thesis
    unfolding demo_length by (auto simp: demo_user_def)
qed

section \<open>An event\<close>

text \<open>The first cluster receives \<open>Ready\<close> as a payload and has spawned nothing yet.\<close>

abbreviation demo_event :: event where
  "demo_event \<equiv> ShardPayload ''READY''"

definition demo_received :: "keyspace \<Rightarrow> (cluster_scheme, keyspace) service" where
  "demo_received w = receive_event demo_host 0 0 demo_event (serving 1 2 w)"

lemma demo_receives:
  "service_reaches demo_host demo_launch (serving 1 2 w) \<Longrightarrow>
    service_reaches demo_host demo_launch (demo_received w)"
  unfolding demo_received_def service_step_def
  by (erule rtranclp.rtrancl_into_rtrancl) (auto intro!: env_step.receive simp: serving_def running_def)

lemma demo_received [simp]:
  "sv_received (demo_received w) = [(0, demo_event)]" "sv_log (demo_received w) = []" "sv_bot (demo_received w) = 1"
  "running (demo_received w)" "sv_procs (demo_received w) \<noteq> {#}"
  by (simp_all add: demo_received_def receive_event_def serving_def running_def)

lemma demo_busy: "\<exists>t. sv_procs (demo_received w) = {#(OutgoingLoop 0 0 demo_event, t)#}"
  by (simp add: demo_received_def receive_event_def serving_def)

lemma demo_published: "published demo_runtime demo_event = [(EXCHANGE, ''READY'', ''READY'')]"
  by (simp add: demo_runtime_def)

theorem service_publishes_witness:
  "\<exists>s. service_reaches demo_host demo_launch s \<and> sv_procs s \<noteq> {#} \<and>
    mset (publications (sv_log s)) + (\<Sum>(r, t) \<in># sv_procs s. owed demo_runtime r) =
      {#(EXCHANGE, ''READY'', ''READY'')#}"
proof -
  obtain w where r: "service_reaches demo_host demo_launch (demo_received w)"
    using demo_serves demo_receives by blast
  then show ?thesis
    using service_publishes [OF r] demo_published demo_busy [of w]
    by (intro exI [of _ "demo_received w"]) auto
qed

theorem service_catches_up_witness:
  "\<exists>s. service_reaches demo_host demo_launch s \<and> sv_procs s \<noteq> {#} \<and>
    (\<nexists>f. f 0 = s \<and> (\<forall>n. proc_step demo_host (f n) (f (Suc n)))) \<and>
    (\<forall>s'. (proc_step demo_host)\<^sup>*\<^sup>* s s' \<and> (\<nexists>s''. proc_step demo_host s' s'') \<longrightarrow>
       sv_procs s' = {#} \<and> mset (publications (sv_log s')) = {#(EXCHANGE, ''READY'', ''READY'')#})"
proof -
  obtain w where r: "service_reaches demo_host demo_launch (demo_received w)"
    using demo_serves demo_receives by blast
  then show ?thesis
    using service_catches_up [OF r demo_received(4), unfolded has_aborted_def] demo_published
    by (intro exI [of _ "demo_received w"]) auto
qed

theorem service_safe_witness:
  "\<exists>s. service_reaches demo_host demo_launch s \<and> sv_procs s \<noteq> {#} \<and>
    well_typed (sv_world s) \<and> only_enabled (demo_config\<lparr>resume := False\<rparr>) (sv_bot s) (sv_world s)"
proof -
  obtain w where r: "service_reaches demo_host demo_launch (demo_received w)"
    using demo_serves demo_receives by blast
  have "sv_bot demo_launch = 1" 
    using demo_prepare by (auto simp: launch_def Let_def demo_user_def split: prod.splits)
  then have "only_enabled (demo_config\<lparr>resume := False\<rparr>) (sv_bot demo_launch) demo_db"
    using demo_enabled by (simp add: only_enabled_def allowed_def)
  then show ?thesis
    using service_safe [where view = "\<lambda>ks. ks" and H = demo_host and w = demo_db and B = demo_broker and b = no_queues, OF _ _ _ _ r]
      ref_server_down demo_order demo_typed r
    by (intro exI [of _ "demo_received w"]) auto
qed

text \<open>Two payloads, the second of which is published first, and the queue they reach.\<close>

theorem payloads_reordered_witness:
  "\<exists>s. service_reaches demo_host demo_launch s \<and> sv_procs s = {#} \<and>
    sv_received s = [(0, ShardPayload ''READY''), (0, ShardPayload ''RESUMED'')] \<and>
    publications (sv_log s) = [(EXCHANGE, ''RESUMED'', ''RESUMED''), (EXCHANGE, ''READY'', ''READY'')]"
proof -
  obtain w where w: "service_reaches demo_host demo_launch (serving 1 2 w)"
    using demo_serves by blast
  have "running (serving 1 2 w :: (cluster_scheme, keyspace) service)" "0 \<in> sv_waiting (serving 1 2 w)"
    by (simp_all add: serving_def running_def)
  from payloads_reordered [where H = demo_host, OF this, of 0 "''READY''" "''RESUMED''"] obtain s
    where "service_reaches demo_host (serving 1 2 w) s" "sv_procs s = {#}"
      "sv_received s = [(0, ShardPayload ''READY''), (0, ShardPayload ''RESUMED'')]"
      "publications (sv_log s) = [(EXCHANGE, ''RESUMED'', ''RESUMED''), (EXCHANGE, ''READY'', ''READY'')]"
    by (auto simp: serving_def demo_runtime_def)
  with w show ?thesis
    by (meson rtranclp_trans)
qed

theorem service_fills_queue_witness:
  "\<exists>s b1 b2. service_reaches demo_host demo_launch s \<and>
    prepare (demo_config\<lparr>resume := False\<rparr>) demo_boot demo_broker no_queues = (Ok (demo_user 1), b1) \<and>
    send_all demo_broker (publishing (sv_log s)) b1 = (Ok (), b2) \<and>
    bs_queues b2 QUEUE_RECV = Some (the (bs_queues b1 QUEUE_RECV) @ [(''READY'', ''READY'')])"
proof -
  obtain w where w: "service_reaches demo_host demo_launch (serving 1 2 w)"
    using demo_serves by blast
  have run: "running (serving 1 2 w :: (cluster_scheme, keyspace) service)" "0 \<in> sv_waiting (serving 1 2 w)"
    by (simp_all add: serving_def running_def)
  let ?s = "logs (react_payload demo_runtime demo_outside 0 ''READY'' None)
    (serving 1 2 w\<lparr>sv_received := [(0, demo_event)]\<rparr>) :: (cluster_scheme, keyspace) service"
  let ?s1 = "serving 1 2 w\<lparr>sv_received := [(0, demo_event)], sv_procs := {#(EventTask 0 demo_event,
    ok (react_payload demo_runtime demo_outside 0 ''READY'' None))#}\<rparr> :: (cluster_scheme, keyspace) service"
  have "service_reaches demo_host (serving 1 2 w) ?s1"
    using receive_payload [where H = demo_host, OF run, of 0 "''READY''"] by (simp add: serving_def)
  moreover have "service_step demo_host ?s1 ?s"
    using finish_payload [where H = demo_host and s = ?s1, of 0 demo_event _ "{#}"] run(1)
    by (simp add: serving_def running_def)
  ultimately have r: "service_reaches demo_host demo_launch ?s"
    using w by (meson rtranclp.rtrancl_into_rtrancl rtranclp_trans)
  obtain b1 where b1: "prepare (demo_config\<lparr>resume := False\<rparr>) demo_boot demo_broker no_queues = (Ok (demo_user 1), b1)"
    using demo_prepare by (metis prod.collapse)
  obtain b2 where b2: "send_all demo_broker (publishing (sv_log ?s)) b1 = (Ok (), b2)"
    using demo_sends by blast
  have "default_queue (demo_config\<lparr>resume := False\<rparr>)"
    by (simp add: demo_config_def)
  then have "bs_queues b2 QUEUE_RECV = Some (the (bs_queues b1 QUEUE_RECV) @ [(''READY'', ''READY'')])"
    using service_fills_queue [where H = demo_host and bview = "\<lambda>b. b" and B = demo_broker and b = no_queues,
        OF demo_broker_contract _ _ r b2] b1 react_published [of demo_event None undefined demo_runtime demo_outside 0]
      demo_published
    by (auto simp: serving_def)
  with r b1 b2 show ?thesis
    by blast
qed

text \<open>The bot leaves a guild, on a runtime whose guilds are objects; the task of the event has ended.\<close>

definition calm_host :: "(cluster_scheme, keyspace) host" where
  "calm_host = demo_host\<lparr>ho_runtime := object_runtime\<rparr>"

lemma calm_host [simp]:
  "ho_checks calm_host" "ho_gateway calm_host = demo_gateway" "ho_config calm_host = demo_config\<lparr>resume := False\<rparr>"
  "ho_runtime calm_host = object_runtime" "ho_outside calm_host = demo_outside" "ho_boot calm_host = demo_boot"
  "ho_server calm_host = ref_server 0"
  by (simp_all add: calm_host_def)

lemma calm_serves:
  "\<exists>w. service_reaches calm_host (fst (launch calm_host demo_broker no_queues demo_db)) (serving 1 2 w)"
proof -
  have "run (ref_server 0) (get_resumes (demo_config\<lparr>resume := False\<rparr>) object_runtime) demo_db = (Ok [], demo_db)"
      "dt_format object_runtime t \<noteq> None" "\<exists>t. ser_string object_runtime s = Inr t"
      "ser_u64 object_runtime (shards_total (demo_config\<lparr>resume := False\<rparr>)) = Inr (show_u64 5)" for t s
    by (simp_all add: get_resumes_def demo_config_def object_runtime_def demo_runtime_def)
  then obtain w where "run (ref_server 0) (start_service True demo_gateway (demo_config\<lparr>resume := False\<rparr>) object_runtime) demo_db =
      (Ok (demo_clusters, \<lparr>ci_clusters = 2, ci_shards = 5, ci_resumes = 0\<rparr>), w)"
    using start_service_run [where view = "\<lambda>ks. ks", OF ref_server_up object_order demo_inv _ demo_built_again] by blast
  then have "service_reaches calm_host (fst (launch calm_host demo_broker no_queues demo_db))
      (serving (us_id (demo_user 1)) (length demo_clusters) w)"
    using demo_prepare demo_start(5) by (intro launch_serves) simp_all
  then show ?thesis
    unfolding demo_length by (auto simp: demo_user_def)
qed

theorem service_calm_witness:
  "\<exists>s old. service_reaches calm_host (fst (launch calm_host demo_broker no_queues demo_db)) s \<and>
    (EventTask 0 (GuildDelete 1 False),
      ok (react (demo_config\<lparr>resume := False\<rparr>) object_runtime demo_outside 0 old (GuildDelete 1 False))) \<in># sv_procs s \<and>
    \<not> crashed (react (demo_config\<lparr>resume := False\<rparr>) object_runtime demo_outside 0 old (GuildDelete 1 False))"
proof -
  let ?ev = "GuildDelete 1 False" and ?C = "demo_config\<lparr>resume := False\<rparr>"
  let ?t = "spawned_task demo_outside (handle_event ?C object_runtime demo_outside 1 0 ?ev)"
  obtain w where w: "service_reaches calm_host (fst (launch calm_host demo_broker no_queues demo_db)) (serving 1 2 w)"
    using calm_serves by blast
  let ?s1 = "serving 1 2 w\<lparr>sv_received := [(0, ?ev)], sv_procs := {#(EventTask 0 ?ev, ?t)#}\<rparr>"
  have run: "running (serving 1 2 w :: (cluster_scheme, keyspace) service)" "0 \<in> sv_waiting (serving 1 2 w)"
    by (simp_all add: serving_def running_def)
  have s1: "service_reaches calm_host (serving 1 2 w) ?s1"
    using receive_spawns [where H = calm_host, OF run, of ?ev 0] by (simp add: serving_def)
  obtain x w' where x: "run (ref_server 0) ?t w = (x, w')"
    by (cases "run (ref_server 0) ?t w")
  have "service_reaches calm_host ?s1 (?s1\<lparr>sv_procs := {#(EventTask 0 ?ev, Done x)#}, sv_world := w'\<rparr>)"
    using x run(1) by (intro proc_run) (simp_all add: serving_def running_def)
  with w s1 have r: "service_reaches calm_host (fst (launch calm_host demo_broker no_queues demo_db))
      (?s1\<lparr>sv_procs := {#(EventTask 0 ?ev, Done x)#}, sv_world := w'\<rparr>)"
    by (meson rtranclp_trans)
  have "sound object_runtime demo_db"
    using demo_inv object_docs by (rule sound_cache)
  then obtain old where "x = Ok (react ?C object_runtime demo_outside 0 old ?ev)"
      "\<not> crashed (react ?C object_runtime demo_outside 0 old ?ev)"
    using service_calm [where view = "\<lambda>ks. ks" and H = calm_host and w = demo_db, OF _ _ _ _ r]
      ref_server_up object_runtime_ok object_guilds by auto
  with r show ?thesis
    by (intro exI [of _ "?s1\<lparr>sv_procs := {#(EventTask 0 ?ev, Done x)#}, sv_world := w'\<rparr>"] exI [of _ old]) simp
qed

section \<open>A delivery\<close>

theorem service_accounts_witness:
  "\<exists>s. service_reaches demo_host demo_launch s \<and> sv_consumed s = [Inr (9, [])] \<and>
    acks (sv_log s) = [9] \<and> list_all effect_labelled (sv_log s)"
proof -
  obtain w where w: "service_reaches demo_host demo_launch (serving 1 2 w)"
    using demo_serves by blast
  let ?s = "consume_delivery demo_host (Inr (9, [])) (serving 1 2 w)"
  have "service_step demo_host (serving 1 2 w) ?s"
    unfolding service_step_def by (auto intro!: env_step.deliver simp: serving_def running_def)
  with w have r: "service_reaches demo_host demo_launch ?s"
    by (rule rtranclp.rtrancl_into_rtrancl)
  moreover have "sv_consumed ?s = [Inr (9, [])]"
    by (simp add: consume_delivery_def serving_def Let_def split: res.split)
  ultimately show ?thesis
    using service_accounts [OF r] by (intro exI [of _ ?s]) simp
qed

section \<open>An interrupt\<close>

text \<open>The session of shard 0 is handed over, but the last iteration finds no shards.\<close>

theorem stop_race_witness:
  "\<exists>s s' t. service_reaches demo_host demo_launch s \<and>
    env_step demo_host s (s\<lparr>sv_phase := Stopping (stop_service demo_runtime
      [[(0, \<lparr>si_session_id = ''abc'', si_sequence = 9\<rparr>)]])\<rparr>) \<and>
    service_reaches demo_host (s\<lparr>sv_phase := Stopping (stop_service demo_runtime
      [[(0, \<lparr>si_session_id = ''abc'', si_sequence = 9\<rparr>)]])\<rparr>) s' \<and>
    sv_phase s' = Ended (Ok ()) \<and> sv_world s' SESSIONS_KEY = Some (RStr t) \<and> t = []"
proof -
  obtain w where w: "service_reaches demo_host demo_launch (serving 1 2 w)" "cache_inv w"
    using demo_serves by blast
  have "\<exists>t. ser_statuses demo_runtime x = Inr t" "\<exists>t. ser_sessions demo_runtime y = Inr t" for x y
    by (simp_all add: demo_runtime_def)
  then show ?thesis
    using stop_race [where H = demo_host and view = "\<lambda>ks. ks" and s = "serving 1 2 w" and infos = "[]" and
        dumps = "[[(0, \<lparr>si_session_id = ''abc'', si_sequence = 9\<rparr>)]]"]
      ref_server_up demo_order w
    by (fastforce simp: serving_def demo_runtime_def)
qed

section \<open>A race without harm\<close>

lemma pool_run:
  assumes "run S t w = (x, w')" "i < length ts"
  shows "pool_reaches S Q (ts[i := t], w) (ts[i := Done x], w')"
proof -
  have "pool_reaches S Q (ts[i := t], w) (ts[i := t'], w')" if "task_steps S (t, w) (t', w')" for t' w'
    using that [unfolded task_steps_def]
  proof (induction "(t', w')" arbitrary: t' w' rule: rtranclp_induct)
    case (step p)
    obtain u v where p: "p = (u, v)"
      by (cases p)
    then have "pool_step S Q (ts[i := u], v) ((ts[i := u])[i := t'], w')"
      using step(2) assms(2) by (intro pool_step.command) auto
    then show ?case
      using step(3) [OF p] by simp
  qed simp
  then show ?thesis
    using task_steps_run [OF assms(1)] by blast
qed

text \<open>A message is stored while the task of the deletion of another one has begun.\<close>

theorem race_free_witness:
  "\<exists>old t ks. pool_reaches (ref_server 0) (\<lambda>_. False)
      (map (update demo_config demo_runtime 1) [MessageCreate (demo_message 7 4), MessageDelete 7 3], demo_db)
      ([ok old, t], ks) \<and> t \<noteq> update demo_config demo_runtime 1 (MessageDelete 7 3) \<and> agrees ks (message_key 7 4)"
proof -
  let ?evs = "[MessageCreate (demo_message 7 4), MessageDelete 7 3]"
  let ?ts = "map (update demo_config demo_runtime 1) ?evs"
  have first: "\<exists>t. step_task (ref_server 0) (?ts ! 1) demo_db = Some (t, demo_db) \<and> t \<noteq> ?ts ! 1"
    unfolding nth_Cons_Suc One_nat_def list.map nth_Cons_0 race_delete
    by (intro exI conjI, rule step_get [where ks = demo_db, OF demo_at(1) race_runtime(3)])
      (simp add: and_then_def cache_get_def conn_get_def conn_write_def)
  then obtain t where t: "step_task (ref_server 0) (?ts ! 1) demo_db = Some (t, demo_db)" "t \<noteq> ?ts ! 1"
    by blast
  obtain old ks where ks: "run (ref_server 0) (?ts ! 0) demo_db = (Ok old, ks)"
    using demo_run [of demo_config 1 "MessageCreate (demo_message 7 4)"] by auto
  have "pool_step (ref_server 0) (\<lambda>_. False) (?ts, demo_db) (?ts[1 := t], demo_db)"
    using t(1) by (intro pool_step.command) simp_all
  then have r: "pool_reaches (ref_server 0) (\<lambda>_. False) (?ts, demo_db) ([ok old, t], ks)"
    using pool_run [OF ks, of 0 "?ts[1 := t]" "\<lambda>_. False"] by (simp add: converse_rtranclp_into_rtranclp)
  have "\<not> reaches_key (MessageDelete 7 3) (message_key 7 4)"
    by (auto simp: reaches_key_def dest: arg_cong [where f = parts_of] simp: key_simps)
  then show ?thesis
    using race_free [where view = "\<lambda>ks. ks" and i = 0 and evs = ?evs and k = "message_key 7 4",
        OF ref_server_down demo_order demo_inv demo_enabled _ _ _ r] r t(2)
    by (intro exI [of _ old] exI [of _ t] exI [of _ ks]) (simp add: less_Suc_eq)
qed

end
