(* ===== verification/Spec2Isabelle.thy ===== *)
theory Spec2Isabelle
  imports CacheWitness ServiceWitness ServiceDemo
begin

text \<open>
  twilight-dispatch connects to the Discord gateway with clusters of shards, keeps a cache of the
  gateway's objects in Redis, forwards the gateway's events to RabbitMQ and sends the commands
  that it consumes from RabbitMQ to the shards. This library models the service and proves what
  makes it correct. Everything is translated from \<open>src/\<close>; the other crates, Redis, RabbitMQ
  and Discord are parameters.

  \<^bold>\<open>The parts and how they interact.\<close> \<open>real_main\<close> (\<open>main.rs\<close>) declares the queues
  (\<open>utils.rs\<close>), builds the clusters (\<open>cluster.rs\<close>, resuming the sessions it finds in
  Redis), and spawns: for each cluster the task \<open>outgoing\<close> (\<open>handler.rs\<close>), which for every
  event spawns a task that calls \<open>cache::update\<close> (\<open>cache.rs\<close>) and counts, logs and
  publishes the event; the task \<open>incoming\<close>, which passes deliveries on to the shards; and the
  jobs of \<open>cache.rs\<close> (statuses, sessions, expiry) and \<open>metrics.rs\<close> (gauges). The tasks
  share the cache in Redis.

  \<^bold>\<open>Theories and code.\<close>
  \<^item> \<open>Prelude\<close>: \<open>u64\<close> as 64-bit words, decimal numbers, strings split at colons, hash
    maps as association lists with an arbitrary order of iteration.
  \<^item> \<open>Keys\<close>: \<open>constants.rs\<close>, one definition per constant and key builder. The locale
    \<open>scoped_key\<close> states once that a builder is injective and how its keys split; it is
    interpreted at the seven builders with two ids.
  \<^item> \<open>Models\<close>: \<open>models.rs\<close>, the configuration record, the events; \<open>res\<close> is
    \<open>ApiResult\<close> with panics as a third case. The record \<open>runtime\<close> holds serde, the clock's
    formats and the iteration order of hash maps.
  \<^item> \<open>RedisTasks\<close>: asynchronous code as the commands it awaits (\<open>task\<close>), \<open>run\<close> against
    any server, the documented effect of the commands (\<open>redis_contract\<close>), and weakest
    preconditions (\<open>achieves\<close>), sound for every such server.
  \<^item> \<open>Cache\<close>: \<open>get\<close> to \<open>del_hashmap\<close> of \<open>cache.rs\<close> (lines 29 to 279).
    \<open>CacheInv\<close>: the agreement of objects and index sets, and the locale
    \<open>keyspace_invariant\<close> (the laws a property of the keyspace needs to be kept by every event).
  \<^item> \<open>Update\<close>: \<open>clear_guild\<close> and \<open>update\<close> (lines 368 to 719), one definition per arm.
    \<open>UpdateInv\<close> proves inside the locale that \<open>update\<close> keeps any such invariant;
    \<open>CacheSafety\<close> interprets it three times: documents parse, disabled kinds stay out, other
    objects are untouched.
  \<^item> \<open>Behaviour\<close>, \<open>GuildLife\<close>, \<open>Objects\<close>: what the operations and events do.
    \<open>Jobs\<close>: one iteration of \<open>run_jobs\<close> (lines 281 to 362).
  \<^item> \<open>Cluster\<close>: \<open>get_clusters\<close>; \<open>Queue\<close>: \<open>LocalQueue\<close>, \<open>LargeBotQueue\<close> and
    \<open>waiter\<close> as a step relation, with the locale \<open>request_queue\<close> interpreted at the bucket
    choice of the code.
  \<^item> \<open>Utils\<close>: \<open>utils.rs\<close> and the effects on the outside; \<open>Handler\<close>: \<open>handler.rs\<close>;
    \<open>Dispatch\<close>: what the handlers guarantee.
  \<^item> \<open>Metrics\<close>: \<open>metrics.rs\<close>; \<open>Config\<close>: \<open>config.rs\<close>; \<open>Startup\<close>: the parts
    of \<open>main.rs\<close> before and after the service runs.
  \<^item> \<open>Interleave\<close>: the spawned tasks under any interleaving of their Redis commands;
    \<open>Agreement\<close>: when such a race is harmless.
  \<^item> \<open>Service\<close>: \<open>main\<close> and \<open>real_main\<close> with everything they spawn, as a step relation:
    the record \<open>service\<close> holds the phase of the main task, the clusters whose loop waits, the jobs
    that sleep, the multiset of the running tasks, what was received and consumed, the effects so
    far and the state of Redis. \<open>proc_step\<close> is a command or the end of a spawned task,
    \<open>env_step\<close> a step of the main task or what comes from outside: an event, a delivery, the
    next iteration of a job, the interrupt. \<open>ServiceSafe\<close> holds its invariants under any
    answers of Redis, \<open>ServiceCalm\<close> those on a Redis that answers, \<open>ServiceEnds\<close> its
    termination and \<open>ServiceRun\<close> its runs.
  \<^item> \<open>RefServer\<close>, \<open>CacheWitness\<close>, \<open>ServiceWitness\<close>, \<open>ServiceDemo\<close>: a server, a runtime, a
    configuration and a database, at which the hypotheses of every property hold.

  \<^bold>\<open>What the lemmas show.\<close> The cache: every event ends in \<open>Ok\<close> on a server that answers,
  keeps objects and indexes in agreement, touches nothing else, and stores no object of a disabled
  kind; batches refine an item by item specification for every order of iteration; objects with a
  time to live are gone after it and not before. The handlers: no delivery stops the consumer, and
  a command reaches the one cluster of its shard; the guilds of \<open>Ready\<close> are no joins. The
  clusters partition the
  shards; the queues answer in order, at the configured rate, no earlier than they must, and never
  get stuck. The gauges are exact, a configuration and the sessions are read back as they were
  written. The whole service, in every reachable state and whatever the schedule: the keys keep
  their types, no payload is lost or published twice, the payloads with a name reach the default
  queue, every delivery is acknowledged once, every metric is used with its labels; on a Redis that
  answers no update fails and no task of an event panics, whatever the other tasks do to the store
  in between; the service gets to serve, and it always catches up with what it has received. The
  agreement of objects and indexes holds after an event that runs alone; under races it holds for
  the objects that only one event touches. Some theorems show where the code
  falls short: the state of guild channels is looked up under the wrong key, a huge time to live is
  negative or panics, the member of the bot gets a time to live that it should not have, surplus
  clusters get inverted ranges, a shard without a session is resumed after a crash, an outage counts
  as a join, the payloads can be published in another order than they were received, a message and
  its deletion can race in the cache, and so can the jobs and the shutdown.

  \<^bold>\<open>Hypotheses.\<close> Of Redis: \<open>redis_contract\<close>; with \<open>True\<close> it also answers, with
  \<open>False\<close> any command may fail. The clock shows a time between 1970 and 9000. Of serde: what
  the code stores parses again (\<open>runtime_ok\<close>, \<open>docs\<close>, \<open>resume_serde\<close>), and guilds are
  written as JSON objects (\<open>guild_objects\<close>). Of RabbitMQ:
  \<open>broker_contract\<close>. Of a cluster: it has the shards of its range (\<open>knows_ranges\<close>).

  \<^bold>\<open>Bounds.\<close> No definition uses fuel: the endless loops are modelled by one iteration (the
  jobs), by a list of what the stream delivers (\<open>incoming\<close>, which awaits each delivery
  before the next) or by the reflexive transitive closure of a step relation (\<open>Queue\<close>,
  \<open>Interleave\<close>, and \<open>Service\<close>, which has the loop of \<open>outgoing\<close>). A task is a finite tree of commands, but its branching over the replies is
  infinite, so there is no bound on its steps; that the tasks end is proved with the multiset
  extension of the order of the subtrees (\<open>ServiceEnds\<close>). Arithmetic keeps its width:
  \<open>u64\<close> wraps or panics according to the flag \<open>checks\<close> (release or debug), casts to
  \<open>i64\<close> and \<open>u16\<close> are written out. A panic ends its task or the process according to the
  flag \<open>ou_unwinds\<close> (debug or release).

  \<^bold>\<open>Not modelled.\<close> The length of the sleep of the jobs, logging setup, \<open>dotenv\<close>, the log
  lines of \<open>real_main\<close> and of the jobs, the task of the HTTP server (\<open>run_server\<close> is modelled
  by itself), the connection of the shards, the time stamp of embeds, the fields of the payloads
  that the code only passes through (kept as one JSON value), and memory:
  \<open>Vec::with_capacity\<close> may abort for huge settings. A post to Discord is a task of its own;
  here its effects follow the event's. In \<open>Service\<close> the effects of a task on the outside
  appear when it ends. \<open>one_by_one\<close> of \<open>Dispatch\<close> is one schedule of the tasks of
  events, each to its end before the next event; the two properties about joins are about it, all
  others about tasks are about single events or about all schedules.
\<close>

end
